(* ===== verification/Prelude.thy ===== *)
theory Prelude
  imports Main "HOL-Library.Word"
begin

unbundle bit_operations_syntax

text \<open>
  What every component shares: the bytes and strings of the program, the values an operation
  can fail with, the state-and-exception monad in which the calls into the C libraries are
  sequenced, and the decimal and hexadecimal printing of the C++ streams.
\<close>

section \<open>Bytes, C strings and pointers\<close>

type_synonym byte = "8 word"

text \<open>A \<open>void *\<close> is a 64-bit address; 0 is the null pointer.\<close>

type_synonym ptr = "64 word"

text \<open>A \<open>std::string\<close> is a list of 8-bit characters, so it converts to bytes and back.\<close>

definition bytes_of_string :: "string \<Rightarrow> byte list" where
  "bytes_of_string s = map of_char s"

definition string_of_bytes :: "byte list \<Rightarrow> string" where
  "string_of_bytes bs = map (\<lambda>b. char_of (unat b)) bs"

lemma unat_of_char [simp]: "unat (of_char c :: byte) = of_char c"
proof -
  have "unat (of_nat (of_char c) :: byte) = of_char c mod 256"
    by (simp add: unat_of_nat del: of_nat_of_char of_char_mod_256)
  then show ?thesis by (simp add: of_nat_of_char)
qed

lemma string_of_bytes_of_string [simp]: "string_of_bytes (bytes_of_string s) = s"
  by (simp add: string_of_bytes_def bytes_of_string_def comp_def)

lemma of_char_char_of_byte [simp]: "of_char (char_of (unat b)) = (b :: byte)"
proof -
  have "unat b < 256" using unsigned_less [of b, where 'a = nat] by simp
  then have "(of_char (char_of (unat b)) :: nat) = unat b" by simp
  then show ?thesis
    by (subst of_nat_of_char [symmetric]) (simp only: of_nat_unat ucast_id)
qed

lemma bytes_of_string_of_bytes [simp]: "bytes_of_string (string_of_bytes bs) = bs"
  by (simp add: string_of_bytes_def bytes_of_string_def comp_def)

lemma length_string_of_bytes [simp]: "length (string_of_bytes bs) = length bs"
  by (simp add: string_of_bytes_def)

lemma length_bytes_of_string [simp]: "length (bytes_of_string s) = length s"
  by (simp add: bytes_of_string_def)

text \<open>\<open>c_str()\<close> handed to a C function is read up to the first NUL character.\<close>

definition c_string :: "string \<Rightarrow> string" where
  "c_string s = takeWhile (\<lambda>c. c \<noteq> CHR 0x00) s"

lemma c_string_id: "CHR 0x00 \<notin> set s \<Longrightarrow> c_string s = s"
  by (auto simp: c_string_def takeWhile_eq_all_conv)

lemma c_string_no_nul [simp]: "CHR 0x00 \<notin> set (c_string s)"
  by (auto simp: c_string_def dest: set_takeWhileD)

lemma c_string_idem [simp]: "c_string (c_string s) = c_string s"
  by (rule c_string_id) simp

lemma set_c_string: "set (c_string s) \<subseteq> set s"
  by (auto simp: c_string_def dest: set_takeWhileD)

section \<open>Failures\<close>

text \<open>
  The exceptions the code throws, a failing assertion, and undefined behaviour of C++
  (a null dereference, a read outside an object) as values.
\<close>

datatype exn =
    StdException              \<comment> \<open>a plain \<open>std::exception\<close>\<close>
  | ErrorT int                \<comment> \<open>\<open>zmq::error_t\<close> with its \<open>errnum\<close>\<close>
  | RuntimeError string
  | RangeError string
  | OutOfRange string
  | InvalidArgument string
  | AssertFail string
  | UB string

type_synonym 'a res = "exn + 'a"

definition is_ub :: "'a res \<Rightarrow> bool" where
  "is_ub r = (case r of Inl (UB _) \<Rightarrow> True | _ \<Rightarrow> False)"

lemma is_ub_simps [simp]:
  "is_ub (Inl (UB s))"
  "\<not> is_ub (Inr x)"
  by (simp_all add: is_ub_def)

definition rbind :: "'a res \<Rightarrow> ('a \<Rightarrow> 'b res) \<Rightarrow> 'b res" where
  "rbind m f = (case m of Inl e \<Rightarrow> Inl e | Inr x \<Rightarrow> f x)"

lemma rbind_simps [simp]:
  "rbind (Inl e) f = Inl e"
  "rbind (Inr x) f = f x"
  by (simp_all add: rbind_def)

lemma rbind_Inr_iff: "rbind m f = Inr y \<longleftrightarrow> (\<exists>x. m = Inr x \<and> f x = Inr y)"
  by (cases m) auto

lemma rbind_Inl_iff: "rbind m f = Inl e \<longleftrightarrow> m = Inl e \<or> (\<exists>x. m = Inr x \<and> f x = Inl e)"
  by (cases m) auto

lemma is_ub_rbind: "is_ub (rbind m f) \<longleftrightarrow> is_ub m \<or> (\<exists>x. m = Inr x \<and> is_ub (f x))"
  by (cases m) (auto simp: is_ub_def)

text \<open>Dereferencing a pointer that may be null.\<close>

definition deref :: "'a option \<Rightarrow> 'a res" where
  "deref p = (case p of None \<Rightarrow> Inl (UB ''null'') | Some x \<Rightarrow> Inr x)"

lemma deref_simps [simp]:
  "deref None = Inl (UB ''null'')"
  "deref (Some x) = Inr x"
  by (simp_all add: deref_def)

text \<open>
  \<open>memcpy\<close> reading \<open>n\<close> bytes from the memory at a pointer: null or a shorter object is
  undefined behaviour.
\<close>

definition mem_read :: "byte list option \<Rightarrow> nat \<Rightarrow> byte list res" where
  "mem_read p n = rbind (deref p) (\<lambda>bs. if n \<le> length bs then Inr (take n bs) else Inl (UB ''read''))"

lemma mem_read_Some: "n \<le> length bs \<Longrightarrow> mem_read (Some bs) n = Inr (take n bs)"
  by (simp add: mem_read_def)

section \<open>State and exceptions\<close>

text \<open>
  A computation over the state \<open>'w\<close> of the libraries below the program: it returns a value
  or throws, and the state is kept either way.
\<close>

type_synonym ('w, 'a) comp = "'w \<Rightarrow> 'a res \<times> 'w"

definition ret :: "'a \<Rightarrow> ('w, 'a) comp" where
  "ret x w = (Inr x, w)"

definition throw :: "exn \<Rightarrow> ('w, 'a) comp" where
  "throw e w = (Inl e, w)"

definition bnd :: "('w, 'a) comp \<Rightarrow> ('a \<Rightarrow> ('w, 'b) comp) \<Rightarrow> ('w, 'b) comp" where
  "bnd m f w = (case m w of (Inl e, w') \<Rightarrow> (Inl e, w') | (Inr x, w') \<Rightarrow> f x w')"

definition lift_res :: "'a res \<Rightarrow> ('w, 'a) comp" where
  "lift_res r w = (r, w)"

definition gets :: "('w \<Rightarrow> 'a) \<Rightarrow> ('w, 'a) comp" where
  "gets f w = (Inr (f w), w)"

definition modify :: "('w \<Rightarrow> 'w) \<Rightarrow> ('w, unit) comp" where
  "modify f w = (Inr (), f w)"

text \<open>A C call that always returns: its result and the new state.\<close>

definition call :: "('w \<Rightarrow> 'a \<times> 'w) \<Rightarrow> ('w, 'a) comp" where
  "call f w = (case f w of (x, w') \<Rightarrow> (Inr x, w'))"

lemmas comp_defs = ret_def throw_def bnd_def lift_res_def gets_def modify_def call_def

lemma bnd_ret [simp]: "bnd (ret x) f = f x"
  by (simp add: bnd_def ret_def fun_eq_iff)

lemma bnd_throw [simp]: "bnd (throw e) f = throw e"
  by (simp add: bnd_def throw_def fun_eq_iff)

lemma bnd_assoc: "bnd (bnd m f) g = bnd m (\<lambda>x. bnd (f x) g)"
  by (auto simp: bnd_def fun_eq_iff split: prod.splits sum.splits)

lemma bnd_Inr_iff:
  "bnd m f w = (Inr y, w'') \<longleftrightarrow> (\<exists>x w'. m w = (Inr x, w') \<and> f x w' = (Inr y, w''))"
  by (auto simp: bnd_def split: prod.splits sum.splits)

lemma bnd_step_Inr: "m w = (Inr x, w') \<Longrightarrow> bnd m f w = f x w'"
  by (simp add: bnd_def)

lemma bnd_step_Inl: "m w = (Inl e, w') \<Longrightarrow> bnd m f w = (Inl e, w')"
  by (simp add: bnd_def)

lemma ret_apply [simp]: "ret x w = (Inr x, w)"
  by (simp add: ret_def)

lemma throw_apply [simp]: "throw e w = (Inl e, w)"
  by (simp add: throw_def)

lemma gets_apply [simp]: "gets f w = (Inr (f w), w)"
  by (simp add: gets_def)

lemma modify_apply [simp]: "modify f w = (Inr (), f w)"
  by (simp add: modify_def)

lemma lift_res_apply [simp]: "lift_res r w = (r, w)"
  by (simp add: lift_res_def)

section \<open>Stream output of integers\<close>

text \<open>The digits of \<open>std::hex\<close>, and of \<open>std::hex << std::uppercase\<close>.\<close>

definition lower_digits :: string where
  "lower_digits = ''0123456789abcdef''"

definition upper_digits :: string where
  "upper_digits = ''0123456789ABCDEF''"

fun show_base :: "string \<Rightarrow> nat \<Rightarrow> nat \<Rightarrow> string" where
  "show_base tab b n =
     (if b < 2 \<or> n < b then [tab ! n] else show_base tab b (n div b) @ [tab ! (n mod b)])"

declare show_base.simps [simp del]

definition show_nat :: "nat \<Rightarrow> string" where
  "show_nat n = show_base lower_digits 10 n"

definition show_int :: "int \<Rightarrow> string" where
  "show_int i = (if i < 0 then CHR ''-'' # show_nat (nat (- i)) else show_nat (nat i))"

text \<open>\<open>std::setw(k) << std::setfill('0')\<close> applied to a printed number.\<close>

definition setw0 :: "nat \<Rightarrow> string \<Rightarrow> string" where
  "setw0 k s = replicate (k - length s) CHR ''0'' @ s"

lemma show_base_nonempty: "show_base tab b n \<noteq> []"
  by (subst show_base.simps) simp

text \<open>Reading decimal digits back, to state that printing loses nothing.\<close>

definition digit_val :: "char \<Rightarrow> nat" where
  "digit_val c = of_char c - 48"

definition read_nat :: "string \<Rightarrow> nat" where
  "read_nat s = foldl (\<lambda>a c. 10 * a + digit_val c) 0 s"

definition digits :: "char set" where
  "digits = set ''0123456789''"

lemma digit_cases: "d < 10 \<Longrightarrow> d \<in> {0, 1, 2, 3, 4, 5, 6, 7, 8, 9 :: nat}"
  by auto

lemma digit_val_nth: "d < 10 \<Longrightarrow> digit_val (lower_digits ! d) = d"
  by (drule digit_cases, elim insertE emptyE) (simp_all add: digit_val_def lower_digits_def)

lemma digit_in_digits: "d < 10 \<Longrightarrow> lower_digits ! d \<in> digits"
  by (drule digit_cases, elim insertE emptyE) (simp_all add: digits_def lower_digits_def)

lemma read_show_nat [simp]: "read_nat (show_nat n) = n"
proof (induction n rule: less_induct)
  case (less n)
  show ?case
  proof (cases "n < 10")
    case True
    then show ?thesis
      by (simp add: show_nat_def read_nat_def show_base.simps [of _ 10 n] digit_val_nth)
  next
    case False
    then have "read_nat (show_nat (n div 10)) = n div 10"
      by (intro less) auto
    with False show ?thesis
      by (simp add: show_nat_def read_nat_def show_base.simps [of _ 10 n] digit_val_nth)
  qed
qed

lemma show_nat_inj: "show_nat m = show_nat n \<longleftrightarrow> m = n"
  by (metis read_show_nat)

lemma set_show_nat: "set (show_nat n) \<subseteq> digits"
proof (induction n rule: less_induct)
  case (less n)
  show ?case
  proof (cases "n < 10")
    case True
    then show ?thesis
      by (simp add: show_nat_def show_base.simps [of _ 10 n] digit_in_digits)
  next
    case False
    then have "set (show_nat (n div 10)) \<subseteq> digits"
      by (intro less) auto
    moreover have "lower_digits ! (n mod 10) \<in> digits"
      by (rule digit_in_digits) simp
    ultimately show ?thesis
      using False by (simp add: show_nat_def show_base.simps [of _ 10 n])
  qed
qed

lemma set_show_int: "set (show_int i) \<subseteq> insert (CHR ''-'') digits"
  using set_show_nat by (auto simp: show_int_def)

definition read_int :: "string \<Rightarrow> int" where
  "read_int s = (if s \<noteq> [] \<and> hd s = CHR ''-'' then - int (read_nat (tl s)) else int (read_nat s))"

lemma read_show_int [simp]: "read_int (show_int i) = i"
proof (cases "i < 0")
  case False
  have "show_nat (nat i) \<noteq> [] \<Longrightarrow> hd (show_nat (nat i)) \<noteq> CHR ''-''"
    using subsetD [OF set_show_nat hd_in_set [of "show_nat (nat i)"]] by (auto simp: digits_def)
  with False show ?thesis by (auto simp: read_int_def show_int_def)
qed (simp add: read_int_def show_int_def)

lemma show_int_inj: "show_int i = show_int j \<longleftrightarrow> i = j"
  by (metis read_show_int)

end
