(* ===== verification/ZmqApi.thy ===== *)
theory ZmqApi
  imports Prelude
begin

text \<open>
  The C interface of libzmq as cppzmq calls it. libzmq is not part of the repository, so each
  of its functions is a field of a record that the definitions take as an argument; \<open>'w\<close> is the
  state of the library (and of the process: \<open>errno\<close>, the network), \<open>'m\<close> the C struct
  \<open>zmq_msg_t\<close>. The records extend one another in the order of the header, so one value can
  serve all components. What a component relies on is stated next to it as a predicate on the
  record and appears as a hypothesis where a property needs it.
\<close>

section \<open>Errors: \<open>zmq::error_t\<close>\<close>

record 'w zmq_base =
  zmq_errno :: "'w \<Rightarrow> int"
  zmq_strerror :: "int \<Rightarrow> string"
  EAGAIN :: int
  EINTR :: int
  ETERM :: int
  EINVAL :: int

text \<open>\<open>error_t()\<close> reads the current \<open>errno\<close>; \<open>error_t(err)\<close> stores its argument.\<close>

record error_t = errnum :: int

definition error_t_default :: "('w, 'x) zmq_base_scheme \<Rightarrow> 'w \<Rightarrow> error_t" where
  "error_t_default api w = \<lparr>errnum = zmq_errno api w\<rparr>"

definition error_t_of :: "int \<Rightarrow> error_t" where
  "error_t_of err = \<lparr>errnum = err\<rparr>"

definition error_what :: "('w, 'x) zmq_base_scheme \<Rightarrow> error_t \<Rightarrow> string" where
  "error_what api e = zmq_strerror api (errnum e)"

definition error_num :: "error_t \<Rightarrow> int" where
  "error_num e = errnum e"

text \<open>\<open>throw error_t();\<close>\<close>

definition throw_error :: "('w, 'x) zmq_base_scheme \<Rightarrow> ('w, 'a) comp" where
  "throw_error api w = (Inl (ErrorT (error_num (error_t_default api w))), w)"

text \<open>The same inside a method, whose state is the object next to the library's.\<close>

definition throw_error_this :: "('w, 'x) zmq_base_scheme \<Rightarrow> ('o \<times> 'w, 'a) comp" where
  "throw_error_this api = (\<lambda>(obj, w). (Inl (ErrorT (error_num (error_t_default api w))), (obj, w)))"

text \<open>\<open>ZMQ_ASSERT\<close> and \<open>assert\<close>: no build file defines \<open>NDEBUG\<close>.\<close>

definition zmq_assert :: "bool \<Rightarrow> ('w, unit) comp" where
  "zmq_assert b = (if b then ret () else throw (AssertFail ''assert''))"

lemma zmq_assert_True [simp]: "zmq_assert True = ret ()"
  by (simp add: zmq_assert_def)

text \<open>Methods: a C call on the object, on the library alone, and a pure update of the object.\<close>

definition on_this :: "('o \<Rightarrow> 'w \<Rightarrow> ('a \<times> 'o) \<times> 'w) \<Rightarrow> ('o \<times> 'w, 'a) comp" where
  "on_this f = (\<lambda>(obj, w). case f obj w of ((r, obj'), w') \<Rightarrow> (Inr r, (obj', w')))"

definition on_lib :: "('w, 'a) comp \<Rightarrow> ('o \<times> 'w, 'a) comp" where
  "on_lib f = (\<lambda>(obj, w). case f w of (r, w') \<Rightarrow> (r, (obj, w')))"

definition get_this :: "('o \<times> 'w, 'o) comp" where
  "get_this = gets fst"

definition put_this :: "'o \<Rightarrow> ('o \<times> 'w, unit) comp" where
  "put_this obj = modify (\<lambda>(_, w). (obj, w))"

lemmas this_defs = on_this_def on_lib_def get_this_def put_this_def throw_error_this_def

lemma throw_error_apply [simp]:
  "throw_error api w = (Inl (ErrorT (zmq_errno api w)), w)"
  by (simp add: throw_error_def error_num_def error_t_default_def)

lemma throw_error_this_apply [simp]:
  "throw_error_this api (obj, w) = (Inl (ErrorT (zmq_errno api w)), (obj, w))"
  by (simp add: throw_error_this_def error_num_def error_t_default_def)

lemma on_this_apply: "on_this f (obj, w) = (case f obj w of ((r, obj'), w') \<Rightarrow> (Inr r, (obj', w')))"
  by (simp add: on_this_def)

lemma on_lib_apply: "on_lib f (obj, w) = (case f w of (r, w') \<Rightarrow> (r, (obj, w')))"
  by (simp add: on_lib_def)

lemma get_this_apply [simp]: "get_this (obj, w) = (Inr obj, (obj, w))"
  by (simp add: get_this_def)

lemma put_this_apply [simp]: "put_this obj (obj', w) = (Inr (), (obj, w))"
  by (simp add: put_this_def)

end
