(* ===== verification/ZmqMessage.thy ===== *)
theory ZmqMessage
  imports ZmqApi
begin

text \<open>
  \<open>zmq::message_t\<close> (\<open>zmq.hpp\<close>): the owner of one \<open>zmq_msg_t\<close>. Constructors are computations
  over the library state; methods that change the message run over the pair of the message and
  the library state, so the message is there too when they throw. \<open>zmq_msg_data\<close> gives the
  bytes of the message's data area and \<open>msg_store\<close> is the message after the code has written
  bytes from the start of that area.
\<close>

section \<open>The C functions used\<close>

record ('m, 'w) msg_api = "'w zmq_base" +
  zmq_msg_init :: "'w \<Rightarrow> (int \<times> 'm) \<times> 'w"
  zmq_msg_init_size :: "nat \<Rightarrow> 'w \<Rightarrow> (int \<times> 'm) \<times> 'w"
  zmq_msg_init_data :: "byte list option \<Rightarrow> nat \<Rightarrow> ptr \<Rightarrow> ptr \<Rightarrow> 'w \<Rightarrow> (int \<times> 'm) \<times> 'w"
  zmq_msg_close :: "'m \<Rightarrow> 'w \<Rightarrow> (int \<times> 'm) \<times> 'w"
  zmq_msg_move :: "'m \<Rightarrow> 'm \<Rightarrow> 'w \<Rightarrow> (int \<times> 'm \<times> 'm) \<times> 'w"
  zmq_msg_copy :: "'m \<Rightarrow> 'm \<Rightarrow> 'w \<Rightarrow> (int \<times> 'm \<times> 'm) \<times> 'w"
  zmq_msg_more :: "'m \<Rightarrow> int"
  zmq_msg_data :: "'m \<Rightarrow> byte list"
  zmq_msg_size :: "'m \<Rightarrow> nat"
  msg_store :: "'m \<Rightarrow> byte list \<Rightarrow> 'm"
  zmq_msg_get :: "'m \<Rightarrow> int \<Rightarrow> 'w \<Rightarrow> int \<times> 'w"
  zmq_msg_gets :: "'m \<Rightarrow> string \<Rightarrow> 'w \<Rightarrow> string option \<times> 'w"
  zmq_msg_routing_id :: "'m \<Rightarrow> 32 word"
  zmq_msg_set_routing_id :: "'m \<Rightarrow> 32 word \<Rightarrow> 'w \<Rightarrow> (int \<times> 'm) \<times> 'w"
  zmq_msg_group :: "'m \<Rightarrow> string"
  zmq_msg_set_group :: "'m \<Rightarrow> string \<Rightarrow> 'w \<Rightarrow> (int \<times> 'm) \<times> 'w"

section \<open>Constructors and destructor\<close>

definition message_default :: "('m, 'w, 'x) msg_api_scheme \<Rightarrow> ('w, 'm) comp" where
  "message_default api =
     bnd (call (zmq_msg_init api)) (\<lambda>(rc, msg).
     bnd (zmq_assert (rc = 0)) (\<lambda>_. ret msg))"

definition message_of_size :: "('m, 'w, 'x) msg_api_scheme \<Rightarrow> nat \<Rightarrow> ('w, 'm) comp" where
  "message_of_size api sz =
     bnd (call (zmq_msg_init_size api sz)) (\<lambda>(rc, msg).
     if rc \<noteq> 0 then throw_error api else ret msg)"

text \<open>
  The iterator constructor: \<open>elems\<close> are the bytes of each element of \<open>[first, last)\<close>, all of
  \<open>sizeof(value_t)\<close> bytes. (The assertion that the distance is not negative holds of a list.)
\<close>

definition message_of_range ::
  "('m, 'w, 'x) msg_api_scheme \<Rightarrow> nat \<Rightarrow> byte list list \<Rightarrow> ('w, 'm) comp" where
  "message_of_range api sizeof_value elems =
     (let sz = length elems * sizeof_value in
      bnd (call (zmq_msg_init_size api sz)) (\<lambda>(rc, msg).
      if rc \<noteq> 0 then throw_error api else ret (msg_store api msg (concat elems))))"

definition message_of_mem ::
  "('m, 'w, 'x) msg_api_scheme \<Rightarrow> byte list option \<Rightarrow> nat \<Rightarrow> ('w, 'm) comp" where
  "message_of_mem api dat sz =
     bnd (call (zmq_msg_init_size api sz)) (\<lambda>(rc, msg).
     if rc \<noteq> 0 then throw_error api
     else if sz \<noteq> 0 then
       bnd (lift_res (mem_read dat sz)) (\<lambda>bs. ret (msg_store api msg bs))
     else ret msg)"

definition message_of_data ::
  "('m, 'w, 'x) msg_api_scheme \<Rightarrow> byte list option \<Rightarrow> nat \<Rightarrow> ptr \<Rightarrow> ptr \<Rightarrow> ('w, 'm) comp" where
  "message_of_data api dat sz ffn hint =
     bnd (call (zmq_msg_init_data api dat sz ffn hint)) (\<lambda>(rc, msg).
     if rc \<noteq> 0 then throw_error api else ret msg)"

text \<open>A character array: the terminating NUL is part of the message.\<close>

definition message_of_char_array :: "('m, 'w, 'x) msg_api_scheme \<Rightarrow> string \<Rightarrow> ('w, 'm) comp" where
  "message_of_char_array api lit =
     message_of_range api 1 (map (\<lambda>c. [of_char c]) (lit @ [CHR 0x00]))"

definition message_of_string :: "('m, 'w, 'x) msg_api_scheme \<Rightarrow> string \<Rightarrow> ('w, 'm) comp" where
  "message_of_string api str = message_of_mem api (Some (bytes_of_string str)) (length str)"

text \<open>Any range of trivially copyable values, from its begin to its end.\<close>

definition message_of_rng ::
  "('m, 'w, 'x) msg_api_scheme \<Rightarrow> nat \<Rightarrow> byte list list \<Rightarrow> ('w, 'm) comp" where
  "message_of_rng api sizeof_value rng = message_of_range api sizeof_value rng"

text \<open>Moving out of \<open>rhs\<close>: the new message takes the struct, \<open>rhs\<close> is made empty.\<close>

definition message_move_ctor :: "('m, 'w, 'x) msg_api_scheme \<Rightarrow> ('m \<times> 'w, 'm) comp" where
  "message_move_ctor api =
     bnd get_this (\<lambda>msg.
     bnd (on_this (\<lambda>_. zmq_msg_init api)) (\<lambda>rc.
     bnd (zmq_assert (rc = 0)) (\<lambda>_. ret msg)))"

definition message_move_assign :: "'m \<times> 'm \<Rightarrow> 'm \<times> 'm" where
  "message_move_assign = (\<lambda>(msg, rhs). (rhs, msg))"

definition message_dtor :: "('m, 'w, 'x) msg_api_scheme \<Rightarrow> ('m \<times> 'w, unit) comp" where
  "message_dtor api =
     bnd (on_this (zmq_msg_close api)) (\<lambda>rc. zmq_assert (rc = 0))"

section \<open>Rebuilding, moving and copying\<close>

definition message_rebuild :: "('m, 'w, 'x) msg_api_scheme \<Rightarrow> ('m \<times> 'w, unit) comp" where
  "message_rebuild api =
     bnd (on_this (zmq_msg_close api)) (\<lambda>rc.
     if rc \<noteq> 0 then throw_error_this api else
     bnd (on_this (\<lambda>_. zmq_msg_init api)) (\<lambda>rc. zmq_assert (rc = 0)))"

definition message_rebuild_size :: "('m, 'w, 'x) msg_api_scheme \<Rightarrow> nat \<Rightarrow> ('m \<times> 'w, unit) comp" where
  "message_rebuild_size api sz =
     bnd (on_this (zmq_msg_close api)) (\<lambda>rc.
     if rc \<noteq> 0 then throw_error_this api else
     bnd (on_this (\<lambda>_. zmq_msg_init_size api sz)) (\<lambda>rc.
     if rc \<noteq> 0 then throw_error_this api else ret ()))"

definition message_rebuild_mem ::
  "('m, 'w, 'x) msg_api_scheme \<Rightarrow> byte list option \<Rightarrow> nat \<Rightarrow> ('m \<times> 'w, unit) comp" where
  "message_rebuild_mem api dat sz =
     bnd (on_this (zmq_msg_close api)) (\<lambda>rc.
     if rc \<noteq> 0 then throw_error_this api else
     bnd (on_this (\<lambda>_. zmq_msg_init_size api sz)) (\<lambda>rc.
     if rc \<noteq> 0 then throw_error_this api else
     bnd (lift_res (mem_read dat sz)) (\<lambda>bs.
     bnd get_this (\<lambda>msg. put_this (msg_store api msg bs)))))"

definition message_rebuild_string ::
  "('m, 'w, 'x) msg_api_scheme \<Rightarrow> string \<Rightarrow> ('m \<times> 'w, unit) comp" where
  "message_rebuild_string api str =
     message_rebuild_mem api (Some (bytes_of_string str)) (length str)"

definition message_rebuild_data ::
  "('m, 'w, 'x) msg_api_scheme \<Rightarrow> byte list option \<Rightarrow> nat \<Rightarrow> ptr \<Rightarrow> ptr \<Rightarrow> ('m \<times> 'w, unit) comp" where
  "message_rebuild_data api dat sz ffn hint =
     bnd (on_this (zmq_msg_close api)) (\<lambda>rc.
     if rc \<noteq> 0 then throw_error_this api else
     bnd (on_this (\<lambda>_. zmq_msg_init_data api dat sz ffn hint)) (\<lambda>rc.
     if rc \<noteq> 0 then throw_error_this api else ret ()))"

text \<open>Two messages: the receiver and the argument. The pointer overloads do the same.\<close>

definition message_move ::
  "('m, 'w, 'x) msg_api_scheme \<Rightarrow> (('m \<times> 'm) \<times> 'w, unit) comp" where
  "message_move api =
     bnd (on_this (\<lambda>(msg, other) w. case zmq_msg_move api msg other w of
            ((rc, msg', other'), w') \<Rightarrow> ((rc, (msg', other')), w'))) (\<lambda>rc.
     if rc \<noteq> 0 then throw_error_this api else ret ())"

definition message_copy ::
  "('m, 'w, 'x) msg_api_scheme \<Rightarrow> (('m \<times> 'm) \<times> 'w, unit) comp" where
  "message_copy api =
     bnd (on_this (\<lambda>(msg, other) w. case zmq_msg_copy api msg other w of
            ((rc, msg', other'), w') \<Rightarrow> ((rc, (msg', other')), w'))) (\<lambda>rc.
     if rc \<noteq> 0 then throw_error_this api else ret ())"

definition message_swap :: "'m \<times> 'm \<Rightarrow> 'm \<times> 'm" where
  "message_swap = (\<lambda>(msg, other). (other, msg))"

definition swap_messages :: "'m \<times> 'm \<Rightarrow> 'm \<times> 'm" where
  "swap_messages = message_swap"

section \<open>Reading a message\<close>

definition message_more :: "('m, 'w, 'x) msg_api_scheme \<Rightarrow> 'm \<Rightarrow> bool" where
  "message_more api msg = (zmq_msg_more api msg \<noteq> 0)"

definition message_data :: "('m, 'w, 'x) msg_api_scheme \<Rightarrow> 'm \<Rightarrow> byte list" where
  "message_data api msg = zmq_msg_data api msg"

definition message_size :: "('m, 'w, 'x) msg_api_scheme \<Rightarrow> 'm \<Rightarrow> nat" where
  "message_size api msg = zmq_msg_size api msg"

definition message_empty :: "('m, 'w, 'x) msg_api_scheme \<Rightarrow> 'm \<Rightarrow> bool" where
  "message_empty api msg = (message_size api msg = 0)"

text \<open>\<open>memcmp\<close> compares the first \<open>my_size\<close> bytes of both data areas.\<close>

definition message_eq :: "('m, 'w, 'x) msg_api_scheme \<Rightarrow> 'm \<Rightarrow> 'm \<Rightarrow> bool" where
  "message_eq api msg other =
     (let my_size = message_size api msg in
      my_size = message_size api other
      \<and> take my_size (message_data api msg) = take my_size (message_data api other))"

definition message_neq :: "('m, 'w, 'x) msg_api_scheme \<Rightarrow> 'm \<Rightarrow> 'm \<Rightarrow> bool" where
  "message_neq api msg other = (\<not> message_eq api msg other)"

definition message_get :: "('m, 'w, 'x) msg_api_scheme \<Rightarrow> 'm \<Rightarrow> int \<Rightarrow> ('w, int) comp" where
  "message_get api msg prop =
     bnd (call (zmq_msg_get api msg prop)) (\<lambda>value.
     if value = - 1 then throw_error api else ret value)"

definition message_gets :: "('m, 'w, 'x) msg_api_scheme \<Rightarrow> 'm \<Rightarrow> string \<Rightarrow> ('w, string) comp" where
  "message_gets api msg prop =
     bnd (call (zmq_msg_gets api msg prop)) (\<lambda>value.
     case value of None \<Rightarrow> throw_error api | Some s \<Rightarrow> ret s)"

definition message_routing_id :: "('m, 'w, 'x) msg_api_scheme \<Rightarrow> 'm \<Rightarrow> 32 word" where
  "message_routing_id api msg = zmq_msg_routing_id api msg"

definition message_set_routing_id ::
  "('m, 'w, 'x) msg_api_scheme \<Rightarrow> 32 word \<Rightarrow> ('m \<times> 'w, unit) comp" where
  "message_set_routing_id api routing_id =
     bnd (on_this (\<lambda>msg. zmq_msg_set_routing_id api msg routing_id)) (\<lambda>rc.
     if rc \<noteq> 0 then throw_error_this api else ret ())"

definition message_group :: "('m, 'w, 'x) msg_api_scheme \<Rightarrow> 'm \<Rightarrow> string" where
  "message_group api msg = zmq_msg_group api msg"

definition message_set_group ::
  "('m, 'w, 'x) msg_api_scheme \<Rightarrow> string \<Rightarrow> ('m \<times> 'w, unit) comp" where
  "message_set_group api grp =
     bnd (on_this (\<lambda>msg. zmq_msg_set_group api msg grp)) (\<lambda>rc.
     if rc \<noteq> 0 then throw_error_this api else ret ())"

definition message_to_string :: "('m, 'w, 'x) msg_api_scheme \<Rightarrow> 'm \<Rightarrow> string" where
  "message_to_string api msg = string_of_bytes (take (message_size api msg) (message_data api msg))"

subsection \<open>The debug dump \<open>str()\<close>\<close>

definition ascii_byte :: "byte \<Rightarrow> bool" where
  "ascii_byte b \<longleftrightarrow> 32 \<le> b \<and> b < 127"

definition hex2 :: "byte \<Rightarrow> string" where
  "hex2 b = setw0 2 (show_base upper_digits 16 (unat b))"

text \<open>The loop over the bytes: \<open>prev\<close> is \<open>is_ascii[0]\<close>.\<close>

fun dump_bytes :: "bool \<Rightarrow> byte list \<Rightarrow> string" where
  "dump_bytes prev [] = []"
| "dump_bytes prev (b # bs) =
     (if ascii_byte b \<noteq> prev then '' '' else [])
     @ (if ascii_byte b then [char_of (unat b)] else hex2 b)
     @ dump_bytes (ascii_byte b) bs"

definition message_str :: "('m, 'w, 'x) msg_api_scheme \<Rightarrow> 'm \<Rightarrow> nat \<Rightarrow> string" where
  "message_str api msg max_size =
     (let size_to_print = min (message_size api msg) max_size;
          shown = take size_to_print (message_data api msg);
          first = (size_to_print > 0 \<and> ascii_byte (hd shown))
      in ''zmq::message_t [size '' @ setw0 3 (show_nat (message_size api msg)) @ ''] (''
         @ dump_bytes first shown
         @ (if max_size < message_size api msg then ''... too big to print)'' else '')''))"

text \<open>\<open>operator<<\<close> prints \<open>str()\<close> with its default limit.\<close>

definition message_ostream :: "('m, 'w, 'x) msg_api_scheme \<Rightarrow> 'm \<Rightarrow> string \<Rightarrow> string" where
  "message_ostream api msg os = os @ message_str api msg 1000"

section \<open>What the code relies on\<close>

text \<open>
  The documented behaviour of the message functions: \<open>zmq_msg_init\<close> never fails and gives an
  empty message; a successful \<open>zmq_msg_init_size\<close> gives a message of that size without the more
  flag; the data area has the message's size; writing the whole area changes the content only;
  a successful move transfers the content and leaves the source empty; a successful copy makes
  the contents equal.
\<close>

definition msg_api_ok :: "('m, 'w, 'x) msg_api_scheme \<Rightarrow> bool" where
  "msg_api_ok api \<longleftrightarrow>
     (\<forall>w rc m w'. zmq_msg_init api w = ((rc, m), w') \<longrightarrow>
        rc = 0 \<and> zmq_msg_size api m = 0 \<and> zmq_msg_more api m = 0)
   \<and> (\<forall>n w m w'. zmq_msg_init_size api n w = ((0, m), w') \<longrightarrow>
        zmq_msg_size api m = n \<and> zmq_msg_more api m = 0)
   \<and> (\<forall>m. length (zmq_msg_data api m) = zmq_msg_size api m)
   \<and> (\<forall>m bs. length bs = zmq_msg_size api m \<longrightarrow>
        zmq_msg_data api (msg_store api m bs) = bs
        \<and> zmq_msg_more api (msg_store api m bs) = zmq_msg_more api m)
   \<and> (\<forall>d s w d' s' w'. zmq_msg_move api d s w = ((0, d', s'), w') \<longrightarrow>
        zmq_msg_data api d' = zmq_msg_data api s \<and> zmq_msg_size api s' = 0)
   \<and> (\<forall>d s w d' s' w'. zmq_msg_copy api d s w = ((0, d', s'), w') \<longrightarrow>
        zmq_msg_data api d' = zmq_msg_data api s \<and> zmq_msg_data api s' = zmq_msg_data api s)"

text \<open>Memory for messages is available: \<open>zmq_msg_init_size\<close> does not fail.\<close>

definition msg_memory :: "('m, 'w, 'x) msg_api_scheme \<Rightarrow> bool" where
  "msg_memory api \<longleftrightarrow> (\<forall>n w. fst (fst (zmq_msg_init_size api n w)) = 0)"

text \<open>
  An implementation of the message functions over lists (content and more flag), for any state with
  an \<open>errno\<close>.
\<close>

type_synonym lmsg = "byte list \<times> bool"

definition list_base :: "('w \<Rightarrow> int) \<Rightarrow> 'w zmq_base" where
  "list_base err = \<lparr>zmq_errno = err, zmq_strerror = (\<lambda>_. ''error''),
     EAGAIN = 11, EINTR = 4, ETERM = 156384765, EINVAL = 22\<rparr>"

definition list_msg_api_on :: "('w \<Rightarrow> int) \<Rightarrow> (lmsg, 'w) msg_api" where
  "list_msg_api_on err = zmq_base.extend (list_base err)
     (msg_api.fields
       (\<lambda>w. ((0, ([], False)), w))
       (\<lambda>n w. ((0, (replicate n 0, False)), w))
       (\<lambda>d n f h w. ((0, (case d of None \<Rightarrow> [] | Some bs \<Rightarrow> take n bs, False)), w))
       (\<lambda>m w. ((0, m), w))
       (\<lambda>d s w. ((0, s, ([], False)), w))
       (\<lambda>d s w. ((0, s, s), w))
       (\<lambda>m. if snd m then 1 else 0)
       fst
       (\<lambda>m. length (fst m))
       (\<lambda>m bs. (bs @ drop (length bs) (fst m), snd m))
       (\<lambda>m p w. (-1, w))
       (\<lambda>m p w. (None, w))
       (\<lambda>m. 0)
       (\<lambda>m r w. ((0, m), w))
       (\<lambda>m. [])
       (\<lambda>m g w. ((0, m), w)))"

text \<open>The state of the library can be just its \<open>errno\<close>.\<close>

definition list_msg_api :: "(lmsg, int) msg_api" where
  "list_msg_api = list_msg_api_on (\<lambda>w. w)"

lemmas list_msg_api_simps = list_msg_api_def list_msg_api_on_def list_base_def zmq_base.defs msg_api.defs

lemma list_msg_api_ok: "msg_api_ok list_msg_api"
  by (auto simp: msg_api_ok_def list_msg_api_simps)

lemma list_msg_memory: "msg_memory list_msg_api"
  by (auto simp: msg_memory_def list_msg_api_simps)

section \<open>Lemmas\<close>

lemma msg_initD:
  assumes "msg_api_ok api" "zmq_msg_init api w = ((rc, m), w')"
  shows "rc = 0 \<and> zmq_msg_size api m = 0 \<and> zmq_msg_more api m = 0"
  using assms unfolding msg_api_ok_def by metis

lemma msg_init_sizeD:
  assumes "msg_api_ok api" "zmq_msg_init_size api n w = ((0, m), w')"
  shows "zmq_msg_size api m = n \<and> zmq_msg_more api m = 0"
  using assms unfolding msg_api_ok_def by metis

lemma msg_store_ok:
  assumes "msg_api_ok api" "length bs = zmq_msg_size api m"
  shows "zmq_msg_data api (msg_store api m bs) = bs
    \<and> zmq_msg_more api (msg_store api m bs) = zmq_msg_more api m"
  using assms unfolding msg_api_ok_def by metis

lemma msg_moveD:
  assumes "msg_api_ok api" "zmq_msg_move api d s w = ((0, d', s'), w')"
  shows "zmq_msg_data api d' = zmq_msg_data api s \<and> zmq_msg_size api s' = 0"
  using assms unfolding msg_api_ok_def by metis

lemma msg_copyD:
  assumes "msg_api_ok api" "zmq_msg_copy api d s w = ((0, d', s'), w')"
  shows "zmq_msg_data api d' = zmq_msg_data api s \<and> zmq_msg_data api s' = zmq_msg_data api s"
  using assms unfolding msg_api_ok_def by metis

lemma length_message_data:
  "msg_api_ok api \<Longrightarrow> length (zmq_msg_data api m) = zmq_msg_size api m"
  by (simp add: msg_api_ok_def)

lemma message_to_string_data:
  "msg_api_ok api \<Longrightarrow> message_to_string api m = string_of_bytes (zmq_msg_data api m)"
  by (simp add: message_to_string_def message_size_def message_data_def length_message_data)

lemma message_eq_data:
  "msg_api_ok api \<Longrightarrow> message_eq api a b \<longleftrightarrow> zmq_msg_data api a = zmq_msg_data api b"
  by (auto simp: message_eq_def message_size_def message_data_def Let_def
      length_message_data [symmetric])

text \<open>Every constructor that copies memory yields exactly the bytes copied.\<close>

lemma message_of_size_Inr:
  assumes "msg_api_ok api" "message_of_size api n w = (Inr m, w')"
  shows "zmq_msg_size api m = n \<and> zmq_msg_more api m = 0"
  using assms(2) msg_init_sizeD [OF assms(1), of n w]
  by (auto simp: message_of_size_def bnd_def call_def split: prod.splits if_splits)

lemma message_of_mem_Inr:
  assumes ok: "msg_api_ok api" and r: "message_of_mem api (Some bs) n w = (Inr m, w')"
    and n: "n \<le> length bs"
  shows "zmq_msg_data api m = take n bs \<and> zmq_msg_more api m = 0"
proof -
  obtain rc m0 w0 where i: "zmq_msg_init_size api n w = ((rc, m0), w0)"
    by (metis surj_pair)
  with r have "rc = 0"
    by (auto simp: message_of_mem_def bnd_def call_def split: if_splits)
  with i have m0: "zmq_msg_size api m0 = n" "zmq_msg_more api m0 = 0"
    using msg_init_sizeD [OF ok, of n w m0 w0] by simp_all
  show ?thesis
  proof (cases "n = 0")
    case True
    with r i \<open>rc = 0\<close> have "m = m0"
      by (simp add: message_of_mem_def bnd_def call_def)
    with m0 True ok show ?thesis
      using length_message_data [OF ok, of m0] by simp
  next
    case False
    with r i \<open>rc = 0\<close> n have "m = msg_store api m0 (take n bs)"
      by (simp add: message_of_mem_def bnd_def call_def mem_read_Some)
    with m0 n show ?thesis
      using msg_store_ok [OF ok, of "take n bs" m0] by simp
  qed
qed

text \<open>A construction from memory fails only when libzmq cannot allocate, with its \<open>errno\<close>.\<close>

lemma message_of_mem_Inl:
  assumes "message_of_mem api (Some bs) n w = (Inl e, w')" "n \<le> length bs"
  shows "e = ErrorT (zmq_errno api w')"
  using assms by (auto simp: message_of_mem_def bnd_def call_def mem_read_Some split: prod.splits if_splits)

lemma message_of_mem_total:
  assumes "msg_memory api" "n \<le> length bs"
  shows "\<exists>m w'. message_of_mem api (Some bs) n w = (Inr m, w')"
proof -
  obtain rc m0 w0 where i: "zmq_msg_init_size api n w = ((rc, m0), w0)"
    by (metis surj_pair)
  moreover from this assms have "rc = 0"
    by (metis fst_conv msg_memory_def)
  ultimately show ?thesis
    using assms by (simp add: message_of_mem_def bnd_def call_def mem_read_Some)
qed

text \<open>
  A message built from a string reads back as that string, or the construction throws the
  allocation error of libzmq; in particular it is never undefined behaviour, and with memory
  available it succeeds.
\<close>

theorem message_string_roundtrip:
  assumes "msg_api_ok api"
  shows "case message_of_string api s w of
           (Inr m, _) \<Rightarrow> message_to_string api m = s \<and> \<not> message_more api m
         | (Inl e, w') \<Rightarrow> e = ErrorT (zmq_errno api w') \<and> \<not> msg_memory api"
proof (cases "message_of_string api s w")
  case (Pair r w')
  have run: "message_of_mem api (Some (bytes_of_string s)) (length s) w = (r, w')"
    using Pair by (simp add: message_of_string_def)
  show ?thesis
  proof (cases r)
    case (Inl e)
    with run have "\<not> msg_memory api"
      using message_of_mem_total [of api "length s" "bytes_of_string s" w] by auto
    with Inl run Pair show ?thesis
      using message_of_mem_Inl [of api "bytes_of_string s" "length s" w e w'] by simp
  next
    case (Inr m)
    with run have "zmq_msg_data api m = bytes_of_string s \<and> zmq_msg_more api m = 0"
      using message_of_mem_Inr [OF assms, of "bytes_of_string s" "length s" w m w'] by simp
    with Inr Pair assms show ?thesis
      by (simp add: message_to_string_data message_more_def)
  qed
qed

theorem message_string_roundtrip_witness:
  "case message_of_string list_msg_api ''hi'' 0 of
     (Inr m, _) \<Rightarrow> message_to_string list_msg_api m = ''hi'' \<and> \<not> message_more list_msg_api m
   | (Inl e, w') \<Rightarrow> e = ErrorT (zmq_errno list_msg_api w') \<and> \<not> msg_memory list_msg_api"
  by (rule message_string_roundtrip [OF list_msg_api_ok])

text \<open>The dump of a text message shows the text, of any other one the text in pieces.\<close>

lemma dump_bytes_text:
  "list_all ascii_byte bs \<Longrightarrow> dump_bytes True bs = string_of_bytes bs"
  by (induction bs) (auto simp: string_of_bytes_def)

text \<open>
  \<open>str()\<close> of a message of printable bytes within the limit is its header, its text and a
  closing bracket: nothing is elided or escaped.
\<close>

lemma message_str_text:
  assumes "msg_api_ok api" "list_all ascii_byte (message_data api m)" "message_size api m \<le> max_size"
  shows "message_str api m max_size =
    ''zmq::message_t [size '' @ setw0 3 (show_nat (message_size api m)) @ ''] ('' @
    message_to_string api m @ '')''"
proof -
  have all: "take (message_size api m) (message_data api m) = message_data api m"
    using assms(1) by (simp add: message_size_def message_data_def length_message_data)
  show ?thesis
  proof (cases "message_data api m")
    case Nil
    with assms all show ?thesis
      by (simp add: message_str_def message_to_string_def Let_def min_def string_of_bytes_def)
  next
    case (Cons b bs)
    with assms have "0 < message_size api m"
      using length_message_data [OF assms(1), of m]
      by (cases "message_size api m") (auto simp: message_size_def message_data_def)
    with assms all Cons show ?thesis
      using dump_bytes_text [OF assms(2)]
      by (simp add: message_str_def message_to_string_def Let_def min_def)
  qed
qed

end
