(* ===== verification/ZmqContext.thy ===== *)
theory ZmqContext
  imports ZmqMessage
begin

text \<open>
  \<open>zmq::context_t\<close> (\<open>zmq.hpp\<close>): the owner of a libzmq context. Methods run over the pair of the
  object and the library state. \<open>close\<close> repeats \<open>zmq_ctx_term\<close> while it is interrupted, which
  may go on for ever, so \<open>close\<close> and what calls it are in the option type: \<open>None\<close> is "does not
  return".
\<close>

datatype ctxopt = Ctx_blocky | Ctx_io_threads | Ctx_thread_sched_policy | Ctx_thread_priority
  | Ctx_thread_affinity_cpu_add | Ctx_thread_affinity_cpu_remove | Ctx_thread_name_prefix
  | Ctx_max_msgsz | Ctx_zero_copy_recv | Ctx_max_sockets | Ctx_socket_limit | Ctx_ipv6 | Ctx_msg_t_size

text \<open>
  The C functions; \<open>ctxopt_num\<close> gives the values of the \<open>ZMQ_...\<close> macros of \<open>zmq.h\<close> behind the
  enumerators.
\<close>

record ('m, 'w) ctx_api = "('m, 'w) msg_api" +
  zmq_ctx_new :: "'w \<Rightarrow> ptr \<times> 'w"
  zmq_ctx_set :: "ptr \<Rightarrow> int \<Rightarrow> int \<Rightarrow> 'w \<Rightarrow> int \<times> 'w"
  zmq_ctx_get :: "ptr \<Rightarrow> int \<Rightarrow> 'w \<Rightarrow> int \<times> 'w"
  zmq_ctx_term :: "ptr \<Rightarrow> 'w \<Rightarrow> int \<times> 'w"
  zmq_ctx_shutdown :: "ptr \<Rightarrow> 'w \<Rightarrow> int \<times> 'w"
  ctxopt_num :: "ctxopt \<Rightarrow> int"
  ZMQ_MAX_SOCKETS_DFLT :: int

record context_t = ctx_ptr :: ptr

section \<open>Constructors\<close>

definition context_default :: "('m, 'w, 'x) ctx_api_scheme \<Rightarrow> ('w, context_t) comp" where
  "context_default api =
     bnd (call (zmq_ctx_new api)) (\<lambda>p.
     if p = 0 then throw_error api else ret \<lparr>ctx_ptr = p\<rparr>)"

definition context_threads ::
  "('m, 'w, 'x) ctx_api_scheme \<Rightarrow> int \<Rightarrow> int \<Rightarrow> ('w, context_t) comp" where
  "context_threads api io_threads max_sockets =
     bnd (call (zmq_ctx_new api)) (\<lambda>p.
     if p = 0 then throw_error api else
     bnd (call (zmq_ctx_set api p (ctxopt_num api Ctx_io_threads) io_threads)) (\<lambda>rc.
     bnd (zmq_assert (rc = 0)) (\<lambda>_.
     bnd (call (zmq_ctx_set api p (ctxopt_num api Ctx_max_sockets) max_sockets)) (\<lambda>rc.
     bnd (zmq_assert (rc = 0)) (\<lambda>_.
     ret \<lparr>ctx_ptr = p\<rparr>)))))"

text \<open>Moving: the new object and what is left of \<open>rhs\<close>.\<close>

definition context_move_ctor :: "context_t \<Rightarrow> context_t \<times> context_t" where
  "context_move_ctor rhs = (\<lparr>ctx_ptr = ctx_ptr rhs\<rparr>, rhs\<lparr>ctx_ptr := 0\<rparr>)"

definition context_swap :: "context_t \<times> context_t \<Rightarrow> context_t \<times> context_t" where
  "context_swap = (\<lambda>(this, other).
     (this\<lparr>ctx_ptr := ctx_ptr other\<rparr>, other\<lparr>ctx_ptr := ctx_ptr this\<rparr>))"

section \<open>Options\<close>

definition swap_contexts :: "context_t \<times> context_t \<Rightarrow> context_t \<times> context_t" where
  "swap_contexts = context_swap"

definition context_setctxopt ::
  "('m, 'w, 'x) ctx_api_scheme \<Rightarrow> context_t \<Rightarrow> int \<Rightarrow> int \<Rightarrow> ('w, int) comp" where
  "context_setctxopt api c option optval =
     bnd (call (zmq_ctx_set api (ctx_ptr c) option optval)) (\<lambda>rc.
     bnd (zmq_assert (rc = 0)) (\<lambda>_. ret rc))"

definition context_getctxopt ::
  "('m, 'w, 'x) ctx_api_scheme \<Rightarrow> context_t \<Rightarrow> int \<Rightarrow> ('w, int) comp" where
  "context_getctxopt api c option = call (zmq_ctx_get api (ctx_ptr c) option)"

definition context_set ::
  "('m, 'w, 'x) ctx_api_scheme \<Rightarrow> context_t \<Rightarrow> ctxopt \<Rightarrow> int \<Rightarrow> ('w, unit) comp" where
  "context_set api c option optval =
     bnd (call (zmq_ctx_set api (ctx_ptr c) (ctxopt_num api option) optval)) (\<lambda>rc.
     if rc = - 1 then throw_error api else ret ())"

definition context_get ::
  "('m, 'w, 'x) ctx_api_scheme \<Rightarrow> context_t \<Rightarrow> ctxopt \<Rightarrow> ('w, int) comp" where
  "context_get api c option =
     bnd (call (zmq_ctx_get api (ctx_ptr c) (ctxopt_num api option))) (\<lambda>rc.
     if rc = - 1 then throw_error api else ret rc)"

definition context_handle :: "context_t \<Rightarrow> ptr" where
  "context_handle c = ctx_ptr c"

definition context_bool :: "context_t \<Rightarrow> bool" where
  "context_bool c = (ctx_ptr c \<noteq> 0)"

section \<open>Termination of the context\<close>

text \<open>\<open>do rc = zmq_ctx_term(ptr); while (rc == -1 && errno == EINTR);\<close>\<close>

partial_function (option) ctx_term_loop ::
  "('m, 'w, 'x) ctx_api_scheme \<Rightarrow> ptr \<Rightarrow> 'w \<Rightarrow> (int \<times> 'w) option" where
  "ctx_term_loop api p w =
     (case zmq_ctx_term api p w of
        (rc, w') \<Rightarrow> if rc = - 1 \<and> zmq_errno api w' = EINTR api then ctx_term_loop api p w'
                    else Some (rc, w'))"

definition context_close ::
  "('m, 'w, 'x) ctx_api_scheme \<Rightarrow> context_t \<times> 'w \<Rightarrow> (unit res \<times> context_t \<times> 'w) option" where
  "context_close api = (\<lambda>(c, w).
     if ctx_ptr c = 0 then Some (Inr (), (c, w))
     else case ctx_term_loop api (ctx_ptr c) w of
            None \<Rightarrow> None
          | Some (rc, w') \<Rightarrow> Some (bnd (zmq_assert (rc = 0)) (\<lambda>_. put_this (c\<lparr>ctx_ptr := 0\<rparr>)) (c, w')))"

definition context_dtor ::
  "('m, 'w, 'x) ctx_api_scheme \<Rightarrow> context_t \<times> 'w \<Rightarrow> (unit res \<times> context_t \<times> 'w) option" where
  "context_dtor api = context_close api"

text \<open>Move assignment: close, then swap with \<open>rhs\<close>.\<close>

definition context_move_assign ::
  "('m, 'w, 'x) ctx_api_scheme \<Rightarrow> (context_t \<times> context_t) \<times> 'w
    \<Rightarrow> (unit res \<times> (context_t \<times> context_t) \<times> 'w) option" where
  "context_move_assign api = (\<lambda>((c, rhs), w).
     case context_close api (c, w) of
       None \<Rightarrow> None
     | Some (Inl e, (c', w')) \<Rightarrow> Some (Inl e, ((c', rhs), w'))
     | Some (Inr _, (c', w')) \<Rightarrow> Some (Inr (), (context_swap (c', rhs), w')))"

definition context_shutdown ::
  "('m, 'w, 'x) ctx_api_scheme \<Rightarrow> context_t \<Rightarrow> ('w, unit) comp" where
  "context_shutdown api c =
     (if ctx_ptr c = 0 then ret ()
      else bnd (call (zmq_ctx_shutdown api (ctx_ptr c))) (\<lambda>rc. zmq_assert (rc = 0)))"

section \<open>Closing\<close>

text \<open>The states after 1, 2, ... calls of \<open>zmq_ctx_term\<close>.\<close>

fun term_world :: "('m, 'w, 'x) ctx_api_scheme \<Rightarrow> ptr \<Rightarrow> nat \<Rightarrow> 'w \<Rightarrow> 'w" where
  "term_world api p 0 w = w"
| "term_world api p (Suc n) w = term_world api p n (snd (zmq_ctx_term api p w))"

definition interrupted :: "('m, 'w, 'x) ctx_api_scheme \<Rightarrow> ptr \<Rightarrow> 'w \<Rightarrow> bool" where
  "interrupted api p w \<longleftrightarrow>
     (case zmq_ctx_term api p w of (rc, w') \<Rightarrow> rc = - 1 \<and> zmq_errno api w' = EINTR api)"

lemma ctx_term_loop_step:
  "ctx_term_loop api p w =
     (if interrupted api p w then ctx_term_loop api p (snd (zmq_ctx_term api p w))
      else Some (zmq_ctx_term api p w))"
  by (subst ctx_term_loop.simps) (auto simp: interrupted_def split: prod.splits)

lemma term_world_Suc: "term_world api p (Suc n) w = snd (zmq_ctx_term api p (term_world api p n w))"
  by (induction n arbitrary: w) simp_all

text \<open>The loop ends with the first call that is not interrupted, if there is one.\<close>

lemma ctx_term_loop_first:
  "\<forall>j < k. interrupted api p (term_world api p j w) \<Longrightarrow> \<not> interrupted api p (term_world api p k w) \<Longrightarrow>
     ctx_term_loop api p w = Some (zmq_ctx_term api p (term_world api p k w))"
proof (induction k arbitrary: w)
  case 0
  then show ?case by (simp add: ctx_term_loop_step [of api p w])
next
  case (Suc k)
  have "interrupted api p w" using Suc.prems(1) by force
  moreover have "\<forall>j < k. interrupted api p (term_world api p j (snd (zmq_ctx_term api p w)))"
    using Suc.prems(1) by force
  ultimately show ?case using Suc.IH [of "snd (zmq_ctx_term api p w)"] Suc.prems(2)
    by (simp add: ctx_term_loop_step [of api p w])
qed

lemma ctx_term_loop_some:
  assumes "ctx_term_loop api p w = Some y"
  shows "\<exists>k. \<not> interrupted api p (term_world api p k w)"
  using assms
proof (induction rule: ctx_term_loop.raw_induct [rotated, consumes 1])
  case (1 loop api p w y)
  show ?case
  proof (cases "interrupted api p w")
    case True
    obtain rc w' where r: "zmq_ctx_term api p w = (rc, w')" by (cases "zmq_ctx_term api p w")
    with True 1(2) have "loop api p w' = Some y" by (simp add: interrupted_def)
    from 1(1) [OF this] obtain k where "\<not> interrupted api p (term_world api p k w')" ..
    with r show ?thesis by (intro exI [of _ "Suc k"]) simp
  next
    case False
    then show ?thesis by (intro exI [of _ 0]) simp
  qed
qed

text \<open>
  C36. \<open>close\<close> calls \<open>zmq_ctx_term\<close> again as long as it is interrupted, and no longer. A null context is left
  alone. Otherwise, if every call were interrupted, \<open>close\<close> would not return; else it has made exactly
  the calls up to the first one that is not interrupted. If that one succeeds, the context is left null
  and the libraries as that call left them; if it fails for another reason, an assertion fails and the
  pointer is kept. Closing a null context again, as the destructor does, makes no call.
\<close>

theorem context_close_returns:
  "context_close api (c, w) =
     (if ctx_ptr c = 0 then Some (Inr (), (c, w))
      else if \<forall>k. interrupted api (ctx_ptr c) (term_world api (ctx_ptr c) k w) then None
      else (case zmq_ctx_term api (ctx_ptr c)
              (term_world api (ctx_ptr c) (LEAST k. \<not> interrupted api (ctx_ptr c) (term_world api (ctx_ptr c) k w)) w) of
              (rc, w') \<Rightarrow> Some (if rc = 0 then (Inr (), (c\<lparr>ctx_ptr := 0\<rparr>, w'))
                                else (Inl (AssertFail ''assert''), (c, w')))))
   \<and> context_dtor api (c\<lparr>ctx_ptr := 0\<rparr>, w) = Some (Inr (), (c\<lparr>ctx_ptr := 0\<rparr>, w))"
proof
  let ?i = "\<lambda>k. interrupted api (ctx_ptr c) (term_world api (ctx_ptr c) k w)"
  show "context_close api (c, w) =
     (if ctx_ptr c = 0 then Some (Inr (), (c, w))
      else if \<forall>k. ?i k then None
      else (case zmq_ctx_term api (ctx_ptr c) (term_world api (ctx_ptr c) (LEAST k. \<not> ?i k) w) of
              (rc, w') \<Rightarrow> Some (if rc = 0 then (Inr (), (c\<lparr>ctx_ptr := 0\<rparr>, w'))
                                else (Inl (AssertFail ''assert''), (c, w')))))"
  proof (cases "\<forall>k. ?i k")
    case True
    with ctx_term_loop_some [of api "ctx_ptr c" w] have "ctx_term_loop api (ctx_ptr c) w = None"
      by (cases "ctx_term_loop api (ctx_ptr c) w") auto
    with True show ?thesis by (simp add: context_close_def)
  next
    case False
    then have "\<not> ?i (LEAST k. \<not> ?i k)" by (metis (mono_tags, lifting) LeastI_ex)
    moreover have "\<forall>j < (LEAST k. \<not> ?i k). ?i j" using not_less_Least by blast
    ultimately have "ctx_term_loop api (ctx_ptr c) w
        = Some (zmq_ctx_term api (ctx_ptr c) (term_world api (ctx_ptr c) (LEAST k. \<not> ?i k) w))"
      by (intro ctx_term_loop_first)
    then show ?thesis unfolding if_not_P [OF False]
      by (cases "zmq_ctx_term api (ctx_ptr c) (term_world api (ctx_ptr c) (LEAST k. \<not> ?i k) w)")
        (simp add: context_close_def zmq_assert_def)
  qed
qed (simp add: context_dtor_def context_close_def)

text \<open>The context functions for the examples: state 104 is one interruption before success.\<close>

definition list_ctx_api_on ::
  "('w \<Rightarrow> int) \<Rightarrow> (ptr \<Rightarrow> 'w \<Rightarrow> int \<times> 'w) \<Rightarrow> (lmsg, 'w) ctx_api" where
  "list_ctx_api_on err term = msg_api.extend (list_msg_api_on err)
     (ctx_api.fields
       (\<lambda>w. (1, w))
       (\<lambda>p opt v w. (0, w))
       (\<lambda>p opt w. (0, w))
       term
       (\<lambda>p w. (0, w))
       (\<lambda>opt. 0)
       1023)"

definition list_ctx_api :: "(lmsg, int) ctx_api" where
  "list_ctx_api = list_ctx_api_on (\<lambda>w. w) (\<lambda>p w. if w = 104 then (- 1, 4) else (0, 0))"

lemmas list_ctx_api_simps = list_msg_api_simps list_ctx_api_def list_ctx_api_on_def ctx_api.defs

theorem context_close_returns_witness:
  "context_close list_ctx_api (\<lparr>ctx_ptr = 1\<rparr>, 104) = Some (Inr (), (\<lparr>ctx_ptr = 0\<rparr>, 0))"
proof -
  let ?i = "\<lambda>k. interrupted list_ctx_api 1 (term_world list_ctx_api 1 k 104)"
  have i: "?i 0" "\<not> ?i 1" by (simp_all add: interrupted_def list_ctx_api_simps)
  have "(LEAST k. \<not> ?i k) = 1"
    by (rule Least_equality) (use i in \<open>simp, metis One_nat_def Suc_leI gr0I\<close>)
  moreover have "\<not> (\<forall>k. ?i k)" using i(2) by blast
  ultimately show ?thesis
    using context_close_returns [of list_ctx_api "\<lparr>ctx_ptr = 1\<rparr>" 104] by (simp add: list_ctx_api_simps)
qed

end
