(* ===== verification/ZmqBuffer.thy ===== *)
theory ZmqBuffer
  imports ZmqApi
begin

text \<open>
  The buffer types of \<open>zmq.hpp\<close>: a pointer with a byte count, without ownership. Pointers and
  sizes are 64-bit words. The constructors assert that only an empty buffer has a null pointer
  (the assertion that \<open>ZMQ_EXTENDED_CONSTEXPR\<close> enables).
\<close>

section \<open>\<open>mutable_buffer\<close> and \<open>const_buffer\<close>\<close>

type_synonym size_t = "64 word"

record mutable_buffer =
  mb_data :: ptr
  mb_size :: size_t

record const_buffer =
  cb_data :: ptr
  cb_size :: size_t

definition mutable_buffer_default :: mutable_buffer where
  "mutable_buffer_default = \<lparr>mb_data = 0, mb_size = 0\<rparr>"

definition mutable_buffer_ctor :: "ptr \<Rightarrow> size_t \<Rightarrow> mutable_buffer res" where
  "mutable_buffer_ctor p n =
     (if p \<noteq> 0 \<or> n = 0 then Inr \<lparr>mb_data = p, mb_size = n\<rparr> else Inl (AssertFail ''buffer''))"

definition mutable_buffer_advance :: "size_t \<Rightarrow> mutable_buffer \<Rightarrow> mutable_buffer" where
  "mutable_buffer_advance n mb =
     (let shift = min n (mb_size mb)
      in mb\<lparr>mb_data := mb_data mb + shift, mb_size := mb_size mb - shift\<rparr>)"

definition mutable_buffer_plus :: "mutable_buffer \<Rightarrow> size_t \<Rightarrow> mutable_buffer res" where
  "mutable_buffer_plus mb n =
     mutable_buffer_ctor (mb_data mb + min n (mb_size mb)) (mb_size mb - min n (mb_size mb))"

definition plus_mutable_buffer :: "size_t \<Rightarrow> mutable_buffer \<Rightarrow> mutable_buffer res" where
  "plus_mutable_buffer n mb = mutable_buffer_plus mb n"

definition const_buffer_default :: const_buffer where
  "const_buffer_default = \<lparr>cb_data = 0, cb_size = 0\<rparr>"

definition const_buffer_ctor :: "ptr \<Rightarrow> size_t \<Rightarrow> const_buffer res" where
  "const_buffer_ctor p n =
     (if p \<noteq> 0 \<or> n = 0 then Inr \<lparr>cb_data = p, cb_size = n\<rparr> else Inl (AssertFail ''buffer''))"

definition const_buffer_of_mutable :: "mutable_buffer \<Rightarrow> const_buffer" where
  "const_buffer_of_mutable mb = \<lparr>cb_data = mb_data mb, cb_size = mb_size mb\<rparr>"

definition const_buffer_advance :: "size_t \<Rightarrow> const_buffer \<Rightarrow> const_buffer" where
  "const_buffer_advance n cb =
     (let shift = min n (cb_size cb)
      in cb\<lparr>cb_data := cb_data cb + shift, cb_size := cb_size cb - shift\<rparr>)"

definition const_buffer_plus :: "const_buffer \<Rightarrow> size_t \<Rightarrow> const_buffer res" where
  "const_buffer_plus cb n =
     const_buffer_ctor (cb_data cb + min n (cb_size cb)) (cb_size cb - min n (cb_size cb))"

definition plus_const_buffer :: "size_t \<Rightarrow> const_buffer \<Rightarrow> const_buffer res" where
  "plus_const_buffer n cb = const_buffer_plus cb n"

section \<open>Buffer creation\<close>

definition buffer_mutable_ptr :: "ptr \<Rightarrow> size_t \<Rightarrow> mutable_buffer res" where
  "buffer_mutable_ptr p n = mutable_buffer_ctor p n"

definition buffer_const_ptr :: "ptr \<Rightarrow> size_t \<Rightarrow> const_buffer res" where
  "buffer_const_ptr p n = const_buffer_ctor p n"

definition buffer_mutable :: "mutable_buffer \<Rightarrow> mutable_buffer" where
  "buffer_mutable mb = mb"

definition buffer_mutable_n :: "mutable_buffer \<Rightarrow> size_t \<Rightarrow> mutable_buffer res" where
  "buffer_mutable_n mb n = mutable_buffer_ctor (mb_data mb) (min (mb_size mb) n)"

definition buffer_const :: "const_buffer \<Rightarrow> const_buffer" where
  "buffer_const cb = cb"

definition buffer_const_n :: "const_buffer \<Rightarrow> size_t \<Rightarrow> const_buffer res" where
  "buffer_const_n cb n = const_buffer_ctor (cb_data cb) (min (cb_size cb) n)"

text \<open>
  A contiguous sequence: the address of its first element, the number of its elements, the size of
  one, and whether its elements are const (which decides between the two buffer types).
\<close>

record seq =
  seq_addr :: ptr
  seq_size :: size_t
  seq_sizeof :: size_t
  seq_const :: bool

definition buffer_contiguous_sequence :: "seq \<Rightarrow> (mutable_buffer + const_buffer) res" where
  "buffer_contiguous_sequence sq =
     (let size = seq_size sq; p = (if size \<noteq> 0 then seq_addr sq else 0); n = size * seq_sizeof sq in
      if seq_const sq then rbind (buffer_const_ptr p n) (\<lambda>b. Inr (Inr b))
      else rbind (buffer_mutable_ptr p n) (\<lambda>b. Inr (Inl b)))"

definition buffer_contiguous_sequence_n :: "seq \<Rightarrow> size_t \<Rightarrow> (mutable_buffer + const_buffer) res" where
  "buffer_contiguous_sequence_n sq n_bytes =
     (let size = seq_size sq; p = (if size \<noteq> 0 then seq_addr sq else 0);
          n = min (size * seq_sizeof sq) n_bytes in
      if seq_const sq then rbind (buffer_const_ptr p n) (\<lambda>b. Inr (Inr b))
      else rbind (buffer_mutable_ptr p n) (\<lambda>b. Inr (Inl b)))"

text \<open>
  The overloads for the standard containers, without and with a byte limit; a container's elements
  are const when it is (for \<open>std::array<const T, N>\<close> and \<open>string_view\<close>, always).
\<close>

definition buffer_opt :: "seq \<Rightarrow> size_t option \<Rightarrow> (mutable_buffer + const_buffer) res" where
  "buffer_opt sq limit = (case limit of
     None \<Rightarrow> buffer_contiguous_sequence sq
   | Some n_bytes \<Rightarrow> buffer_contiguous_sequence_n sq n_bytes)"

definition buffer_c_array ::
  "bool \<Rightarrow> size_t \<Rightarrow> ptr \<Rightarrow> size_t \<Rightarrow> size_t option \<Rightarrow> (mutable_buffer + const_buffer) res" where
  "buffer_c_array const_array sizeof_elem data sz limit =
     buffer_opt \<lparr>seq_addr = data, seq_size = sz, seq_sizeof = sizeof_elem, seq_const = const_array\<rparr> limit"

definition buffer_std_array ::
  "bool \<Rightarrow> bool \<Rightarrow> size_t \<Rightarrow> ptr \<Rightarrow> size_t \<Rightarrow> size_t option \<Rightarrow> (mutable_buffer + const_buffer) res" where
  "buffer_std_array const_elem const_array sizeof_elem data sz limit =
     buffer_opt \<lparr>seq_addr = data, seq_size = sz, seq_sizeof = sizeof_elem,
       seq_const = (const_elem \<or> const_array)\<rparr> limit"

definition buffer_std_vector ::
  "bool \<Rightarrow> size_t \<Rightarrow> ptr \<Rightarrow> size_t \<Rightarrow> size_t option \<Rightarrow> (mutable_buffer + const_buffer) res" where
  "buffer_std_vector const_vector sizeof_elem data sz limit =
     buffer_opt \<lparr>seq_addr = data, seq_size = sz, seq_sizeof = sizeof_elem, seq_const = const_vector\<rparr> limit"

definition buffer_std_string ::
  "bool \<Rightarrow> size_t \<Rightarrow> ptr \<Rightarrow> size_t \<Rightarrow> size_t option \<Rightarrow> (mutable_buffer + const_buffer) res" where
  "buffer_std_string const_string sizeof_char data sz limit =
     buffer_opt \<lparr>seq_addr = data, seq_size = sz, seq_sizeof = sizeof_char, seq_const = const_string\<rparr> limit"

definition buffer_string_view ::
  "size_t \<Rightarrow> ptr \<Rightarrow> size_t \<Rightarrow> size_t option \<Rightarrow> (mutable_buffer + const_buffer) res" where
  "buffer_string_view sizeof_char data sz limit =
     buffer_opt \<lparr>seq_addr = data, seq_size = sz, seq_sizeof = sizeof_char, seq_const = True\<rparr> limit"

text \<open>
  A string literal of \<open>N\<close> characters with its terminator, given as its address and characters: the
  terminator must be NUL and is not part of the buffer.
\<close>

definition str_buffer :: "size_t \<Rightarrow> ptr \<Rightarrow> nat list \<Rightarrow> const_buffer res" where
  "str_buffer sizeof_char addr data =
     (let N = length data in
      if N = 0 \<or> data ! (N - 1) \<noteq> 0 then Inl (AssertFail ''str_buffer'')
      else const_buffer_ctor addr ((of_nat N - 1) * sizeof_char))"

text \<open>The literal operator \<open>_zbuf\<close>; \<open>sizeof_char\<close> is 1, 2 or 4 with the character type.\<close>

definition zbuf_literal :: "size_t \<Rightarrow> ptr \<Rightarrow> size_t \<Rightarrow> const_buffer res" where
  "zbuf_literal sizeof_char str len = const_buffer_ctor str (len * sizeof_char)"

section \<open>Lemmas\<close>

text \<open>The buffer as the range of offsets it covers: where it starts and where it ends.\<close>

definition mb_end :: "mutable_buffer \<Rightarrow> ptr" where
  "mb_end mb = mb_data mb + mb_size mb"

lemma unat_min_sub: "unat (a - min n a) = unat a - unat (n :: size_t)"
  by (cases "n \<le> a") (auto simp: min_def unat_sub word_le_nat_alt)

text \<open>
  Advancing a buffer moves its start and keeps its end: it never runs past the end however far it
  is advanced, its size is the old size minus the distance stopped at zero, and two advances in a
  row are one advance by the sum (when the sum is a size).
\<close>

theorem mutable_buffer_advance_window:
  "mb_end (mutable_buffer_advance n mb) = mb_end mb
   \<and> unat (mb_size (mutable_buffer_advance n mb)) = unat (mb_size mb) - unat n
   \<and> (unat n + unat k < 2 ^ 64 \<longrightarrow>
        mutable_buffer_advance k (mutable_buffer_advance n mb) = mutable_buffer_advance (n + k) mb)"
proof (intro conjI impI)
  show "mb_end (mutable_buffer_advance n mb) = mb_end mb"
    by (simp add: mb_end_def mutable_buffer_advance_def Let_def)
  show "unat (mb_size (mutable_buffer_advance n mb)) = unat (mb_size mb) - unat n"
    by (simp add: mutable_buffer_advance_def Let_def unat_min_sub)
  assume "unat n + unat k < 2 ^ 64"
  then have s: "unat (n + k) = unat n + unat k" by (simp add: unat_word_ariths)
  have a: "min n (mb_size mb) + min k (mb_size mb - min n (mb_size mb)) = min (n + k) (mb_size mb)"
  proof (cases "n \<le> mb_size mb")
    case True
    then have u: "unat (mb_size mb - n) = unat (mb_size mb) - unat n"
      by (simp add: unat_sub word_le_nat_alt)
    show ?thesis
    proof (cases "k \<le> mb_size mb - n")
      case k: True
      with True u s have "n + k \<le> mb_size mb" by (simp add: word_le_nat_alt)
      with True k show ?thesis by (simp add: min_def)
    next
      case k: False
      with True u s have "\<not> n + k \<le> mb_size mb" by (simp add: word_le_nat_alt)
      with True k show ?thesis by (simp add: min_def)
    qed
  next
    case False
    with s have "\<not> n + k \<le> mb_size mb" by (simp add: word_le_nat_alt)
    with False show ?thesis by (simp add: min_def)
  qed
  then have b: "mb_size mb - min n (mb_size mb) - min k (mb_size mb - min n (mb_size mb))
      = mb_size mb - min (n + k) (mb_size mb)"
    by (simp only: diff_diff_eq)
  have "mutable_buffer_advance k (mutable_buffer_advance n mb) =
      \<lparr>mb_data = mb_data mb + (min n (mb_size mb) + min k (mb_size mb - min n (mb_size mb))),
       mb_size = mb_size mb - min n (mb_size mb) - min k (mb_size mb - min n (mb_size mb))\<rparr>"
    by (cases mb) (simp add: mutable_buffer_advance_def Let_def)
  moreover have "mutable_buffer_advance (n + k) mb =
      \<lparr>mb_data = mb_data mb + min (n + k) (mb_size mb), mb_size = mb_size mb - min (n + k) (mb_size mb)\<rparr>"
    by (cases mb) (simp add: mutable_buffer_advance_def Let_def)
  ultimately show "mutable_buffer_advance k (mutable_buffer_advance n mb) = mutable_buffer_advance (n + k) mb"
    by (simp only: a b)
qed

theorem mutable_buffer_advance_window_witness:
  "mutable_buffer_advance 5 (mutable_buffer_advance 7 \<lparr>mb_data = 100, mb_size = 10\<rparr>)
     = mutable_buffer_advance 12 \<lparr>mb_data = 100, mb_size = 10\<rparr>"
  using mutable_buffer_advance_window [of 7 "\<lparr>mb_data = 100, mb_size = 10\<rparr>" 5] by simp

end
