(* ===== verification/ZmqCodec.thy ===== *)
theory ZmqCodec
  imports ZmqMessage Codec
begin

text \<open>
  The framing of multipart messages in \<open>zmq_addon.hpp\<close>: network byte order, \<open>zmq::encode\<close> and
  \<open>zmq::decode\<close>. The byte order of the machine is a parameter \<open>le\<close> (true on a little-endian one).
  The parts given to \<open>encode\<close> are the byte contents of the range's elements (messages or
  buffers); the container behind \<open>decode\<close>'s output iterator is the object of the computation, so
  what was decoded before an exception is kept.
\<close>

section \<open>Byte order\<close>

text \<open>The object representation of an unsigned integer on the machine.\<close>

definition rep_u16 :: "bool \<Rightarrow> 16 word \<Rightarrow> byte list" where
  "rep_u16 le v = (let bs = [ucast v, ucast (drop_bit 8 v)] in if le then bs else rev bs)"

definition rep_u32 :: "bool \<Rightarrow> 32 word \<Rightarrow> byte list" where
  "rep_u32 le v =
     (let bs = [ucast v, ucast (drop_bit 8 v), ucast (drop_bit 16 v), ucast (drop_bit 24 v)]
      in if le then bs else rev bs)"

text \<open>Reading a \<open>uint32_t\<close> back from its representation (\<open>memcpy\<close> into the integer).\<close>

definition unrep_u32 :: "bool \<Rightarrow> byte list \<Rightarrow> 32 word" where
  "unrep_u32 le bs =
     (let ds = (if le then bs else rev bs) in
      ucast (ds ! 0) OR push_bit 8 (ucast (ds ! 1)) OR push_bit 16 (ucast (ds ! 2))
      OR push_bit 24 (ucast (ds ! 3)))"

definition is_little_endian :: "bool \<Rightarrow> bool" where
  "is_little_endian le = (rep_u16 le 0x01 ! 0 = 0x01)"

definition write_network_order :: "bool \<Rightarrow> 32 word \<Rightarrow> byte list" where
  "write_network_order le value =
     (if is_little_endian le then
        (let mask = 0xFF in
         [ucast (drop_bit 24 value AND mask), ucast (drop_bit 16 value AND mask),
          ucast (drop_bit 8 value AND mask), ucast (value AND mask)])
      else rep_u32 le value)"

definition read_u32_network_order :: "bool \<Rightarrow> byte list \<Rightarrow> 32 word" where
  "read_u32_network_order le buf =
     (if is_little_endian le then
        push_bit 24 (ucast (buf ! 0)) + push_bit 16 (ucast (buf ! 1))
        + push_bit 8 (ucast (buf ! 2)) + ucast (buf ! 3)
      else unrep_u32 le (take 4 buf))"

section \<open>\<open>encode\<close>\<close>

text \<open>First pass: check the sizes and add up the space, in \<open>size_t\<close> arithmetic.\<close>

fun encode_sizes :: "byte list list \<Rightarrow> 64 word \<Rightarrow> 64 word res" where
  "encode_sizes [] mmsg_size = Inr mmsg_size"
| "encode_sizes (part # parts) mmsg_size =
     (let part_size = length part in
      if part_size > 0xFFFFFFFF then Inl (RangeError ''Invalid size, message part too large'')
      else let count_size = (if part_size < 0xFF then 1 else 5 :: nat)
           in encode_sizes parts (mmsg_size + of_nat (part_size + count_size)))"

text \<open>Second pass: the bytes written from the start of the buffer.\<close>

definition encode_part :: "bool \<Rightarrow> byte list \<Rightarrow> byte list" where
  "encode_part le part =
     (let part_size = (of_nat (length part) :: 32 word) in
      (if part_size < 0xFF then [ucast part_size] else 0xFF # write_network_order le part_size)
      @ take (unat part_size) part)"

definition encode :: "('m, 'w, 'x) msg_api_scheme \<Rightarrow> bool \<Rightarrow> byte list list \<Rightarrow> ('w, 'm) comp" where
  "encode api le parts =
     bnd (lift_res (encode_sizes parts 0)) (\<lambda>mmsg_size.
     bnd (message_of_size api (unat mmsg_size)) (\<lambda>encoded.
     let body = concat (map (encode_part le) parts) in
     if length body > unat mmsg_size then throw (UB ''write past the end of the message'')
     else bnd (zmq_assert (length body = unat mmsg_size)) (\<lambda>_.
          ret (msg_store api encoded body))))"

section \<open>\<open>decode\<close>\<close>

definition decode_push ::
  "('m, 'w, 'x) msg_api_scheme \<Rightarrow> byte list \<Rightarrow> nat \<Rightarrow> ('m list \<times> 'w, unit) comp" where
  "decode_push api source part_size =
     bnd (on_lib (message_of_mem api (Some source) part_size)) (\<lambda>m.
     bnd get_this (\<lambda>out. put_this (out @ [m])))"

text \<open>The loop over the bytes up to \<open>limit\<close>; \<open>source\<close> is a position among them. The result is its last value.\<close>

function decode_loop ::
  "('m, 'w, 'x) msg_api_scheme \<Rightarrow> bool \<Rightarrow> byte list \<Rightarrow> nat \<Rightarrow> ('m list \<times> 'w, nat) comp" where
  "decode_loop api le bytes source =
     (if source < length bytes then
        (let part_size = unat (bytes ! source); source = Suc source in
         if part_size = 0xFF then
           (if length bytes - source < 4 then
              throw (OutOfRange ''Malformed encoding, overflow in reading size'')
            else
              (let part_size = unat (read_u32_network_order le (drop source bytes)); source = source + 4 in
               if length bytes - source < part_size then
                 throw (OutOfRange ''Malformed encoding, overflow in reading part'')
               else bnd (decode_push api (drop source bytes) part_size)
                 (\<lambda>_. decode_loop api le bytes (source + part_size))))
         else
           (if length bytes - source < part_size then
              throw (OutOfRange ''Malformed encoding, overflow in reading part'')
            else bnd (decode_push api (drop source bytes) part_size)
              (\<lambda>_. decode_loop api le bytes (source + part_size))))
      else ret source)"
  by pat_completeness auto

termination decode_loop
  by (relation "measure (\<lambda>(api, le, bytes, source). length bytes - source)") auto

declare decode_loop.simps [simp del]

definition decode ::
  "('m, 'w, 'x) msg_api_scheme \<Rightarrow> bool \<Rightarrow> 'm \<Rightarrow> ('m list \<times> 'w, unit) comp" where
  "decode api le encoded =
     (let bytes = take (message_size api encoded) (message_data api encoded); limit = length bytes in
      bnd (decode_loop api le bytes 0) (\<lambda>source. zmq_assert (source = limit)))"

section \<open>Byte order lemmas\<close>

lemma is_little_endian_eq [simp]: "is_little_endian le = le"
  by (simp add: is_little_endian_def rep_u16_def Let_def)

text \<open>The four bytes, most significant first.\<close>

definition be_bytes :: "32 word \<Rightarrow> byte list" where
  "be_bytes v = [ucast (drop_bit 24 v), ucast (drop_bit 16 v), ucast (drop_bit 8 v), ucast v]"

lemma length_be_bytes [simp]: "length (be_bytes v) = 4"
  by (simp add: be_bytes_def)

lemma ucast_mask_byte: "(ucast (v AND 0xFF :: 32 word) :: byte) = ucast v"
proof -
  have "v AND 0xFF = take_bit 8 v"
    by (simp add: take_bit_eq_mask mask_eq_exp_minus_1)
  then show ?thesis
    by (simp add: bit_eq_iff bit_simps)
qed

lemma write_network_order_be: "write_network_order le v = be_bytes v"
  by (simp add: write_network_order_def be_bytes_def rep_u32_def Let_def ucast_mask_byte)

lemma or_of_bytes:
  fixes v :: "32 word"
  shows "push_bit 24 (ucast (ucast (drop_bit 24 v) :: byte))
    OR push_bit 16 (ucast (ucast (drop_bit 16 v) :: byte))
    OR push_bit 8 (ucast (ucast (drop_bit 8 v) :: byte)) OR ucast (ucast v :: byte) = v"
    (is "?a OR ?b OR ?c OR ?d = v")
proof (rule bit_eqI)
  fix n assume "possible_bit TYPE(32 word) n"
  then have "n < 32" by simp
  then show "bit (?a OR ?b OR ?c OR ?d) n = bit v n"
    by (cases "n < 8"; cases "n < 16"; cases "n < 24") (auto simp: bit_simps)
qed

lemma sum_of_bytes:
  fixes v :: "32 word"
  shows "push_bit 24 (ucast (ucast (drop_bit 24 v) :: byte))
    + push_bit 16 (ucast (ucast (drop_bit 16 v) :: byte))
    + push_bit 8 (ucast (ucast (drop_bit 8 v) :: byte)) + ucast (ucast v :: byte) = v"
    (is "?a + ?b + ?c + ?d = v")
proof -
  have "?a + ?b = ?a OR ?b"
    by (rule disjunctive_add_eq_or) (auto simp: bit_eq_iff bit_simps)
  moreover have "(?a OR ?b) + ?c = ?a OR ?b OR ?c"
    by (subst disjunctive_add_eq_or) (auto simp: bit_eq_iff bit_simps)
  moreover have "(?a OR ?b OR ?c) + ?d = ?a OR ?b OR ?c OR ?d"
    by (subst disjunctive_add_eq_or) (auto simp: bit_eq_iff bit_simps)
  ultimately show ?thesis by (simp only: or_of_bytes)
qed

lemma read_be_bytes [simp]: "read_u32_network_order le (be_bytes v @ rest) = v"
proof -
  show ?thesis
    using sum_of_bytes [of v] or_of_bytes [of v]
    by (cases le) (simp_all add: read_u32_network_order_def unrep_u32_def be_bytes_def Let_def
        or.commute or.left_commute or.assoc)
qed

text \<open>Both representations of a 32-bit integer are encodings in the sense of \<open>codec\<close>.\<close>

definition read_net :: "bool \<Rightarrow> byte list \<Rightarrow> (32 word \<times> byte list) option" where
  "read_net le bs = (if length bs < 4 then None else Some (read_u32_network_order le bs, drop 4 bs))"

interpretation net_codec: codec be_bytes "read_net le" "\<lambda>_. True" for le
  by unfold_locales (simp add: read_net_def)

lemma length_rep_u32 [simp]: "length (rep_u32 le v) = 4"
  by (simp add: rep_u32_def Let_def)

lemma unrep_rep_u32 [simp]: "unrep_u32 le (rep_u32 le v) = v"
  using or_of_bytes [of v]
  by (simp add: unrep_u32_def rep_u32_def Let_def or.commute or.left_commute or.assoc)

interpretation rep32_codec: codec "rep_u32 le"
  "\<lambda>bs. if length bs < 4 then None else Some (unrep_u32 le (take 4 bs), drop 4 bs)" "\<lambda>_. True" for le
  by unfold_locales simp

text \<open>
  Byte order does not depend on the machine: both branches of \<open>write_network_order\<close> write the
  most significant byte first, and \<open>read_u32_network_order\<close> reads back what was written.
\<close>

theorem network_order_roundtrip:
  "write_network_order le v = be_bytes v
   \<and> read_u32_network_order le' (write_network_order le v @ rest) = v"
  by (simp add: write_network_order_be)

section \<open>The frame format\<close>

text \<open>
  The grammar of RFC 50 that the comment of \<open>encode\<close> describes: a part is a length and the
  bytes, the length one byte below 255, or 255 and four bytes. The long form may be used for a
  short part.
\<close>

inductive framed :: "byte list \<Rightarrow> byte list list \<Rightarrow> bool" where
  framed_nil: "framed [] []"
| framed_short: "framed bs ps \<Longrightarrow> length p < 255 \<Longrightarrow> framed (of_nat (length p) # p @ bs) (p # ps)"
| framed_long: "framed bs ps \<Longrightarrow> length p < 2 ^ 32 \<Longrightarrow>
     framed (255 # be_bytes (of_nat (length p)) @ p @ bs) (p # ps)"

text \<open>The form \<open>encode\<close> chooses.\<close>

definition frame :: "byte list \<Rightarrow> byte list" where
  "frame p = (if length p < 255 then [of_nat (length p)] else 255 # be_bytes (of_nat (length p))) @ p"

definition frames :: "byte list list \<Rightarrow> byte list" where
  "frames ps = concat (map frame ps)"

definition parts_ok :: "byte list list \<Rightarrow> bool" where
  "parts_ok ps \<longleftrightarrow> list_all (\<lambda>p. length p < 2 ^ 32) ps"

lemma parts_ok_simps [simp]:
  "parts_ok []"
  "parts_ok (p # ps) \<longleftrightarrow> length p < 2 ^ 32 \<and> parts_ok ps"
  by (simp_all add: parts_ok_def)

lemma frames_simps [simp]:
  "frames [] = []"
  "frames (p # ps) = frame p @ frames ps"
  by (simp_all add: frames_def)

lemma length_frame: "length (frame p) = length p + (if length p < 255 then 1 else 5)"
  by (simp add: frame_def)

lemma framed_frames: "parts_ok ps \<Longrightarrow> framed (frames ps) ps"
  by (induction ps) (auto simp: frame_def intro: framed.intros)

text \<open>One part read back from the front of the input.\<close>

definition unframe :: "bool \<Rightarrow> byte list \<Rightarrow> (byte list \<times> byte list) option" where
  "unframe le bs =
     (case bs of
        [] \<Rightarrow> None
      | b # src \<Rightarrow>
          (if b = 0xFF then
             (case read_net le src of
                None \<Rightarrow> None
              | Some (n, rest) \<Rightarrow> if length rest < unat n then None else Some (take (unat n) rest, drop (unat n) rest))
           else if length src < unat b then None else Some (take (unat b) src, drop (unat b) src)))"

lemma unat_of_nat_byte: "n < 256 \<Longrightarrow> unat (of_nat n :: byte) = n"
  by (simp add: unat_of_nat)

lemma of_nat_byte_neq_255: "n < 255 \<Longrightarrow> (of_nat n :: byte) \<noteq> 255"
  using unat_of_nat_byte [of n] by auto

interpretation frame_codec: codec frame "unframe le" "\<lambda>p. length p < 2 ^ 32" for le
  by unfold_locales
    (auto simp: frame_def unframe_def read_net_def unat_of_nat unat_of_nat_byte of_nat_byte_neq_255)

lemma frames_inj: "parts_ok ps \<Longrightarrow> parts_ok qs \<Longrightarrow> frames ps = frames qs \<Longrightarrow> ps = qs"
  using frame_codec.enc_concat_inj [of ps qs]
  by (simp add: parts_ok_def frames_def frame_def)

subsection \<open>\<open>encode\<close> writes frames\<close>

lemma word32_less_255:
  assumes "n < 2 ^ 32"
  shows "(of_nat n :: 32 word) < 255 \<longleftrightarrow> n < 255" and "unat (of_nat n :: 32 word) = n"
proof -
  show u: "unat (of_nat n :: 32 word) = n"
    using assms by (simp add: unat_of_nat)
  show "(of_nat n :: 32 word) < 255 \<longleftrightarrow> n < 255"
    by (simp add: word_less_nat_alt u)
qed

lemma ucast_of_nat32: "(ucast (of_nat n :: 32 word) :: byte) = of_nat n"
  by (rule unsigned_word_eqI) (simp add: unsigned_ucast_eq unsigned_of_nat)

lemma encode_part_frame: "length p < 2 ^ 32 \<Longrightarrow> encode_part le p = frame p"
  by (simp add: encode_part_def frame_def Let_def word32_less_255 write_network_order_be
      ucast_of_nat32)

lemma concat_encode_parts: "parts_ok ps \<Longrightarrow> concat (map (encode_part le) ps) = frames ps"
  by (induction ps) (auto simp: encode_part_frame)

lemma encode_sizes_ok:
  "parts_ok ps \<Longrightarrow> encode_sizes ps acc = Inr (acc + of_nat (length (frames ps)))"
  by (induction ps arbitrary: acc) (auto simp: Let_def length_frame algebra_simps)

lemma encode_sizes_big:
  "\<not> parts_ok ps \<Longrightarrow> \<exists>msg. encode_sizes ps acc = Inl (RangeError msg)"
  by (induction ps arbitrary: acc) (auto simp: Let_def)

text \<open>With the total in the range of \<open>size_t\<close>, encoding is one allocation filled with frames.\<close>

lemma encode_frames:
  assumes "parts_ok ps" "length (frames ps) < 2 ^ 64"
  shows "encode api le ps =
    bnd (message_of_size api (length (frames ps))) (\<lambda>m. ret (msg_store api m (frames ps)))"
  using assms
  by (simp add: encode_def encode_sizes_ok concat_encode_parts unat_of_nat Let_def fun_eq_iff bnd_def
      split: prod.splits sum.splits)

text \<open>
  C25. \<open>encode\<close> either throws \<open>range_error\<close>, exactly when a part's size does not fit in 32 bits, or
  allocates one message of the framed size and fills it with the frames of the parts, in order; the
  size counted in the first pass is the number of bytes written in the second, so the final
  assertion holds and nothing is written past the end (the total must fit in \<open>size_t\<close>).
\<close>

theorem encode_exact:
  assumes "msg_api_ok api" "msg_memory api" "parts_ok ps \<Longrightarrow> length (frames ps) < 2 ^ 64"
  shows "if parts_ok ps
         then \<exists>m w'. encode api le ps w = (Inr m, w') \<and> message_data api m = frames ps
         else \<exists>msg. encode api le ps w = (Inl (RangeError msg), w)"
proof (cases "parts_ok ps")
  case True
  obtain rc m w' where i: "zmq_msg_init_size api (length (frames ps)) w = ((rc, m), w')"
    by (metis surj_pair)
  with assms(2) have [simp]: "rc = 0"
    by (metis fst_conv msg_memory_def)
  from i have "zmq_msg_size api m = length (frames ps)"
    using msg_init_sizeD [OF assms(1), of _ w m w'] by simp
  then have "zmq_msg_data api (msg_store api m (frames ps)) = frames ps"
    using msg_store_ok [OF assms(1), of "frames ps" m] by simp
  with i True assms(3) show ?thesis
    by (simp add: encode_frames message_of_size_def bnd_def call_def message_data_def)
next
  case False
  then show ?thesis
    using encode_sizes_big [of ps 0] by (auto simp: encode_def bnd_def)
qed

theorem encode_exact_witness:
  "\<exists>m w'. encode list_msg_api True [[1, 2], []] 0 = (Inr m, w') \<and>
     message_data list_msg_api m = [2, 1, 2, 0]"
proof -
  have "parts_ok [[1, 2], []]" "frames [[1, 2], []] = [2, 1, 2, 0]"
    by (simp_all add: frame_def)
  then show ?thesis
    using encode_exact [OF list_msg_api_ok list_msg_memory, of "[[1, 2], []]" True 0] by simp
qed

subsection \<open>\<open>decode\<close> reads frames\<close>

lemma decode_push_ok:
  assumes "msg_api_ok api" "msg_memory api" "n \<le> length src"
  shows "\<exists>m w'. decode_push api src n (out, w) = (Inr (), (out @ [m], w'))
           \<and> zmq_msg_data api m = take n src"
proof -
  obtain m w' where r: "message_of_mem api (Some src) n w = (Inr m, w')"
    using message_of_mem_total [OF assms(2,3), of w] by blast
  then have "zmq_msg_data api m = take n src"
    using message_of_mem_Inr [OF assms(1) r assms(3)] by simp
  with r show ?thesis by (simp add: decode_push_def bnd_def on_lib_apply)
qed

text \<open>
  The loop as it runs on what lies between the position and \<open>limit\<close>; the position stays within the
  bytes, so it ends at \<open>limit\<close> and the final assertion holds.
\<close>

fun decode_parts ::
  "('m, 'w, 'x) msg_api_scheme \<Rightarrow> bool \<Rightarrow> byte list \<Rightarrow> ('m list \<times> 'w, unit) comp" where
  "decode_parts api le [] = ret ()"
| "decode_parts api le (b # source) =
     (if b = 0xFF then
        (if length source < 4 then
           throw (OutOfRange ''Malformed encoding, overflow in reading size'')
         else
           (let part_size = unat (read_u32_network_order le source); rest = drop 4 source in
            if length rest < part_size then
              throw (OutOfRange ''Malformed encoding, overflow in reading part'')
            else bnd (decode_push api rest part_size) (\<lambda>_. decode_parts api le (drop part_size rest))))
      else
        (let part_size = unat b in
         if length source < part_size then
           throw (OutOfRange ''Malformed encoding, overflow in reading part'')
         else bnd (decode_push api source part_size) (\<lambda>_. decode_parts api le (drop part_size source))))"

lemma byte_255: "unat (b :: byte) = 255 \<longleftrightarrow> b = 255"
  using unsigned_word_eqI [of b "255 :: byte", where 'a = nat] by auto

lemma decode_loop_parts:
  "source \<le> length bytes \<Longrightarrow>
     decode_loop api le bytes source = bnd (decode_parts api le (drop source bytes)) (\<lambda>_. ret (length bytes))"
proof (induction "length bytes - source" arbitrary: source rule: less_induct)
  case less
  show ?case
  proof (cases "source < length bytes")
    case True
    have d: "drop source bytes = bytes ! source # drop (Suc source) bytes"
      using True by (simp add: Cons_nth_drop_Suc)
    have next_part: "decode_loop api le bytes (k + n) =
        bnd (decode_parts api le (drop n (drop k bytes))) (\<lambda>_. ret (length bytes))"
      if "source < k" "k \<le> length bytes" "\<not> length bytes - k < n" for k n
      using less.hyps [of "k + n"] that by (simp add: add.commute)
    have short: "decode_loop api le bytes (Suc (source + n)) =
        bnd (decode_parts api le (drop (Suc (source + n)) bytes)) (\<lambda>_. ret (length bytes))"
      if "\<not> length bytes - Suc source < n" for n
      using next_part [of "Suc source" n] that True by (simp add: add.commute)
    have long: "decode_loop api le bytes (source + 5 + n) =
        bnd (decode_parts api le (drop (source + 5 + n) bytes)) (\<lambda>_. ret (length bytes))"
      if "\<not> length bytes - Suc source < 4" "\<not> length bytes - (source + 5) < n" for n
      using next_part [of "source + 5" n] that True by (simp add: add.commute)
    show ?thesis
      unfolding d decode_parts.simps decode_loop.simps [of api le bytes source] if_P [OF True]
      by (simp add: Let_def byte_255 bnd_assoc add.commute short long)
  next
    case False
    with less.prems show ?thesis by (simp add: decode_loop.simps ret_def fun_eq_iff)
  qed
qed

lemma bnd_position: "bnd (bnd f (\<lambda>_. ret x)) (\<lambda>y. zmq_assert (y = x)) = (f :: ('s, unit) comp)"
  by (rule ext) (simp add: bnd_assoc zmq_assert_def bnd_def ret_def split: prod.splits sum.splits)

lemma decode_data: "msg_api_ok api \<Longrightarrow> decode api le m = decode_parts api le (zmq_msg_data api m)"
  by (simp add: decode_def decode_loop_parts bnd_position message_size_def message_data_def length_message_data Let_def)

text \<open>One turn of the loop on either form of a frame.\<close>

lemma decode_parts_short:
  "length p < 255 \<Longrightarrow> decode_parts api le (of_nat (length p) # p @ rest) =
     bnd (decode_push api (p @ rest) (length p)) (\<lambda>_. decode_parts api le rest)"
proof -
  assume n: "length p < 255"
  then have "unat (of_nat (length p) :: byte) = length p" by (simp add: unat_of_nat)
  moreover from this n have "(of_nat (length p) :: byte) \<noteq> 255"
    by (auto dest: arg_cong [where f = "unat :: byte \<Rightarrow> nat"])
  ultimately show ?thesis by (simp add: Let_def)
qed

lemma decode_parts_long:
  "length p < 2 ^ 32 \<Longrightarrow> decode_parts api le (255 # be_bytes (of_nat (length p)) @ p @ rest) =
     bnd (decode_push api (p @ rest) (length p)) (\<lambda>_. decode_parts api le rest)"
  by (simp add: Let_def unat_of_nat)

lemma decode_parts_framed:
  assumes "framed bs ps" "msg_api_ok api" "msg_memory api"
  shows "\<exists>ms w'. decode_parts api le bs (out, w) = (Inr (), (out @ ms, w'))
           \<and> map (zmq_msg_data api) ms = ps"
  using assms(1)
proof (induction arbitrary: out w rule: framed.induct)
  case framed_nil
  then show ?case by simp
next
  case (framed_short bs ps p)
  obtain m w1 where m: "decode_push api (p @ bs) (length p) (out, w) = (Inr (), (out @ [m], w1))"
      "zmq_msg_data api m = p"
    using decode_push_ok [OF assms(2,3), of "length p" "p @ bs" out w] by auto
  obtain ms w' where "decode_parts api le bs (out @ [m], w1) = (Inr (), ((out @ [m]) @ ms, w'))"
      "map (zmq_msg_data api) ms = ps"
    using framed_short.IH by blast
  with m framed_short.hyps show ?case
    by (intro exI [of _ "m # ms"] exI [of _ w']) (simp add: decode_parts_short bnd_def del: decode_parts.simps)
next
  case (framed_long bs ps p)
  obtain m w1 where m: "decode_push api (p @ bs) (length p) (out, w) = (Inr (), (out @ [m], w1))"
      "zmq_msg_data api m = p"
    using decode_push_ok [OF assms(2,3), of "length p" "p @ bs" out w] by auto
  obtain ms w' where "decode_parts api le bs (out @ [m], w1) = (Inr (), ((out @ [m]) @ ms, w'))"
      "map (zmq_msg_data api) ms = ps"
    using framed_long.IH by blast
  with m framed_long.hyps show ?case
    by (intro exI [of _ "m # ms"] exI [of _ w'])
       (simp add: decode_parts_long bnd_def del: decode_parts.simps)
qed

text \<open>What the loop can end in, and what it leaves in the container.\<close>

lemma decode_push_cases:
  assumes "n \<le> length src" "decode_push api src n (out, w) = (r, (out', w'))"
  shows "(\<exists>m w0. r = Inr () \<and> out' = out @ [m] \<and> message_of_mem api (Some src) n w = (Inr m, w'))
       \<or> (r = Inl (ErrorT (zmq_errno api w')) \<and> out' = out)"
proof (cases "message_of_mem api (Some src) n w")
  case (Pair q w1)
  show ?thesis
  proof (cases q)
    case (Inl e)
    with Pair assms show ?thesis
      using message_of_mem_Inl [of api src n w e w1] by (auto simp: decode_push_def bnd_def on_lib_apply)
  next
    case (Inr m)
    with Pair assms(2) show ?thesis by (auto simp: decode_push_def bnd_def on_lib_apply)
  qed
qed

lemma bit_byte: "bit (x :: byte) n \<Longrightarrow> n < 8"
  using bit_imp_le_length [of x n] by simp

lemma bit_byte_high: "8 \<le> n \<Longrightarrow> \<not> bit (x :: byte) n"
  using bit_byte [of x n] by linarith

lemma be_bytes_read:
  assumes "4 \<le> length s"
  shows "be_bytes (read_u32_network_order le s) = take 4 s"
proof -
  obtain a b c d r where s: "s = a # b # c # d # r"
    using assms by (auto simp: Suc_le_length_iff numeral_eq_Suc)
  let ?v = "push_bit 24 (ucast a) OR push_bit 16 (ucast b) OR push_bit 8 (ucast c) OR ucast d :: 32 word"
  have "push_bit 24 (ucast a) + push_bit 16 (ucast b) = (push_bit 24 (ucast a) OR push_bit 16 (ucast b) :: 32 word)"
    by (rule disjunctive_add_eq_or) (auto simp: bit_eq_iff bit_simps dest!: bit_byte)
  moreover have "(push_bit 24 (ucast a) OR push_bit 16 (ucast b)) + push_bit 8 (ucast c)
      = (push_bit 24 (ucast a) OR push_bit 16 (ucast b) OR push_bit 8 (ucast c) :: 32 word)"
    by (subst disjunctive_add_eq_or) (auto simp: bit_eq_iff bit_simps dest!: bit_byte)
  moreover have "(push_bit 24 (ucast a) OR push_bit 16 (ucast b) OR push_bit 8 (ucast c)) + ucast d = ?v"
    by (subst disjunctive_add_eq_or) (auto simp: bit_eq_iff bit_simps dest!: bit_byte)
  ultimately have v: "read_u32_network_order le s = ?v"
    by (cases le) (simp_all add: read_u32_network_order_def unrep_u32_def s Let_def
        or.commute or.left_commute or.assoc)
  have "ucast (drop_bit 24 ?v) = a" "ucast (drop_bit 16 ?v) = b" "ucast (drop_bit 8 ?v) = c"
    "ucast ?v = d"
    by (rule bit_word_eqI, auto simp: bit_simps bit_byte_high)+
  then show ?thesis by (simp only: v be_bytes_def) (simp add: s)
qed

text \<open>A step of the loop: what is left after the header and the size of the part.\<close>

lemma decode_parts_step:
  obtains (size_overflow) msg where "decode_parts api le (b # src) = throw (OutOfRange msg)"
  | (part) p rest where "\<And>ps. framed rest ps \<Longrightarrow> framed (b # src) (p # ps)" "length rest \<le> length src"
      "decode_parts api le (b # src) =
         bnd (decode_push api (p @ rest) (length p)) (\<lambda>_. decode_parts api le rest)"
proof (cases "b = 255")
  case True
  show ?thesis
  proof (cases "length src < 4 \<or> length (drop 4 src) < unat (read_u32_network_order le src)")
    case overflow: True
    have "\<exists>msg. decode_parts api le (b # src) = throw (OutOfRange msg)"
      using \<open>b = 255\<close> overflow by (cases "length src < 4") (auto simp: Let_def)
    with size_overflow show ?thesis by blast
  next
    case False
    let ?n = "unat (read_u32_network_order le src)"
    let ?p = "take ?n (drop 4 src)" and ?rest = "drop ?n (drop 4 src)"
    have n: "?n < 2 ^ 32" using unsigned_less [of "read_u32_network_order le src", where 'a = nat] by simp
    have len: "length ?p = ?n" using False by simp
    have "be_bytes (of_nat (length ?p)) = take 4 src"
      using False be_bytes_read [of src le] by (simp only: len of_nat_unat ucast_id) simp
    then have split: "255 # be_bytes (of_nat (length ?p)) @ ?p @ ?rest = 255 # src"
      by (simp only: append_take_drop_id)
    show ?thesis
    proof (rule part [of ?rest ?p])
      fix ps assume "framed ?rest ps"
      then have "framed (255 # be_bytes (of_nat (length ?p)) @ ?p @ ?rest) (?p # ps)"
        by (rule framed_long) (simp only: len n)
      then show "framed (b # src) (?p # ps)" by (simp only: split True)
    next
      show "length ?rest \<le> length src" by simp
    next
      show "decode_parts api le (b # src) =
          bnd (decode_push api (?p @ ?rest) (length ?p)) (\<lambda>_. decode_parts api le ?rest)"
        unfolding append_take_drop_id len using False True by (simp add: Let_def)
    qed
  qed
next
  case False
  show ?thesis
  proof (cases "length src < unat b")
    case overflow: True
    have "\<exists>msg. decode_parts api le (b # src) = throw (OutOfRange msg)"
      using False overflow by (auto simp: Let_def)
    with size_overflow show ?thesis by blast
  next
    case fits: False
    let ?p = "take (unat b) src"
    have len: "length ?p = unat b" using fits by simp
    have "unat b < 256" using unsigned_less [of b, where 'a = nat] by simp
    moreover have "unat b \<noteq> 255" using False by (metis of_nat_numeral of_nat_unat ucast_id)
    ultimately have n: "unat b < 255" by simp
    show ?thesis
    proof (rule part [of "drop (unat b) src" ?p])
      fix ps assume "framed (drop (unat b) src) ps"
      from framed_short [OF this, of ?p] n len show "framed (b # src) (?p # ps)"
        by simp
    next
      show "length (drop (unat b) src) \<le> length src" by simp
    next
      show "decode_parts api le (b # src) =
          bnd (decode_push api (?p @ drop (unat b) src) (length ?p))
            (\<lambda>_. decode_parts api le (drop (unat b) src))"
        unfolding append_take_drop_id len using False fits by (simp add: Let_def)
    qed
  qed
qed

text \<open>
  Every run of the loop, whatever the input and the allocator do: the container keeps what it had
  and grows by messages; the run ends normally only on a framed input, whose parts are the new
  messages, and otherwise with \<open>out_of_range\<close> or the allocator's error.
\<close>

lemma decode_parts_run:
  assumes "msg_api_ok api" "decode_parts api le bs (out, w) = (r, (out', w'))"
  shows "\<exists>ms. out' = out @ ms \<and>
     (r = Inr () \<and> framed bs (map (zmq_msg_data api) ms)
      \<or> (\<exists>msg. r = Inl (OutOfRange msg)) \<or> r = Inl (ErrorT (zmq_errno api w')))"
  using assms(2)
proof (induction "length bs" arbitrary: bs out w rule: less_induct)
  case less
  show ?case
  proof (cases bs)
    case Nil
    with less.prems show ?thesis by (auto intro: framed_nil)
  next
    case (Cons b src)
    show ?thesis
    proof (cases rule: decode_parts_step [of api le b src])
      case size_overflow
      with less.prems Cons show ?thesis by (auto simp del: decode_parts.simps)
    next
      case (part p rest)
      obtain q out1 w1 where push: "decode_push api (p @ rest) (length p) (out, w) = (q, (out1, w1))"
        by (metis surj_pair)
      consider (err) "q = Inl (ErrorT (zmq_errno api w1))" "out1 = out"
        | (ok) m where "q = Inr ()" "out1 = out @ [m]" "zmq_msg_data api m = p"
        using decode_push_cases [OF _ push] message_of_mem_Inr [OF assms(1)] by fastforce
      then show ?thesis
      proof cases
        case err
        with less.prems Cons part push show ?thesis by (auto simp: bnd_def simp del: decode_parts.simps)
      next
        case ok
        with less.prems Cons part push have "decode_parts api le rest (out1, w1) = (r, (out', w'))"
          by (simp add: bnd_def del: decode_parts.simps)
        moreover have "length rest < length bs" using part Cons by simp
        ultimately obtain ms where "out' = out1 @ ms"
          "r = Inr () \<and> framed rest (map (zmq_msg_data api) ms)
           \<or> (\<exists>msg. r = Inl (OutOfRange msg)) \<or> r = Inl (ErrorT (zmq_errno api w'))"
          using less.hyps by blast
        with ok part Cons show ?thesis by (intro exI [of _ "m # ms"]) auto
      qed
    qed
  qed
qed

text \<open>
  C23. \<open>decode\<close> is safe on arbitrary bytes: it never reads outside the message and its final
  assertion never fails; the container keeps its elements and grows; a normal return means that the
  message was a sequence of frames and the new elements are their contents, and any other end is
  \<open>out_of_range\<close> or the allocation error of libzmq.
\<close>

theorem decode_safe:
  assumes "msg_api_ok api" "decode api le enc (out, w) = (r, (out', w'))"
  shows "\<exists>ms. out' = out @ ms \<and>
     (r = Inr () \<and> framed (message_data api enc) (map (message_data api) ms)
      \<or> (\<exists>msg. r = Inl (OutOfRange msg)) \<or> r = Inl (ErrorT (zmq_errno api w')))"
  using decode_parts_run [OF assms(1)] assms
  by (fastforce simp: decode_data message_data_def [abs_def])

theorem decode_safe_witness:
  "\<exists>ms. ([([7], False)], 0 :: int) = ([] @ ms, 0) \<and>
     ((Inr () :: unit res) = Inr () \<and> framed [1, 7] (map (message_data list_msg_api) ms)
      \<or> (\<exists>msg. (Inr () :: unit res) = Inl (OutOfRange msg))
      \<or> (Inr () :: unit res) = Inl (ErrorT (zmq_errno list_msg_api 0)))"
proof -
  have "decode list_msg_api True ([1, 7], False) ([], 0) = (Inr (), ([([7], False)], 0))"
    unfolding decode_data [OF list_msg_api_ok]
    by (simp add: list_msg_api_simps Let_def decode_push_def on_lib_def bnd_def message_of_mem_def call_def mem_read_def)
  from decode_safe [OF list_msg_api_ok this] show ?thesis
    by (simp add: message_data_def list_msg_api_simps)
qed

text \<open>
  C24. With memory available, the inputs \<open>decode\<close> accepts are exactly the framed ones: the grammar
  of RFC 50, long headers for short parts included.
\<close>

theorem decode_accepts_iff:
  assumes "msg_api_ok api" "msg_memory api"
  shows "fst (decode api le enc (out, w)) = Inr () \<longleftrightarrow> (\<exists>ps. framed (message_data api enc) ps)"
proof
  assume "fst (decode api le enc (out, w)) = Inr ()"
  moreover obtain r out' w' where run: "decode api le enc (out, w) = (r, (out', w'))"
    by (metis surj_pair)
  ultimately show "\<exists>ps. framed (message_data api enc) ps"
    using decode_parts_run [OF assms(1), of le "zmq_msg_data api enc" out w r out' w'] assms(1)
    by (auto simp: decode_data message_data_def)
next
  assume "\<exists>ps. framed (message_data api enc) ps"
  then obtain ps where "framed (zmq_msg_data api enc) ps"
    by (auto simp: message_data_def)
  from decode_parts_framed [OF this assms, of le out w] show "fst (decode api le enc (out, w)) = Inr ()"
    using assms(1) by (auto simp: decode_data)
qed

theorem decode_accepts_iff_witness:
  "fst (decode list_msg_api True ([255, 0, 0, 0, 1, 7], False) ([], 0)) = Inr ()
   \<and> fst (decode list_msg_api True ([2, 7], False) ([], 0)) \<noteq> Inr ()"
proof
  have "framed (255 # be_bytes (of_nat (length [7 :: byte])) @ [7] @ []) [[7]]"
    by (intro framed_long framed_nil) simp
  then show "fst (decode list_msg_api True ([255, 0, 0, 0, 1, 7], False) ([], 0)) = Inr ()"
    using decode_accepts_iff [OF list_msg_api_ok list_msg_memory,
        of True "([255, 0, 0, 0, 1, 7], False)" "[]" 0]
    by (auto simp: message_data_def list_msg_api_simps be_bytes_def)
next
  show "fst (decode list_msg_api True ([2, 7], False) ([], 0)) \<noteq> Inr ()"
    unfolding decode_data [OF list_msg_api_ok] by (simp add: list_msg_api_simps Let_def)
qed

text \<open>
  C20. Round trip across machines: what one machine encodes, any other decodes to messages with the
  same contents in the same order, appended to what its container held.
\<close>

theorem codec_roundtrip:
  assumes "msg_api_ok api" "msg_memory api" "parts_ok ps" "length (frames ps) < 2 ^ 64"
  shows "\<exists>m w1 ms w2. encode api le ps w = (Inr m, w1)
     \<and> decode api le' m (out, w1) = (Inr (), (out @ ms, w2)) \<and> map (message_data api) ms = ps"
proof -
  obtain rc m w1 where i: "zmq_msg_init_size api (length (frames ps)) w = ((rc, m), w1)"
    by (metis surj_pair)
  with assms(2) have [simp]: "rc = 0"
    by (metis fst_conv msg_memory_def)
  let ?m = "msg_store api m (frames ps)"
  from i have "zmq_msg_size api m = length (frames ps)"
    using msg_init_sizeD [OF assms(1), of _ w m w1] by simp
  then have d: "zmq_msg_data api ?m = frames ps"
    using msg_store_ok [OF assms(1), of "frames ps" m] by simp
  have e: "encode api le ps w = (Inr ?m, w1)"
    using i assms(3,4) by (simp add: encode_frames message_of_size_def bnd_def call_def)
  obtain ms w2 where "decode_parts api le' (frames ps) (out, w1) = (Inr (), (out @ ms, w2))"
      "map (zmq_msg_data api) ms = ps"
    using decode_parts_framed [OF framed_frames [OF assms(3)] assms(1,2)] by blast
  with e d assms(1) show ?thesis
    by (auto simp: decode_data message_data_def [abs_def])
qed

theorem codec_roundtrip_witness:
  "\<exists>m w1 ms w2. encode list_msg_api True [[1, 2], []] 0 = (Inr m, w1)
     \<and> decode list_msg_api False m ([], w1) = (Inr (), ([] @ ms, w2))
     \<and> map (message_data list_msg_api) ms = [[1, 2], []]"
  by (rule codec_roundtrip [OF list_msg_api_ok list_msg_memory]) (simp_all add: frame_def)

end
