(* ===== verification/ZmqOptionTable.thy ===== *)
theory ZmqOptionTable
  imports Main
begin

text \<open>
  The table of socket options (namespace \<open>sockopt\<close> of \<open>zmq.hpp\<close>), in the order of the header: one
  declaration per option, made by one of five macros. The template parameters by which the typed \<open>get\<close>
  and \<open>set\<close> of \<open>socket_base\<close> treat an option are read off its declaration.
\<close>

text \<open>The options with an integral value, those with an array, and the C++ types of the former.\<close>

datatype (plugins only: size) integral_option =
    IO_affinity | IO_backlog | IO_busy_poll | IO_conflate | IO_connect_timeout
    | IO_curve_server | IO_events | IO_fd | IO_gssapi_plaintext | IO_gssapi_server
    | IO_gssapi_service_principal_nametype | IO_gssapi_principal_nametype | IO_handshake_ivl
    | IO_heartbeat_ivl | IO_heartbeat_timeout | IO_heartbeat_ttl | IO_immediate
    | IO_invert_matching | IO_ipv6 | IO_linger | IO_maxmsgsize | IO_mechanism
    | IO_multicast_hops | IO_multicast_loop | IO_multicast_maxtpdu | IO_only_first_subscribe
    | IO_plain_server | IO_priority | IO_use_fd | IO_probe_router | IO_rate | IO_rcvbuf
    | IO_rcvhwm | IO_rcvmore | IO_rcvtimeo | IO_reconnect_ivl | IO_reconnect_ivl_max
    | IO_reconnect_stop | IO_recovery_ivl | IO_req_correlate | IO_req_relaxed
    | IO_router_handover | IO_router_mandatory | IO_router_notify | IO_router_raw | IO_sndbuf
    | IO_sndhwm | IO_sndtimeo | IO_stream_notify | IO_tcp_keepalive | IO_tcp_keepalive_cnt
    | IO_tcp_keepalive_idle | IO_tcp_keepalive_intvl | IO_tcp_maxrt | IO_thread_safe | IO_tos
    | IO_type | IO_socket_type | IO_vmci_buffer_size | IO_vmci_buffer_min_size
    | IO_vmci_buffer_max_size | IO_vmci_connect_timeout | IO_xpub_verbose | IO_xpub_verboser
    | IO_xpub_manual | IO_xpub_manual_last_value | IO_xpub_nodrop | IO_zap_enforce_domain

datatype array_option =
    AO_bindtodevice | AO_connect_routing_id | AO_curve_publickey | AO_curve_secretkey
    | AO_curve_serverkey | AO_disconnect_msg | AO_gssapi_service_principal
    | AO_gssapi_principal | AO_hello_msg | AO_last_endpoint | AO_metadata | AO_plain_password
    | AO_plain_username | AO_routing_id | AO_socks_password | AO_socks_proxy
    | AO_socks_username | AO_subscribe | AO_unsubscribe | AO_xpub_welcome_msg | AO_zap_domain

datatype ctype = CInt | CI64 | CU64 | CFd | CSocketType

datatype option_decl =
    Integral_decl integral_option ctype bool  \<comment> \<open>\<open>integral_option<OPT, TYPE, BoolUnit>\<close>\<close>
  | Array_decl array_option nat               \<comment> \<open>\<open>array_option<OPT, NullTerm>\<close>\<close>

definition define_integral_opt :: "integral_option \<Rightarrow> ctype \<Rightarrow> option_decl" where
  "define_integral_opt opt t = Integral_decl opt t False"

definition define_integral_bool_unit_opt :: "integral_option \<Rightarrow> ctype \<Rightarrow> option_decl" where
  "define_integral_bool_unit_opt opt t = Integral_decl opt t True"

definition define_array_opt :: "array_option \<Rightarrow> option_decl" where
  "define_array_opt opt = Array_decl opt 1"

definition define_array_opt_binary :: "array_option \<Rightarrow> option_decl" where
  "define_array_opt_binary opt = Array_decl opt 0"

definition define_array_opt_bin_or_z85 :: "array_option \<Rightarrow> option_decl" where
  "define_array_opt_bin_or_z85 opt = Array_decl opt 2"

lemmas define_opt_defs = define_integral_opt_def define_integral_bool_unit_opt_def define_array_opt_def
  define_array_opt_binary_def define_array_opt_bin_or_z85_def

text \<open>The first and the second half of the table.\<close>

definition sockopts_first :: "option_decl list" where
  "sockopts_first = [
     define_integral_opt IO_affinity CU64, define_integral_opt IO_backlog CInt,
     define_array_opt_binary AO_bindtodevice, define_integral_bool_unit_opt IO_busy_poll CInt,
     define_integral_bool_unit_opt IO_conflate CInt, define_array_opt AO_connect_routing_id,
     define_integral_opt IO_connect_timeout CInt, define_array_opt_bin_or_z85 AO_curve_publickey,
     define_array_opt_bin_or_z85 AO_curve_secretkey, define_integral_bool_unit_opt IO_curve_server CInt,
     define_array_opt_bin_or_z85 AO_curve_serverkey, define_array_opt_binary AO_disconnect_msg,
     define_integral_opt IO_events CInt, define_integral_opt IO_fd CFd,
     define_integral_bool_unit_opt IO_gssapi_plaintext CInt,
     define_integral_bool_unit_opt IO_gssapi_server CInt, define_array_opt AO_gssapi_service_principal,
     define_integral_opt IO_gssapi_service_principal_nametype CInt, define_array_opt AO_gssapi_principal,
     define_integral_opt IO_gssapi_principal_nametype CInt, define_integral_opt IO_handshake_ivl CInt,
     define_integral_opt IO_heartbeat_ivl CInt, define_integral_opt IO_heartbeat_timeout CInt,
     define_integral_opt IO_heartbeat_ttl CInt, define_array_opt_binary AO_hello_msg,
     define_integral_bool_unit_opt IO_immediate CInt, define_integral_bool_unit_opt IO_invert_matching CInt,
     define_integral_bool_unit_opt IO_ipv6 CInt, define_array_opt AO_last_endpoint,
     define_integral_opt IO_linger CInt, define_integral_opt IO_maxmsgsize CI64,
     define_integral_opt IO_mechanism CInt, define_array_opt AO_metadata,
     define_integral_opt IO_multicast_hops CInt, define_integral_bool_unit_opt IO_multicast_loop CInt,
     define_integral_opt IO_multicast_maxtpdu CInt,
     define_integral_bool_unit_opt IO_only_first_subscribe CInt,
     define_integral_bool_unit_opt IO_plain_server CInt, define_array_opt AO_plain_password,
     define_array_opt AO_plain_username, define_integral_opt IO_priority CInt,
     define_integral_opt IO_use_fd CInt, define_integral_bool_unit_opt IO_probe_router CInt,
     define_integral_opt IO_rate CInt]"

definition sockopts_second :: "option_decl list" where
  "sockopts_second = [
     define_integral_opt IO_rcvbuf CInt, define_integral_opt IO_rcvhwm CInt,
     define_integral_bool_unit_opt IO_rcvmore CInt, define_integral_opt IO_rcvtimeo CInt,
     define_integral_opt IO_reconnect_ivl CInt, define_integral_opt IO_reconnect_ivl_max CInt,
     define_integral_opt IO_reconnect_stop CInt, define_integral_opt IO_recovery_ivl CInt,
     define_integral_bool_unit_opt IO_req_correlate CInt, define_integral_bool_unit_opt IO_req_relaxed CInt,
     define_integral_bool_unit_opt IO_router_handover CInt,
     define_integral_bool_unit_opt IO_router_mandatory CInt, define_integral_opt IO_router_notify CInt,
     define_integral_opt IO_router_raw CInt, define_array_opt_binary AO_routing_id,
     define_integral_opt IO_sndbuf CInt, define_integral_opt IO_sndhwm CInt,
     define_integral_opt IO_sndtimeo CInt, define_array_opt AO_socks_password,
     define_array_opt AO_socks_proxy, define_array_opt AO_socks_username,
     define_integral_bool_unit_opt IO_stream_notify CInt, define_array_opt AO_subscribe,
     define_integral_opt IO_tcp_keepalive CInt, define_integral_opt IO_tcp_keepalive_cnt CInt,
     define_integral_opt IO_tcp_keepalive_idle CInt, define_integral_opt IO_tcp_keepalive_intvl CInt,
     define_integral_opt IO_tcp_maxrt CInt, define_integral_bool_unit_opt IO_thread_safe CInt,
     define_integral_opt IO_tos CInt, define_integral_opt IO_type CInt,
     define_integral_opt IO_socket_type CSocketType, define_array_opt AO_unsubscribe,
     define_integral_opt IO_vmci_buffer_size CU64, define_integral_opt IO_vmci_buffer_min_size CU64,
     define_integral_opt IO_vmci_buffer_max_size CU64, define_integral_opt IO_vmci_connect_timeout CInt,
     define_integral_bool_unit_opt IO_xpub_verbose CInt, define_integral_bool_unit_opt IO_xpub_verboser CInt,
     define_integral_bool_unit_opt IO_xpub_manual CInt,
     define_integral_bool_unit_opt IO_xpub_manual_last_value CInt,
     define_integral_bool_unit_opt IO_xpub_nodrop CInt, define_array_opt AO_xpub_welcome_msg,
     define_integral_bool_unit_opt IO_zap_enforce_domain CInt, define_array_opt AO_zap_domain]"

definition sockopts :: "option_decl list" where
  "sockopts = sockopts_first @ sockopts_second"

section \<open>The parameters of an option\<close>

fun integral_params :: "option_decl list \<Rightarrow> integral_option \<Rightarrow> (ctype \<times> bool) option" where
  "integral_params [] opt = None"
| "integral_params (Integral_decl opt' t b # decls) opt =
     (if opt' = opt then Some (t, b) else integral_params decls opt)"
| "integral_params (Array_decl _ _ # decls) opt = integral_params decls opt"

fun array_params :: "option_decl list \<Rightarrow> array_option \<Rightarrow> nat option" where
  "array_params [] opt = None"
| "array_params (Integral_decl _ _ _ # decls) opt = array_params decls opt"
| "array_params (Array_decl opt' n # decls) opt = (if opt' = opt then Some n else array_params decls opt)"

lemmas sockopts_defs = sockopts_def sockopts_first_def sockopts_second_def define_opt_defs

text \<open>Every option is declared, so the look-ups below do not fail.\<close>

lemma integral_declared: "integral_params sockopts opt \<noteq> None"
  by (cases opt) (simp_all add: sockopts_defs)

lemma array_declared: "array_params sockopts opt \<noteq> None"
  by (cases opt) (simp_all add: sockopts_defs)

text \<open>The C++ type of the value (\<open>T\<close>).\<close>

definition integral_type :: "integral_option \<Rightarrow> ctype" where
  "integral_type opt = fst (the (integral_params sockopts opt))"

text \<open>Whether the option also takes a \<open>bool\<close> (\<open>BoolUnit\<close>).\<close>

definition bool_unit :: "integral_option \<Rightarrow> bool" where
  "bool_unit opt = snd (the (integral_params sockopts opt))"

text \<open>\<open>NullTerm\<close>: 0 binary data, 1 null-terminated string, 2 binary or Z85 text.\<close>

definition null_term :: "array_option \<Rightarrow> nat" where
  "null_term opt = the (array_params sockopts opt)"

end
