(* ===== verification/ZmqSocket.thy ===== *)
theory ZmqSocket
  imports ZmqContext ZmqBuffer ZmqCodec ZmqOptionTable
begin

text \<open>
  Sockets (\<open>zmq.hpp\<close>): flags, socket types, \<open>detail::socket_base\<close> with its option, endpoint, send and receive methods, \<open>socket_ref\<close> and \<open>socket_t\<close>. C \<open>int\<close> flags and the
  flag enumerations are 32-bit words; the values of \<open>zmq.h\<close>'s macros are fields of the interface
  record.
\<close>

section \<open>Flags\<close>

definition enum_bit_or :: "'a::len word \<Rightarrow> 'a word \<Rightarrow> 'a word" where
  "enum_bit_or a b = a OR b"

definition enum_bit_and :: "'a::len word \<Rightarrow> 'a word \<Rightarrow> 'a word" where
  "enum_bit_and a b = a AND b"

definition enum_bit_xor :: "'a::len word \<Rightarrow> 'a word \<Rightarrow> 'a word" where
  "enum_bit_xor a b = a XOR b"

definition enum_bit_not :: "'a::len word \<Rightarrow> 'a word" where
  "enum_bit_not a = NOT a"

type_synonym flags = "32 word"

section \<open>Socket types\<close>

datatype socket_type = Sock_req | Sock_rep | Sock_dealer | Sock_router | Sock_pub | Sock_sub
  | Sock_xpub | Sock_xsub | Sock_push | Sock_pull | Sock_server | Sock_client | Sock_radio
  | Sock_dish | Sock_gather | Sock_scatter | Sock_dgram | Sock_peer | Sock_channel | Sock_stream
  | Sock_pair

section \<open>The C functions\<close>

text \<open>
  \<open>zmq_getsockopt\<close> is given the size of the buffer and returns the bytes it wrote and the size it
  set; \<open>zmq_recv\<close> returns the bytes it wrote, \<open>zmq_msg_recv\<close> and \<open>zmq_msg_send\<close> the message after
  the call.
\<close>

record ('m, 'w) sock_api = "('m, 'w) ctx_api" +
  ZMQ_DONTWAIT :: flags
  ZMQ_SNDMORE :: flags
  socktype_num :: "socket_type \<Rightarrow> int"
  iopt_num :: "integral_option \<Rightarrow> int"
  aopt_num :: "array_option \<Rightarrow> int"
  zmq_socket :: "ptr \<Rightarrow> int \<Rightarrow> 'w \<Rightarrow> ptr \<times> 'w"
  zmq_close :: "ptr \<Rightarrow> 'w \<Rightarrow> int \<times> 'w"
  zmq_setsockopt :: "ptr \<Rightarrow> int \<Rightarrow> byte list \<Rightarrow> 'w \<Rightarrow> int \<times> 'w"
  zmq_getsockopt :: "ptr \<Rightarrow> int \<Rightarrow> nat \<Rightarrow> 'w \<Rightarrow> (int \<times> byte list \<times> nat) \<times> 'w"
  zmq_bind :: "ptr \<Rightarrow> string \<Rightarrow> 'w \<Rightarrow> int \<times> 'w"
  zmq_unbind :: "ptr \<Rightarrow> string \<Rightarrow> 'w \<Rightarrow> int \<times> 'w"
  zmq_connect :: "ptr \<Rightarrow> string \<Rightarrow> 'w \<Rightarrow> int \<times> 'w"
  zmq_disconnect :: "ptr \<Rightarrow> string \<Rightarrow> 'w \<Rightarrow> int \<times> 'w"
  zmq_send :: "ptr \<Rightarrow> byte list \<Rightarrow> flags \<Rightarrow> 'w \<Rightarrow> int \<times> 'w"
  zmq_msg_send :: "ptr \<Rightarrow> 'm \<Rightarrow> flags \<Rightarrow> 'w \<Rightarrow> (int \<times> 'm) \<times> 'w"
  zmq_recv :: "ptr \<Rightarrow> nat \<Rightarrow> flags \<Rightarrow> 'w \<Rightarrow> (int \<times> byte list) \<times> 'w"
  zmq_msg_recv :: "ptr \<Rightarrow> 'm \<Rightarrow> flags \<Rightarrow> 'w \<Rightarrow> (int \<times> 'm) \<times> 'w"
  zmq_join :: "ptr \<Rightarrow> string \<Rightarrow> 'w \<Rightarrow> int \<times> 'w"
  zmq_leave :: "ptr \<Rightarrow> string \<Rightarrow> 'w \<Rightarrow> int \<times> 'w"
  zmq_proxy :: "ptr \<Rightarrow> ptr \<Rightarrow> ptr \<Rightarrow> 'w \<Rightarrow> int \<times> 'w"
  zmq_proxy_steerable :: "ptr \<Rightarrow> ptr \<Rightarrow> ptr \<Rightarrow> ptr \<Rightarrow> 'w \<Rightarrow> int \<times> 'w"
  hash_ptr :: "ptr \<Rightarrow> 64 word"

definition send_flags_none :: flags where
  "send_flags_none = 0"

definition send_flags_dontwait :: "('m, 'w, 'x) sock_api_scheme \<Rightarrow> flags" where
  "send_flags_dontwait api = ZMQ_DONTWAIT api"

definition send_flags_sndmore :: "('m, 'w, 'x) sock_api_scheme \<Rightarrow> flags" where
  "send_flags_sndmore api = ZMQ_SNDMORE api"

definition recv_flags_none :: flags where
  "recv_flags_none = 0"

definition recv_flags_dontwait :: "('m, 'w, 'x) sock_api_scheme \<Rightarrow> flags" where
  "recv_flags_dontwait api = ZMQ_DONTWAIT api"

text \<open>The operators of the two flag enumerations.\<close>

definition send_flags_or :: "flags \<Rightarrow> flags \<Rightarrow> flags" where
  "send_flags_or a b = enum_bit_or a b"

definition send_flags_and :: "flags \<Rightarrow> flags \<Rightarrow> flags" where
  "send_flags_and a b = enum_bit_and a b"

definition send_flags_xor :: "flags \<Rightarrow> flags \<Rightarrow> flags" where
  "send_flags_xor a b = enum_bit_xor a b"

definition send_flags_not :: "flags \<Rightarrow> flags" where
  "send_flags_not a = enum_bit_not a"

definition recv_flags_or :: "flags \<Rightarrow> flags \<Rightarrow> flags" where
  "recv_flags_or a b = enum_bit_or a b"

definition recv_flags_and :: "flags \<Rightarrow> flags \<Rightarrow> flags" where
  "recv_flags_and a b = enum_bit_and a b"

definition recv_flags_xor :: "flags \<Rightarrow> flags \<Rightarrow> flags" where
  "recv_flags_xor a b = enum_bit_xor a b"

definition recv_flags_not :: "flags \<Rightarrow> flags" where
  "recv_flags_not a = enum_bit_not a"

lemmas flag_ops = send_flags_or_def send_flags_and_def send_flags_xor_def send_flags_not_def
  recv_flags_or_def recv_flags_and_def recv_flags_xor_def recv_flags_not_def
  enum_bit_or_def enum_bit_and_def enum_bit_xor_def enum_bit_not_def

text \<open>They satisfy the laws of a bitmask type: a flag set with \<open>|\<close> is seen with \<open>&\<close> and removed with \<open>& ~\<close>.\<close>

lemma flags_bitmask:
  "send_flags_and (send_flags_or a b) b = b" "send_flags_and (send_flags_and a (send_flags_not b)) b = 0"
  "send_flags_xor (send_flags_xor a b) b = a" "send_flags_not (send_flags_not a) = a"
  "recv_flags_and (recv_flags_or a b) b = b" "recv_flags_and (recv_flags_and a (recv_flags_not b)) b = 0"
  "recv_flags_xor (recv_flags_xor a b) b = a" "recv_flags_not (recv_flags_not a) = a"
  by (auto simp: flag_ops bit_eq_iff bit_simps)

section \<open>\<open>detail::socket_base\<close>: options\<close>

record socket_base = sb_handle :: ptr

definition socket_base_default :: socket_base where
  "socket_base_default = \<lparr>sb_handle = 0\<rparr>"

definition socket_base_of :: "ptr \<Rightarrow> socket_base" where
  "socket_base_of handle = \<lparr>sb_handle = handle\<rparr>"

text \<open>A C call that reports failure by a non-zero result.\<close>

definition check_zero ::
  "('m, 'w, 'x) sock_api_scheme \<Rightarrow> ('w \<Rightarrow> int \<times> 'w) \<Rightarrow> ('w, unit) comp" where
  "check_zero api f =
     bnd (call f) (\<lambda>rc. if rc \<noteq> 0 then throw_error api else ret ())"

lemma check_zero_cases:
  assumes "check_zero api f w = (r, w')"
  shows "\<exists>rc. f w = (rc, w') \<and> (if rc = 0 then r = Inr () else r = Inl (ErrorT (zmq_errno api w')))"
proof -
  obtain rc w1 where "f w = (rc, w1)" by (metis surj_pair)
  with assms show ?thesis
    by (cases "rc = 0") (auto simp: check_zero_def bnd_def call_def)
qed

definition set_option ::
  "('m, 'w, 'x) sock_api_scheme \<Rightarrow> 's socket_base_scheme \<Rightarrow> int \<Rightarrow> byte list \<Rightarrow> ('w, unit) comp" where
  "set_option api s option optval = check_zero api (zmq_setsockopt api (sb_handle s) option optval)"

definition get_option ::
  "('m, 'w, 'x) sock_api_scheme \<Rightarrow> 's socket_base_scheme \<Rightarrow> int \<Rightarrow> nat \<Rightarrow> ('w, byte list \<times> nat) comp" where
  "get_option api s option optvallen =
     bnd (call (zmq_getsockopt api (sb_handle s) option optvallen)) (\<lambda>(rc, optval, optvallen').
     if rc \<noteq> 0 then throw_error api else ret (optval, optvallen'))"

text \<open>The deprecated untyped methods; a typed value is its object representation.\<close>

definition setsockopt_value ::
  "('m, 'w, 'x) sock_api_scheme \<Rightarrow> 's socket_base_scheme \<Rightarrow> int \<Rightarrow> byte list \<Rightarrow> ('w, unit) comp" where
  "setsockopt_value api s option optval_rep = set_option api s option optval_rep"

definition setsockopt ::
  "('m, 'w, 'x) sock_api_scheme \<Rightarrow> 's socket_base_scheme \<Rightarrow> int \<Rightarrow> byte list option \<Rightarrow> nat \<Rightarrow> ('w, unit) comp" where
  "setsockopt api s option optval optvallen =
     bnd (lift_res (if optvallen = 0 then Inr [] else mem_read optval optvallen)) (\<lambda>bs.
     check_zero api (zmq_setsockopt api (sb_handle s) option bs))"

definition getsockopt ::
  "('m, 'w, 'x) sock_api_scheme \<Rightarrow> 's socket_base_scheme \<Rightarrow> int \<Rightarrow> nat \<Rightarrow> ('w, byte list \<times> nat) comp" where
  "getsockopt api s option optvallen =
     bnd (call (zmq_getsockopt api (sb_handle s) option optvallen)) (\<lambda>(rc, optval, optvallen').
     if rc \<noteq> 0 then throw_error api else ret (optval, optvallen'))"

definition getsockopt_value ::
  "('m, 'w, 'x) sock_api_scheme \<Rightarrow> 's socket_base_scheme \<Rightarrow> int \<Rightarrow> nat \<Rightarrow> ('w, byte list) comp" where
  "getsockopt_value api s option sizeof_T =
     bnd (getsockopt api s option sizeof_T) (\<lambda>(optval, _). ret optval)"

text \<open>Object representations of the integral option types (little-endian when \<open>le\<close>).\<close>

fun ctype_size :: "ctype \<Rightarrow> nat" where
  "ctype_size CInt = 4"
| "ctype_size CI64 = 8"
| "ctype_size CU64 = 8"
| "ctype_size CFd = 4"
| "ctype_size CSocketType = 4"

definition rep_u64 :: "bool \<Rightarrow> 64 word \<Rightarrow> byte list" where
  "rep_u64 le v = (let bs = map (\<lambda>i. ucast (drop_bit (8 * i) v)) [0..<8] in if le then bs else rev bs)"

definition unrep_u64 :: "bool \<Rightarrow> byte list \<Rightarrow> 64 word" where
  "unrep_u64 le bs =
     (let ds = (if le then bs else rev bs)
      in fold (\<lambda>i acc. acc OR push_bit (8 * i) (ucast (ds ! i))) [0..<8] 0)"

definition rep_ctype :: "bool \<Rightarrow> ctype \<Rightarrow> int \<Rightarrow> byte list" where
  "rep_ctype le t v = (if ctype_size t = 4 then rep_u32 le (of_int v) else rep_u64 le (of_int v))"

definition unrep_ctype :: "bool \<Rightarrow> ctype \<Rightarrow> byte list \<Rightarrow> int" where
  "unrep_ctype le t bs =
     (if ctype_size t = 4 then sint (unrep_u32 le bs)
      else if t = CU64 then uint (unrep_u64 le bs) else sint (unrep_u64 le bs))"

text \<open>
  \<open>set\<close> for integral options: a value of the option's type, or a \<open>bool\<close> for the \<open>BoolUnit\<close> ones.
  A \<open>static_assert\<close> that stops the compilation is an error value.
\<close>

definition sock_set_integral ::
  "('m, 'w, 'x) sock_api_scheme \<Rightarrow> bool \<Rightarrow> 's socket_base_scheme \<Rightarrow> integral_option \<Rightarrow> int \<Rightarrow> ('w, unit) comp" where
  "sock_set_integral api le s opt val =
     (if integral_type opt = CSocketType then throw (InvalidArgument ''T must be integral'')
      else set_option api s (iopt_num api opt) (rep_ctype le (integral_type opt) val))"

definition sock_set_bool ::
  "('m, 'w, 'x) sock_api_scheme \<Rightarrow> bool \<Rightarrow> 's socket_base_scheme \<Rightarrow> integral_option \<Rightarrow> bool \<Rightarrow> ('w, unit) comp" where
  "sock_set_bool api le s opt val =
     (if \<not> bool_unit opt then throw (InvalidArgument ''no BoolUnit'')
      else let rep_val = (if val then 1 else 0)
           in set_option api s (iopt_num api opt) (rep_ctype le (integral_type opt) rep_val))"

text \<open>\<open>set\<close> for array options: a C string, a buffer (its bytes), a string or a string view.\<close>

definition sock_set_cstr ::
  "('m, 'w, 'x) sock_api_scheme \<Rightarrow> 's socket_base_scheme \<Rightarrow> array_option \<Rightarrow> string \<Rightarrow> ('w, unit) comp" where
  "sock_set_cstr api s opt buf = set_option api s (aopt_num api opt) (bytes_of_string (c_string buf))"

definition sock_set_buffer ::
  "('m, 'w, 'x) sock_api_scheme \<Rightarrow> 's socket_base_scheme \<Rightarrow> array_option \<Rightarrow> byte list \<Rightarrow> ('w, unit) comp" where
  "sock_set_buffer api s opt buf = set_option api s (aopt_num api opt) buf"

definition sock_set_string ::
  "('m, 'w, 'x) sock_api_scheme \<Rightarrow> 's socket_base_scheme \<Rightarrow> array_option \<Rightarrow> string \<Rightarrow> ('w, unit) comp" where
  "sock_set_string api s opt buf = set_option api s (aopt_num api opt) (bytes_of_string buf)"

definition sock_get_integral ::
  "('m, 'w, 'x) sock_api_scheme \<Rightarrow> bool \<Rightarrow> 's socket_base_scheme \<Rightarrow> integral_option \<Rightarrow> ('w, int) comp" where
  "sock_get_integral api le s opt =
     bnd (get_option api s (iopt_num api opt) (ctype_size (integral_type opt))) (\<lambda>(val, sz).
     bnd (zmq_assert (sz = ctype_size (integral_type opt))) (\<lambda>_.
     ret (unrep_ctype le (integral_type opt) val)))"

text \<open>Into a buffer of \<open>buf_size\<close> bytes: what was written there and the option's size.\<close>

definition sock_get_buffer ::
  "('m, 'w, 'x) sock_api_scheme \<Rightarrow> 's socket_base_scheme \<Rightarrow> array_option \<Rightarrow> nat \<Rightarrow> ('w, byte list \<times> nat) comp" where
  "sock_get_buffer api s opt buf_size = get_option api s (aopt_num api opt) buf_size"

definition string_at :: "string \<Rightarrow> nat \<Rightarrow> char res" where
  "string_at s i = (if i < length s then Inr (s ! i) else if i = length s then Inr (CHR 0x00)
     else Inl (UB ''string index''))"

definition string_resize :: "nat \<Rightarrow> string \<Rightarrow> string" where
  "string_resize n s = take n s @ replicate (n - length s) (CHR 0x00)"

definition sock_get_string ::
  "('m, 'w, 'x) sock_api_scheme \<Rightarrow> 's socket_base_scheme \<Rightarrow> array_option \<Rightarrow> nat \<Rightarrow> ('w, string) comp" where
  "sock_get_string api s opt init_size0 =
     (let init_size = (if null_term opt = 2 \<and> init_size0 = 1024 then 41 else init_size0) in
      bnd (sock_get_buffer api s opt init_size) (\<lambda>(bs, sz).
      let str = string_of_bytes bs @ replicate (init_size - length bs) (CHR 0x00) in
      bnd (if null_term opt = 1 then
             (if sz > 0 then
                bnd (lift_res (string_at str (sz - 1))) (\<lambda>c.
                bnd (zmq_assert (c = CHR 0x00)) (\<lambda>_. ret (sz - 1)))
              else ret sz)
           else if null_term opt = 2 then
             bnd (zmq_assert (sz = 32 \<or> sz = 41)) (\<lambda>_.
             if sz = 41 then
               bnd (lift_res (string_at str (sz - 1))) (\<lambda>c.
               bnd (zmq_assert (c = CHR 0x00)) (\<lambda>_. ret (sz - 1)))
             else ret sz)
           else ret sz) (\<lambda>sz'.
      ret (string_resize sz' str))))"

section \<open>Endpoints\<close>

definition sock_bind :: "('m, 'w, 'x) sock_api_scheme \<Rightarrow> 's socket_base_scheme \<Rightarrow> string \<Rightarrow> ('w, unit) comp" where
  "sock_bind api s addr = check_zero api (zmq_bind api (sb_handle s) (c_string addr))"

definition sock_unbind :: "('m, 'w, 'x) sock_api_scheme \<Rightarrow> 's socket_base_scheme \<Rightarrow> string \<Rightarrow> ('w, unit) comp" where
  "sock_unbind api s addr = check_zero api (zmq_unbind api (sb_handle s) (c_string addr))"

definition sock_connect :: "('m, 'w, 'x) sock_api_scheme \<Rightarrow> 's socket_base_scheme \<Rightarrow> string \<Rightarrow> ('w, unit) comp" where
  "sock_connect api s addr = check_zero api (zmq_connect api (sb_handle s) (c_string addr))"

definition sock_disconnect :: "('m, 'w, 'x) sock_api_scheme \<Rightarrow> 's socket_base_scheme \<Rightarrow> string \<Rightarrow> ('w, unit) comp" where
  "sock_disconnect api s addr = check_zero api (zmq_disconnect api (sb_handle s) (c_string addr))"

definition sock_connected :: "'s socket_base_scheme \<Rightarrow> bool" where
  "sock_connected s = (sb_handle s \<noteq> 0)"

section \<open>Sending and receiving\<close>

text \<open>
  The common end of the calls: a byte count is success; \<open>EAGAIN\<close> is the "not now" result; anything
  else is thrown.
\<close>

definition io_result ::
  "('m, 'w, 'x) sock_api_scheme \<Rightarrow> int \<Rightarrow> 'a \<Rightarrow> 'a \<Rightarrow> ('w, 'a) comp" where
  "io_result api nbytes ok again w =
     (if nbytes \<ge> 0 then (Inr ok, w)
      else if zmq_errno api w = EAGAIN api then (Inr again, w)
      else throw_error api w)"

definition sock_send_mem_deprecated ::
  "('m, 'w, 'x) sock_api_scheme \<Rightarrow> 's socket_base_scheme \<Rightarrow> byte list option \<Rightarrow> nat \<Rightarrow> flags \<Rightarrow> ('w, nat) comp" where
  "sock_send_mem_deprecated api s buf len fl =
     bnd (lift_res (if len = 0 then Inr [] else mem_read buf len)) (\<lambda>bs.
     bnd (call (zmq_send api (sb_handle s) bs fl)) (\<lambda>nbytes.
     io_result api nbytes (nat nbytes) 0))"

text \<open>Sending a message: the object of the computation is the message.\<close>

definition sock_send_msg_deprecated ::
  "('m, 'w, 'x) sock_api_scheme \<Rightarrow> 's socket_base_scheme \<Rightarrow> flags \<Rightarrow> ('m \<times> 'w, bool) comp" where
  "sock_send_msg_deprecated api s fl =
     bnd (on_this (\<lambda>msg. zmq_msg_send api (sb_handle s) msg fl)) (\<lambda>nbytes.
     on_lib (io_result api nbytes True False))"

definition sock_send_range_deprecated ::
  "('m, 'w, 'x) sock_api_scheme \<Rightarrow> 's socket_base_scheme \<Rightarrow> nat \<Rightarrow> byte list list \<Rightarrow> flags \<Rightarrow> ('w, bool) comp" where
  "sock_send_range_deprecated api s sizeof_value elems fl =
     bnd (message_of_range api sizeof_value elems) (\<lambda>msg.
     bnd (call (zmq_msg_send api (sb_handle s) msg fl)) (\<lambda>(nbytes, _).
     io_result api nbytes True False))"

definition sock_send_buffer ::
  "('m, 'w, 'x) sock_api_scheme \<Rightarrow> 's socket_base_scheme \<Rightarrow> byte list \<Rightarrow> flags \<Rightarrow> ('w, nat option) comp" where
  "sock_send_buffer api s buf fl =
     bnd (call (zmq_send api (sb_handle s) buf fl)) (\<lambda>nbytes.
     io_result api nbytes (Some (nat nbytes)) None)"

definition sock_send_msg ::
  "('m, 'w, 'x) sock_api_scheme \<Rightarrow> 's socket_base_scheme \<Rightarrow> flags \<Rightarrow> ('m \<times> 'w, nat option) comp" where
  "sock_send_msg api s fl =
     bnd (on_this (\<lambda>msg. zmq_msg_send api (sb_handle s) msg fl)) (\<lambda>nbytes.
     on_lib (io_result api nbytes (Some (nat nbytes)) None))"

definition sock_send_moved_deprecated ::
  "('m, 'w, 'x) sock_api_scheme \<Rightarrow> 's socket_base_scheme \<Rightarrow> flags \<Rightarrow> ('m \<times> 'w, bool) comp" where
  "sock_send_moved_deprecated api s fl = bnd (sock_send_msg api s fl) (\<lambda>r. ret (r \<noteq> None))"

definition sock_recv_mem_deprecated ::
  "('m, 'w, 'x) sock_api_scheme \<Rightarrow> 's socket_base_scheme \<Rightarrow> nat \<Rightarrow> flags \<Rightarrow> ('w, nat \<times> byte list) comp" where
  "sock_recv_mem_deprecated api s len fl =
     bnd (call (zmq_recv api (sb_handle s) len fl)) (\<lambda>(nbytes, bs).
     io_result api nbytes (nat nbytes, bs) (0, bs))"

definition sock_recv_msg_deprecated ::
  "('m, 'w, 'x) sock_api_scheme \<Rightarrow> 's socket_base_scheme \<Rightarrow> flags \<Rightarrow> ('m \<times> 'w, bool) comp" where
  "sock_recv_msg_deprecated api s fl =
     bnd (on_this (\<lambda>msg. zmq_msg_recv api (sb_handle s) msg fl)) (\<lambda>nbytes.
     on_lib (io_result api nbytes True False))"

record recv_buffer_size =
  rbs_size :: nat
  rbs_untruncated_size :: nat

definition recv_truncated :: "recv_buffer_size \<Rightarrow> bool" where
  "recv_truncated r = (rbs_size r \<noteq> rbs_untruncated_size r)"

definition sock_recv_buffer ::
  "('m, 'w, 'x) sock_api_scheme \<Rightarrow> 's socket_base_scheme \<Rightarrow> nat \<Rightarrow> flags
    \<Rightarrow> ('w, recv_buffer_size option \<times> byte list) comp" where
  "sock_recv_buffer api s buf_size fl =
     bnd (call (zmq_recv api (sb_handle s) buf_size fl)) (\<lambda>(nbytes, bs).
     io_result api nbytes
       (Some \<lparr>rbs_size = min (nat nbytes) buf_size, rbs_untruncated_size = nat nbytes\<rparr>, bs) (None, bs))"

definition sock_recv ::
  "('m, 'w, 'x) sock_api_scheme \<Rightarrow> 's socket_base_scheme \<Rightarrow> flags \<Rightarrow> ('m \<times> 'w, nat option) comp" where
  "sock_recv api s fl =
     bnd (on_this (\<lambda>msg. zmq_msg_recv api (sb_handle s) msg fl)) (\<lambda>nbytes.
     if nbytes \<ge> 0 then
       bnd get_this (\<lambda>msg.
       bnd (zmq_assert (message_size api msg = nat nbytes)) (\<lambda>_.
       ret (Some (nat nbytes))))
     else on_lib (\<lambda>w. if zmq_errno api w = EAGAIN api then (Inr None, w) else throw_error api w))"

definition sock_join :: "('m, 'w, 'x) sock_api_scheme \<Rightarrow> 's socket_base_scheme \<Rightarrow> string \<Rightarrow> ('w, unit) comp" where
  "sock_join api s grp = check_zero api (zmq_join api (sb_handle s) (c_string grp))"

definition sock_leave :: "('m, 'w, 'x) sock_api_scheme \<Rightarrow> 's socket_base_scheme \<Rightarrow> string \<Rightarrow> ('w, unit) comp" where
  "sock_leave api s grp = check_zero api (zmq_leave api (sb_handle s) (c_string grp))"

definition sock_handle :: "'s socket_base_scheme \<Rightarrow> ptr" where
  "sock_handle s = sb_handle s"

definition sock_bool :: "'s socket_base_scheme \<Rightarrow> bool" where
  "sock_bool s = (sb_handle s \<noteq> 0)"

section \<open>\<open>socket_ref\<close> and comparisons\<close>

type_synonym socket_ref = socket_base

definition socket_ref_null :: socket_ref where
  "socket_ref_null = socket_base_default"

definition socket_ref_from_handle :: "ptr \<Rightarrow> socket_ref" where
  "socket_ref_from_handle handle = socket_base_of handle"

definition socket_ref_eq_null :: "socket_ref \<Rightarrow> bool" where
  "socket_ref_eq_null sr = (sock_handle sr = 0)"

definition socket_ref_neq_null :: "socket_ref \<Rightarrow> bool" where
  "socket_ref_neq_null sr = (\<not> socket_ref_eq_null sr)"

definition socket_eq :: "'s socket_base_scheme \<Rightarrow> 't socket_base_scheme \<Rightarrow> bool" where
  "socket_eq a b = (sock_handle a = sock_handle b)"

definition socket_neq :: "'s socket_base_scheme \<Rightarrow> 't socket_base_scheme \<Rightarrow> bool" where
  "socket_neq a b = (\<not> socket_eq a b)"

definition socket_less :: "'s socket_base_scheme \<Rightarrow> 't socket_base_scheme \<Rightarrow> bool" where
  "socket_less a b = (sock_handle a < sock_handle b)"

definition socket_greater :: "'s socket_base_scheme \<Rightarrow> 't socket_base_scheme \<Rightarrow> bool" where
  "socket_greater a b = socket_less b a"

definition socket_le :: "'s socket_base_scheme \<Rightarrow> 't socket_base_scheme \<Rightarrow> bool" where
  "socket_le a b = (\<not> socket_greater a b)"

definition socket_ge :: "'s socket_base_scheme \<Rightarrow> 't socket_base_scheme \<Rightarrow> bool" where
  "socket_ge a b = (\<not> socket_less a b)"

definition socket_ref_hash :: "('m, 'w, 'x) sock_api_scheme \<Rightarrow> socket_ref \<Rightarrow> 64 word" where
  "socket_ref_hash api sr = hash_ptr api (sock_handle sr)"

section \<open>\<open>socket_t\<close>\<close>

record socket_t = socket_base +
  sb_ctxptr :: ptr

definition socket_t_default :: socket_t where
  "socket_t_default = \<lparr>sb_handle = 0, sb_ctxptr = 0\<rparr>"

definition socket_t_int ::
  "('m, 'w, 'x) sock_api_scheme \<Rightarrow> context_t \<Rightarrow> int \<Rightarrow> ('w, socket_t) comp" where
  "socket_t_int api context typ =
     bnd (call (zmq_socket api (context_handle context) typ)) (\<lambda>h.
     if h = 0 then throw_error api
     else ret \<lparr>sb_handle = h, sb_ctxptr = context_handle context\<rparr>)"

definition socket_t_ctor ::
  "('m, 'w, 'x) sock_api_scheme \<Rightarrow> context_t \<Rightarrow> socket_type \<Rightarrow> ('w, socket_t) comp" where
  "socket_t_ctor api context typ = socket_t_int api context (socktype_num api typ)"

definition socket_t_of_ptr ::
  "('m, 'w, 'x) sock_api_scheme \<Rightarrow> ptr \<Rightarrow> int \<Rightarrow> ('w, socket_t) comp" where
  "socket_t_of_ptr api context typ =
     bnd (call (zmq_socket api context typ)) (\<lambda>h.
     if h = 0 then throw_error api
     else if context = 0 then throw_error api
     else ret \<lparr>sb_handle = h, sb_ctxptr = context\<rparr>)"

definition socket_t_move_ctor :: "socket_t \<Rightarrow> socket_t \<times> socket_t" where
  "socket_t_move_ctor rhs =
     (\<lparr>sb_handle = sb_handle rhs, sb_ctxptr = sb_ctxptr rhs\<rparr>, rhs\<lparr>sb_handle := 0, sb_ctxptr := 0\<rparr>)"

definition socket_t_swap :: "socket_t \<times> socket_t \<Rightarrow> socket_t \<times> socket_t" where
  "socket_t_swap = (\<lambda>(this, other).
     (this\<lparr>sb_handle := sb_handle other, sb_ctxptr := sb_ctxptr other\<rparr>,
      other\<lparr>sb_handle := sb_handle this, sb_ctxptr := sb_ctxptr this\<rparr>))"

definition swap_sockets :: "socket_t \<times> socket_t \<Rightarrow> socket_t \<times> socket_t" where
  "swap_sockets = socket_t_swap"

definition socket_t_close :: "('m, 'w, 'x) sock_api_scheme \<Rightarrow> (socket_t \<times> 'w, unit) comp" where
  "socket_t_close api =
     bnd get_this (\<lambda>s.
     if sb_handle s = 0 then ret ()
     else bnd (on_lib (call (zmq_close api (sb_handle s)))) (\<lambda>rc.
          bnd (zmq_assert (rc = 0)) (\<lambda>_.
          put_this (s\<lparr>sb_handle := 0, sb_ctxptr := 0\<rparr>))))"

definition socket_t_dtor :: "('m, 'w, 'x) sock_api_scheme \<Rightarrow> (socket_t \<times> 'w, unit) comp" where
  "socket_t_dtor api = socket_t_close api"

definition socket_t_move_assign ::
  "('m, 'w, 'x) sock_api_scheme \<Rightarrow> ((socket_t \<times> socket_t) \<times> 'w, unit) comp" where
  "socket_t_move_assign api = (\<lambda>((this, rhs), w).
     case socket_t_close api (this, w) of
       (Inl e, (this', w')) \<Rightarrow> (Inl e, ((this', rhs), w'))
     | (Inr _, (this', w')) \<Rightarrow> (Inr (), (socket_t_swap (this', rhs), w')))"

definition socket_ref_of_socket :: "socket_t \<Rightarrow> socket_ref" where
  "socket_ref_of_socket s = socket_ref_from_handle (sb_handle s)"

section \<open>Proxies\<close>

definition zproxy ::
  "('m, 'w, 'x) sock_api_scheme \<Rightarrow> socket_ref \<Rightarrow> socket_ref \<Rightarrow> socket_ref \<Rightarrow> ('w, unit) comp" where
  "zproxy api frontend backend capture =
     check_zero api (zmq_proxy api (sock_handle frontend) (sock_handle backend) (sock_handle capture))"

definition zproxy_steerable ::
  "('m, 'w, 'x) sock_api_scheme \<Rightarrow> socket_ref \<Rightarrow> socket_ref \<Rightarrow> socket_ref \<Rightarrow> socket_ref \<Rightarrow> ('w, unit) comp" where
  "zproxy_steerable api frontend backend capture control =
     check_zero api (zmq_proxy_steerable api (sock_handle frontend) (sock_handle backend)
       (sock_handle capture) (sock_handle control))"

section \<open>A library over lists\<close>

text \<open>
  For the examples: a libzmq whose state is its \<open>errno\<close>, the open sockets, the option values, one
  queue of incoming and one of outgoing message parts, and the registrations of one poller.
\<close>

record lib_state =
  lib_errno :: int
  lib_open :: "ptr set"
  lib_next :: ptr
  lib_opt :: "ptr \<Rightarrow> int \<Rightarrow> byte list"
  lib_in :: "lmsg list"
  lib_out :: "lmsg list"
  lib_reg :: "(ptr + int) \<rightharpoonup> nat"

definition lib_start :: lib_state where
  "lib_start = \<lparr>lib_errno = 0, lib_open = {}, lib_next = 1, lib_opt = (\<lambda>_ _. []), lib_in = [], lib_out = [],
     lib_reg = Map.empty\<rparr>"

definition lib_socket :: "ptr \<Rightarrow> int \<Rightarrow> 'a lib_state_scheme \<Rightarrow> ptr \<times> 'a lib_state_scheme" where
  "lib_socket c t w =
     (let h = lib_next w in
      if h = 0 \<or> h \<in> lib_open w then (0, w\<lparr>lib_errno := 24\<rparr>)
      else (h, w\<lparr>lib_open := insert h (lib_open w), lib_next := h + 1\<rparr>))"

definition lib_close :: "ptr \<Rightarrow> 'a lib_state_scheme \<Rightarrow> int \<times> 'a lib_state_scheme" where
  "lib_close h w =
     (if h \<in> lib_open w then (0, w\<lparr>lib_open := lib_open w - {h}\<rparr>) else (- 1, w\<lparr>lib_errno := 88\<rparr>))"

definition lib_send :: "byte list \<Rightarrow> flags \<Rightarrow> 'a lib_state_scheme \<Rightarrow> int \<times> 'a lib_state_scheme" where
  "lib_send bs fl w = (int (length bs), w\<lparr>lib_out := lib_out w @ [(bs, fl AND 2 \<noteq> 0)]\<rparr>)"

definition lib_recv :: "'a lib_state_scheme \<Rightarrow> lmsg option \<times> 'a lib_state_scheme" where
  "lib_recv w = (case lib_in w of [] \<Rightarrow> (None, w\<lparr>lib_errno := 11\<rparr>) | m # ms \<Rightarrow> (Some m, w\<lparr>lib_in := ms\<rparr>))"

definition list_sock_api :: "(lmsg, 'a lib_state_scheme) sock_api" where
  "list_sock_api = ctx_api.extend (list_ctx_api_on lib_errno (\<lambda>p w. (0, w)))
     (sock_api.fields 1 2 (\<lambda>_. 0) (\<lambda>_. 1) (\<lambda>_. 2)
       lib_socket lib_close
       (\<lambda>h opt bs w. (0, w\<lparr>lib_opt := (lib_opt w)(h := (lib_opt w h)(opt := bs))\<rparr>))
       (\<lambda>h opt n w. ((0, take n (lib_opt w h opt), length (lib_opt w h opt)), w))
       (\<lambda>h a w. (0, w)) (\<lambda>h a w. (0, w)) (\<lambda>h a w. (0, w)) (\<lambda>h a w. (0, w))
       (\<lambda>h bs fl w. lib_send bs fl w)
       (\<lambda>h m fl w. case lib_send (fst m) fl w of (rc, w') \<Rightarrow> ((rc, ([], False)), w'))
       (\<lambda>h n fl w. case lib_recv w of
           (None, w') \<Rightarrow> ((- 1, []), w')
         | (Some m, w') \<Rightarrow> ((int (length (fst m)), take n (fst m)), w'))
       (\<lambda>h m fl w. case lib_recv w of
           (None, w') \<Rightarrow> ((- 1, m), w')
         | (Some m', w') \<Rightarrow> ((int (length (fst m')), m'), w'))
       (\<lambda>h a w. (0, w)) (\<lambda>h a w. (0, w)) (\<lambda>f b c w. (0, w)) (\<lambda>f b c d w. (0, w))
       (\<lambda>h. h))"

lemmas list_sock_api_simps = list_ctx_api_simps list_sock_api_def sock_api.defs

end
