(* ===== verification/ZmqOptions.thy ===== *)
theory ZmqOptions
  imports ZmqSocket Codec
begin

text \<open>
  Correctness of the typed socket options and of receiving (\<open>socket_base\<close> of \<open>zmq.hpp\<close>): the object
  representations of the option types are encodings, so what \<open>set\<close> stores \<open>get\<close> returns, on both
  byte orders; and what a receive reports about its buffer is what arrived.
\<close>

section \<open>Representations\<close>

lemma length_rep_u64 [simp]: "length (rep_u64 le v) = 8"
  by (simp add: rep_u64_def Let_def)

lemma upt_8: "[0..<8] = [0, 1, 2, 3, 4, 5, 6, 7 :: nat]"
  by (simp add: upt_rec)

lemma bytes_of_u64:
  fixes v :: "64 word"
  assumes "n < 64"
  shows "bit v n \<longleftrightarrow> (\<exists>i < 8. 8 * i \<le> n \<and> n - 8 * i < 8 \<and> bit v (8 * i + (n - 8 * i)))"
proof -
  have "n div 8 < 8" "8 * (n div 8) \<le> n" "n - 8 * (n div 8) < 8" using assms by auto
  then show ?thesis by (auto intro!: exI [of _ "n div 8"])
qed

lemma unrep_rep_u64 [simp]: "unrep_u64 le (rep_u64 le v) = v"
proof -
  let ?b = "\<lambda>i. push_bit (8 * i) (ucast (ucast (drop_bit (8 * i) v) :: byte)) :: 64 word"
  have f: "bit (fold (\<lambda>i acc. acc OR g i) xs a) n \<longleftrightarrow> bit a n \<or> (\<exists>i \<in> set xs. bit (g i) n)"
    for g :: "nat \<Rightarrow> 64 word" and xs a n
    by (induction xs arbitrary: a) (auto simp: bit_simps)
  have "unrep_u64 le (rep_u64 le v) = fold (\<lambda>i acc. acc OR ?b i) [0..<8] 0"
    by (cases le) (simp_all add: unrep_u64_def rep_u64_def Let_def upt_8)
  also have "\<dots> = v"
  proof (rule bit_eqI)
    fix n assume "possible_bit TYPE(64 word) n"
    then have n: "n < 64" by simp
    have "bit (?b i) n \<longleftrightarrow> 8 * i \<le> n \<and> n - 8 * i < 8 \<and> bit v (8 * i + (n - 8 * i))" for i
      using n by (auto simp: bit_simps)
    then show "bit (fold (\<lambda>i acc. acc OR ?b i) [0..<8] 0) n = bit v n"
      using bytes_of_u64 [OF n, of v] by (auto simp: f)
  qed
  finally show ?thesis .
qed

interpretation rep64_codec: codec "rep_u64 le"
  "\<lambda>bs. if length bs < 8 then None else Some (unrep_u64 le (take 8 bs), drop 8 bs)" "\<lambda>_. True" for le
  by unfold_locales simp

text \<open>The values of a C type.\<close>

definition ctype_range :: "ctype \<Rightarrow> int set" where
  "ctype_range t =
     (if ctype_size t = 4 then {- (2 ^ 31) ..< 2 ^ 31}
      else if t = CU64 then {0 ..< 2 ^ 64} else {- (2 ^ 63) ..< 2 ^ 63})"

lemma length_rep_ctype [simp]: "length (rep_ctype le t v) = ctype_size t"
  by (cases t) (simp_all add: rep_ctype_def)

lemma unrep_rep_ctype: "v \<in> ctype_range t \<Longrightarrow> unrep_ctype le t (rep_ctype le t v) = v"
  by (cases t) (auto simp: ctype_range_def unrep_ctype_def rep_ctype_def signed_of_int unsigned_of_int
      signed_take_bit_int_eq_self take_bit_int_eq_self)

interpretation ctype_codec: codec "rep_ctype le t"
  "\<lambda>bs. if length bs < ctype_size t then None
        else Some (unrep_ctype le t (take (ctype_size t) bs), drop (ctype_size t) bs)"
  "\<lambda>v. v \<in> ctype_range t" for le t
  by unfold_locales (simp add: unrep_rep_ctype)

section \<open>Setting and getting\<close>

text \<open>
  Option \<open>opt\<close> of the socket is one that libzmq stores: \<open>zmq_getsockopt\<close> gives the bytes of the last
  successful \<open>zmq_setsockopt\<close> and their number, when they fit in the caller's buffer.
\<close>

definition opt_stored :: "('m, 'w, 'x) sock_api_scheme \<Rightarrow> ptr \<Rightarrow> int \<Rightarrow> bool" where
  "opt_stored api h opt \<longleftrightarrow>
     (\<forall>bs w w' n. zmq_setsockopt api h opt bs w = (0, w') \<longrightarrow> length bs \<le> n \<longrightarrow>
        zmq_getsockopt api h opt n w' = ((0, bs, length bs), w'))"

lemma opt_storedD:
  "opt_stored api h opt \<Longrightarrow> zmq_setsockopt api h opt bs w = (0, w') \<Longrightarrow> length bs \<le> n \<Longrightarrow>
     zmq_getsockopt api h opt n w' = ((0, bs, length bs), w')"
  by (simp add: opt_stored_def)

lemma set_option_Inr:
  "set_option api s opt bs w = (Inr u, w') \<longleftrightarrow> zmq_setsockopt api (sb_handle s) opt bs w = (0, w')"
  by (auto simp: set_option_def check_zero_def bnd_def call_def split: prod.splits)

text \<open>
  An integral option reads back as it was set, on either byte order, for every value of the
  option's C type (sign and width included); a \<open>bool\<close> set on a \<open>BoolUnit\<close> option reads back as 0 or 1.
\<close>

theorem integral_option_roundtrip:
  assumes "opt_stored api (sb_handle s) (iopt_num api opt)"
  shows "(v \<in> ctype_range (integral_type opt) \<longrightarrow> sock_set_integral api le s opt v w = (Inr (), w') \<longrightarrow>
      sock_get_integral api le s opt w' = (Inr v, w'))
    \<and> (sock_set_bool api le s opt b w = (Inr (), w') \<longrightarrow>
      sock_get_integral api le s opt w' = (Inr (of_bool b), w'))"
proof -
  have get: "sock_get_integral api le s opt w' = (Inr v, w')"
    if "v \<in> ctype_range (integral_type opt)"
      "set_option api s (iopt_num api opt) (rep_ctype le (integral_type opt) v) w = (Inr (), w')" for v
  proof -
    have "zmq_getsockopt api (sb_handle s) (iopt_num api opt) (ctype_size (integral_type opt)) w'
        = ((0, rep_ctype le (integral_type opt) v, ctype_size (integral_type opt)), w')"
      using opt_storedD [OF assms] that(2) by (simp add: set_option_Inr)
    with that(1) show ?thesis
      by (simp add: sock_get_integral_def get_option_def bnd_def call_def unrep_rep_ctype)
  qed
  have "sock_get_integral api le s opt w' = (Inr v, w')"
    if "v \<in> ctype_range (integral_type opt)" "sock_set_integral api le s opt v w = (Inr (), w')"
    using get [OF that(1)] that(2) by (auto simp: sock_set_integral_def split: if_splits)
  moreover have "sock_get_integral api le s opt w' = (Inr (of_bool b), w')"
    if "sock_set_bool api le s opt b w = (Inr (), w')"
    using get [of "of_bool b"] that
    by (auto simp: sock_set_bool_def ctype_range_def split: if_splits)
  ultimately show ?thesis by blast
qed

theorem integral_option_roundtrip_witness:
  "\<exists>w'. sock_set_integral list_sock_api True \<lparr>sb_handle = 1\<rparr> IO_linger (- 1) lib_start = (Inr (), w')
      \<and> sock_get_integral list_sock_api True \<lparr>sb_handle = 1\<rparr> IO_linger w' = (Inr (- 1), w')"
proof -
  let ?s = "\<lparr>sb_handle = 1\<rparr>"
  have a: "opt_stored list_sock_api (sb_handle ?s) (iopt_num list_sock_api IO_linger)"
    by (auto simp: opt_stored_def list_sock_api_simps)
  obtain w' where b: "sock_set_integral list_sock_api True ?s IO_linger (- 1) lib_start = (Inr (), w')"
    by (simp add: sock_set_integral_def set_option_def check_zero_def bnd_def call_def integral_type_def sockopts_defs
        list_sock_api_simps)
  have "- 1 \<in> ctype_range (integral_type IO_linger)"
    by (simp add: ctype_range_def integral_type_def sockopts_defs)
  from integral_option_roundtrip [OF a] this b show ?thesis by blast
qed

text \<open>
  Getting a null-terminated string option returns the text without its terminator, and no padding,
  when libzmq has the text with the terminator and it fits in the initial buffer.
\<close>

theorem string_option_get:
  assumes "zmq_getsockopt api (sb_handle s) (aopt_num api opt) n w
      = ((0, bytes_of_string (str @ [CHR 0x00]), length str + 1), w')"
    and "null_term opt = 1" "length str < n"
  shows "sock_get_string api s opt n w = (Inr str, w')"
  using assms
  by (simp add: sock_get_string_def sock_get_buffer_def get_option_def bnd_def call_def Let_def
      string_at_def nth_append string_resize_def)

theorem string_option_get_witness:
  "sock_get_string list_sock_api \<lparr>sb_handle = 1\<rparr> AO_last_endpoint 1024
     (lib_start\<lparr>lib_opt := \<lambda>_ _. bytes_of_string (''tcp'' @ [CHR 0x00])\<rparr>)
   = (Inr ''tcp'', lib_start\<lparr>lib_opt := \<lambda>_ _. bytes_of_string (''tcp'' @ [CHR 0x00])\<rparr>)"
  by (rule string_option_get) (simp_all add: list_sock_api_simps null_term_def sockopts_defs)

section \<open>Receiving\<close>

text \<open>
  \<open>zmq_recv\<close> and \<open>zmq_msg_recv\<close>: a negative result, or the size of the message that arrived, of which
  \<open>zmq_recv\<close> writes what fits.
\<close>

definition recv_lib :: "('m, 'w, 'x) sock_api_scheme \<Rightarrow> bool" where
  "recv_lib api \<longleftrightarrow>
     (\<forall>h n fl w rc bs w'. zmq_recv api h n fl w = ((rc, bs), w') \<longrightarrow> 0 \<le> rc \<longrightarrow> length bs = min (nat rc) n)
   \<and> (\<forall>h m fl w rc m' w'. zmq_msg_recv api h m fl w = ((rc, m'), w') \<longrightarrow> 0 \<le> rc \<longrightarrow>
        zmq_msg_size api m' = nat rc)"

lemma recv_libD:
  assumes "recv_lib api"
  shows "zmq_recv api h n fl w = ((rc, bs), w') \<Longrightarrow> 0 \<le> rc \<Longrightarrow> length bs = min (nat rc) n"
    and "zmq_msg_recv api h m fl w = ((rc, m'), w') \<Longrightarrow> 0 \<le> rc \<Longrightarrow> zmq_msg_size api m' = nat rc"
  using assms unfolding recv_lib_def by metis+

text \<open>
  Receiving into a buffer has three outcomes: a size, with exactly that many bytes written, never
  past the buffer, and flagged as truncated exactly when the message was longer; nothing, only for
  \<open>EAGAIN\<close>; or the \<open>error_t\<close> of any other \<open>errno\<close>.
\<close>

theorem recv_buffer_outcome:
  assumes "recv_lib api" "sock_recv_buffer api s n fl w = (r, w')"
  shows "case r of
           Inr (Some b, bs) \<Rightarrow> rbs_size b = length bs \<and> length bs \<le> n
             \<and> (recv_truncated b \<longleftrightarrow> n < rbs_untruncated_size b)
             \<and> zmq_recv api (sb_handle s) n fl w = ((int (rbs_untruncated_size b), bs), w')
         | Inr (None, bs) \<Rightarrow> zmq_errno api w' = EAGAIN api
         | Inl e \<Rightarrow> e = ErrorT (zmq_errno api w') \<and> zmq_errno api w' \<noteq> EAGAIN api"
proof -
  obtain rc bs w1 where z: "zmq_recv api (sb_handle s) n fl w = ((rc, bs), w1)" by (metis surj_pair)
  have "0 \<le> rc \<Longrightarrow> length bs = min (nat rc) n" using recv_libD(1) [OF assms(1) z] .
  with assms(2) z show ?thesis
    by (auto simp: sock_recv_buffer_def bnd_def call_def io_result_def recv_truncated_def split: if_splits)
qed

theorem recv_buffer_outcome_witness:
  "case fst (sock_recv_buffer list_sock_api \<lparr>sb_handle = 1\<rparr> 2 0 (lib_start\<lparr>lib_in := [([7, 8, 9], False)]\<rparr>)) of
     Inr (Some b, bs) \<Rightarrow> bs = [7, 8] \<and> recv_truncated b | _ \<Rightarrow> False"
proof -
  let ?w = "lib_start\<lparr>lib_in := [([7, 8, 9], False)]\<rparr>"
  have lib: "recv_lib list_sock_api"
    by (auto simp: recv_lib_def list_sock_api_simps split: prod.splits option.splits)
  obtain r w' where run: "sock_recv_buffer list_sock_api \<lparr>sb_handle = 1\<rparr> 2 0 ?w = (r, w')"
    by (metis surj_pair)
  have "r = Inr (Some \<lparr>rbs_size = 2, rbs_untruncated_size = 3\<rparr>, [7, 8])"
    using run by (simp add: sock_recv_buffer_def list_sock_api_simps lib_recv_def bnd_def call_def
        io_result_def)
  with recv_buffer_outcome [OF lib run] run show ?thesis by simp
qed

text \<open>
  Receiving a message never fails its assertion: the number of bytes returned is the size of the
  message that came in.
\<close>

lemma recv_msg_outcome:
  assumes "recv_lib api"
  shows "\<exists>rc m' w'. zmq_msg_recv api (sb_handle s) m fl w = ((rc, m'), w')
     \<and> sock_recv api s fl (m, w) =
         (if 0 \<le> rc then (Inr (Some (nat rc)), (m', w'))
          else if zmq_errno api w' = EAGAIN api then (Inr None, (m', w'))
          else (Inl (ErrorT (zmq_errno api w')), (m', w')))"
proof -
  obtain rc m' w1 where z: "zmq_msg_recv api (sb_handle s) m fl w = ((rc, m'), w1)" by (metis surj_pair)
  with recv_libD(2) [OF assms z] show ?thesis
    by (auto simp: sock_recv_def bnd_def on_this_def on_lib_def message_size_def)
qed

lemma send_msg_outcome:
  "\<exists>rc m' w'. zmq_msg_send api (sb_handle s) m fl w = ((rc, m'), w')
     \<and> sock_send_msg api s fl (m, w) =
         (if 0 \<le> rc then (Inr (Some (nat rc)), (m', w'))
          else if zmq_errno api w' = EAGAIN api then (Inr None, (m', w'))
          else (Inl (ErrorT (zmq_errno api w')), (m', w')))"
proof -
  obtain rc m' w1 where "zmq_msg_send api (sb_handle s) m fl w = ((rc, m'), w1)" by (metis surj_pair)
  then show ?thesis
    by (auto simp: sock_send_msg_def bnd_def on_this_def on_lib_def io_result_def)
qed

end
