(* ===== verification/ZmqMultipart.thy ===== *)
theory ZmqMultipart
  imports ZmqOptions ZmqCodec
begin

text \<open>
  Multipart messages (\<open>zmq_addon.hpp\<close>): \<open>recv_multipart\<close>, \<open>recv_multipart_n\<close>, \<open>send_multipart\<close> and the
  class \<open>multipart_t\<close>, whose \<open>std::deque<message_t>\<close> is a list of messages. A message moved into or
  out of the deque is the value itself. The receive loops go on as long as parts announce more, so
  they are in the option type; \<open>front\<close>, \<open>back\<close> or an index outside the deque is undefined behaviour.
\<close>

section \<open>\<open>recv_multipart\<close> and \<open>send_multipart\<close>\<close>

text \<open>
  The loop of \<open>detail::recv_multipart_n\<close>. \<open>out\<close> is the container behind a \<open>back_inserter\<close>; the
  variable \<open>msg\<close> is left re-initialised by the move into it.
\<close>

partial_function (option) recv_multipart_loop ::
  "('m, 'w, 'x) sock_api_scheme \<Rightarrow> bool \<Rightarrow> socket_ref \<Rightarrow> nat \<Rightarrow> flags \<Rightarrow> nat \<Rightarrow> 'm \<Rightarrow> 'm list \<Rightarrow> 'w
     \<Rightarrow> (nat option res \<times> 'm list \<times> 'w) option" where
  "recv_multipart_loop api check_n s n fl msg_count msg out w =
     (if check_n \<and> msg_count \<ge> n then
        Some (Inl (RuntimeError ''Too many message parts in recv_multipart_n''), out, w)
      else
        (case sock_recv api s fl (msg, w) of
           (Inl e, (_, w1)) \<Rightarrow> Some (Inl e, out, w1)
         | (Inr None, (_, w1)) \<Rightarrow>
             (if msg_count = 0 then Some (Inr None, out, w1) else Some (Inl (AssertFail ''assert''), out, w1))
         | (Inr (Some _), (msg1, w1)) \<Rightarrow>
             (case message_move_ctor api (msg1, w1) of
                (Inl e, (_, w2)) \<Rightarrow> Some (Inl e, out, w2)
              | (Inr part, (msg2, w2)) \<Rightarrow>
                  (if message_more api msg1
                   then recv_multipart_loop api check_n s n fl (Suc msg_count) msg2 (out @ [part]) w2
                   else Some (Inr (Some (Suc msg_count)), out @ [part], w2)))))"

definition detail_recv_multipart_n ::
  "('m, 'w, 'x) sock_api_scheme \<Rightarrow> bool \<Rightarrow> socket_ref \<Rightarrow> nat \<Rightarrow> flags \<Rightarrow> 'm list \<times> 'w
     \<Rightarrow> (nat option res \<times> 'm list \<times> 'w) option" where
  "detail_recv_multipart_n api check_n s n fl = (\<lambda>(out, w).
     case message_default api w of
       (Inl e, w1) \<Rightarrow> Some (Inl e, out, w1)
     | (Inr msg, w1) \<Rightarrow> recv_multipart_loop api check_n s n fl 0 msg out w1)"

definition recv_multipart ::
  "('m, 'w, 'x) sock_api_scheme \<Rightarrow> socket_ref \<Rightarrow> flags \<Rightarrow> 'm list \<times> 'w
     \<Rightarrow> (nat option res \<times> 'm list \<times> 'w) option" where
  "recv_multipart api s fl = detail_recv_multipart_n api False s 0 fl"

definition recv_multipart_n ::
  "('m, 'w, 'x) sock_api_scheme \<Rightarrow> socket_ref \<Rightarrow> nat \<Rightarrow> flags \<Rightarrow> 'm list \<times> 'w
     \<Rightarrow> (nat option res \<times> 'm list \<times> 'w) option" where
  "recv_multipart_n api s n fl = detail_recv_multipart_n api True s n fl"

text \<open>The loop of \<open>send_multipart\<close>; the messages sent stay in the caller's range (emptied by libzmq).\<close>

fun send_multipart_loop ::
  "('m, 'w, 'x) sock_api_scheme \<Rightarrow> socket_ref \<Rightarrow> flags \<Rightarrow> nat \<Rightarrow> 'm list \<Rightarrow> 'm list \<Rightarrow> 'w
     \<Rightarrow> nat option res \<times> 'm list \<times> 'w" where
  "send_multipart_loop api s fl msg_count sent [] w = (Inr (Some msg_count), sent, w)"
| "send_multipart_loop api s fl msg_count sent (m # ms) w =
     (let msg_flags = send_flags_or fl (if ms = [] then send_flags_none else send_flags_sndmore api) in
      case sock_send_msg api s msg_flags (m, w) of
        (Inl e, (m', w')) \<Rightarrow> (Inl e, sent @ m' # ms, w')
      | (Inr None, (m', w')) \<Rightarrow>
          (if msg_count = 0 then Inr None else Inl (AssertFail ''assert''), sent @ m' # ms, w')
      | (Inr (Some _), (m', w')) \<Rightarrow> send_multipart_loop api s fl (Suc msg_count) (sent @ [m']) ms w')"

text \<open>The same for a range of buffers, which \<open>send\<close> copies.\<close>

fun send_multipart_buffers_loop ::
  "('m, 'w, 'x) sock_api_scheme \<Rightarrow> socket_ref \<Rightarrow> flags \<Rightarrow> nat \<Rightarrow> byte list list \<Rightarrow> ('w, nat option) comp" where
  "send_multipart_buffers_loop api s fl msg_count [] = ret (Some msg_count)"
| "send_multipart_buffers_loop api s fl msg_count (b # bs) =
     (let msg_flags = send_flags_or fl (if bs = [] then send_flags_none else send_flags_sndmore api) in
      bnd (sock_send_buffer api s b msg_flags) (\<lambda>r.
      if r = None then bnd (zmq_assert (msg_count = 0)) (\<lambda>_. ret None)
      else send_multipart_buffers_loop api s fl (Suc msg_count) bs))"

definition send_multipart_buffers ::
  "('m, 'w, 'x) sock_api_scheme \<Rightarrow> socket_ref \<Rightarrow> byte list list \<Rightarrow> flags \<Rightarrow> ('w, nat option) comp" where
  "send_multipart_buffers api s msgs fl = send_multipart_buffers_loop api s fl 0 msgs"

definition send_multipart ::
  "('m, 'w, 'x) sock_api_scheme \<Rightarrow> socket_ref \<Rightarrow> flags \<Rightarrow> 'm list \<times> 'w \<Rightarrow> nat option res \<times> 'm list \<times> 'w" where
  "send_multipart api s fl = (\<lambda>(msgs, w). send_multipart_loop api s fl 0 [] msgs w)"

section \<open>\<open>multipart_t\<close>\<close>

subsection \<open>Access\<close>

definition mp_default :: "'m list" where
  "mp_default = []"

definition mp_index :: "'m list \<Rightarrow> nat \<Rightarrow> 'm res" where
  "mp_index parts n = (if n < length parts then Inr (parts ! n) else Inl (UB ''deque index''))"

definition mp_at :: "'m list \<Rightarrow> nat \<Rightarrow> 'm res" where
  "mp_at parts n = (if n < length parts then Inr (parts ! n) else Inl (OutOfRange ''deque::_M_range_check''))"

text \<open>
  An iterator is a position; a reverse iterator is the position after the element it refers to.
\<close>

definition mp_begin :: "'m list \<Rightarrow> nat" where
  "mp_begin parts = 0"

definition mp_end :: "'m list \<Rightarrow> nat" where
  "mp_end parts = length parts"

definition mp_rbegin :: "'m list \<Rightarrow> nat" where
  "mp_rbegin parts = length parts"

definition mp_rend :: "'m list \<Rightarrow> nat" where
  "mp_rend parts = 0"

definition mp_iter :: "'m list \<Rightarrow> nat \<Rightarrow> 'm res" where
  "mp_iter parts i = mp_index parts i"

definition mp_riter :: "'m list \<Rightarrow> nat \<Rightarrow> 'm res" where
  "mp_riter parts i = (if i = 0 then Inl (UB ''deque rend'') else mp_index parts (i - 1))"

lemma mp_iterate:
  "map (mp_iter parts) [mp_begin parts..<mp_end parts] = map Inr parts"
  by (rule nth_equalityI) (simp_all add: mp_begin_def mp_end_def mp_iter_def mp_index_def)

lemma mp_riterate:
  "map (mp_riter parts) (rev [Suc (mp_rend parts)..<Suc (mp_rbegin parts)]) = map Inr (rev parts)"
  by (rule nth_equalityI) (simp_all add: mp_rbegin_def mp_rend_def mp_riter_def mp_index_def rev_nth del: upt_Suc)

definition mp_clear :: "'m list \<Rightarrow> 'm list" where
  "mp_clear parts = []"

definition mp_size :: "'m list \<Rightarrow> nat" where
  "mp_size parts = length parts"

definition mp_empty :: "'m list \<Rightarrow> bool" where
  "mp_empty parts \<longleftrightarrow> parts = []"

definition mp_push :: "'m \<Rightarrow> 'm list \<Rightarrow> 'm list" where
  "mp_push message parts = message # parts"

definition mp_add :: "'m \<Rightarrow> 'm list \<Rightarrow> 'm list" where
  "mp_add message parts = parts @ [message]"

definition mp_push_back :: "'m \<Rightarrow> 'm list \<Rightarrow> 'm list" where
  "mp_push_back message parts = parts @ [message]"

definition mp_pop :: "'m list \<Rightarrow> ('m \<times> 'm list) res" where
  "mp_pop parts = (case parts of [] \<Rightarrow> Inl (UB ''front'') | m # ms \<Rightarrow> Inr (m, ms))"

definition mp_remove :: "'m list \<Rightarrow> ('m \<times> 'm list) res" where
  "mp_remove parts = (if parts = [] then Inl (UB ''back'') else Inr (last parts, butlast parts))"

definition mp_front :: "'m list \<Rightarrow> 'm res" where
  "mp_front parts = (case parts of [] \<Rightarrow> Inl (UB ''front'') | m # ms \<Rightarrow> Inr m)"

definition mp_back :: "'m list \<Rightarrow> 'm res" where
  "mp_back parts = (if parts = [] then Inl (UB ''back'') else Inr (last parts))"

definition mp_peek :: "'m list \<Rightarrow> nat \<Rightarrow> 'm res" where
  "mp_peek parts i = mp_index parts i"

text \<open>Move construction and assignment: the new object and what is left of \<open>other\<close>.\<close>

definition mp_move_ctor :: "'m list \<Rightarrow> 'm list \<times> 'm list" where
  "mp_move_ctor other = (other, [])"

definition mp_move_assign :: "'m list \<times> 'm list \<Rightarrow> 'm list \<times> 'm list" where
  "mp_move_assign = (\<lambda>(this, other). (other, []))"

definition mp_dtor :: "'m list \<Rightarrow> 'm list" where
  "mp_dtor parts = mp_clear parts"

subsection \<open>Adding contents\<close>

definition mp_pushmem ::
  "('m, 'w, 'x) msg_api_scheme \<Rightarrow> byte list option \<Rightarrow> nat \<Rightarrow> ('m list \<times> 'w, unit) comp" where
  "mp_pushmem api src sz =
     bnd (on_lib (message_of_mem api src sz)) (\<lambda>m. bnd get_this (\<lambda>parts. put_this (mp_push m parts)))"

definition mp_addmem ::
  "('m, 'w, 'x) msg_api_scheme \<Rightarrow> byte list option \<Rightarrow> nat \<Rightarrow> ('m list \<times> 'w, unit) comp" where
  "mp_addmem api src sz =
     bnd (on_lib (message_of_mem api src sz)) (\<lambda>m. bnd get_this (\<lambda>parts. put_this (mp_add m parts)))"

definition mp_pushstr :: "('m, 'w, 'x) msg_api_scheme \<Rightarrow> string \<Rightarrow> ('m list \<times> 'w, unit) comp" where
  "mp_pushstr api str = mp_pushmem api (Some (bytes_of_string str)) (length str)"

definition mp_addstr :: "('m, 'w, 'x) msg_api_scheme \<Rightarrow> string \<Rightarrow> ('m list \<times> 'w, unit) comp" where
  "mp_addstr api str = mp_addmem api (Some (bytes_of_string str)) (length str)"

text \<open>A fixed-size value is its object representation.\<close>

definition mp_pushtyp :: "('m, 'w, 'x) msg_api_scheme \<Rightarrow> byte list \<Rightarrow> ('m list \<times> 'w, unit) comp" where
  "mp_pushtyp api type_rep = mp_pushmem api (Some type_rep) (length type_rep)"

definition mp_addtyp :: "('m, 'w, 'x) msg_api_scheme \<Rightarrow> byte list \<Rightarrow> ('m list \<times> 'w, unit) comp" where
  "mp_addtyp api type_rep = mp_addmem api (Some type_rep) (length type_rep)"

definition mp_of_mem ::
  "('m, 'w, 'x) msg_api_scheme \<Rightarrow> byte list option \<Rightarrow> nat \<Rightarrow> 'w \<Rightarrow> unit res \<times> 'm list \<times> 'w" where
  "mp_of_mem api src sz w = mp_addmem api src sz (mp_default, w)"

definition mp_of_string :: "('m, 'w, 'x) msg_api_scheme \<Rightarrow> string \<Rightarrow> 'w \<Rightarrow> unit res \<times> 'm list \<times> 'w" where
  "mp_of_string api str w = mp_addstr api str (mp_default, w)"

definition mp_of_message :: "'m \<Rightarrow> 'm list" where
  "mp_of_message message = mp_add message mp_default"

definition mp_create :: "('m, 'w, 'x) msg_api_scheme \<Rightarrow> byte list \<Rightarrow> 'w \<Rightarrow> unit res \<times> 'm list \<times> 'w" where
  "mp_create api type_rep w = mp_addtyp api type_rep (mp_default, w)"

subsection \<open>Taking contents\<close>

definition mp_popstr :: "('m, 'w, 'x) msg_api_scheme \<Rightarrow> 'm list \<Rightarrow> (string \<times> 'm list) res" where
  "mp_popstr api parts = rbind (mp_front parts) (\<lambda>m. Inr (message_to_string api m, tl parts))"

definition mp_poptyp :: "('m, 'w, 'x) msg_api_scheme \<Rightarrow> nat \<Rightarrow> 'm list \<Rightarrow> (byte list \<times> 'm list) res" where
  "mp_poptyp api sizeof_T parts = rbind (mp_front parts) (\<lambda>m.
     if sizeof_T \<noteq> message_size api m then
       Inl (RuntimeError ''Invalid type, size does not match the message size'')
     else Inr (take sizeof_T (message_data api m), tl parts))"

definition mp_peekstr :: "('m, 'w, 'x) msg_api_scheme \<Rightarrow> 'm list \<Rightarrow> nat \<Rightarrow> string res" where
  "mp_peekstr api parts i = rbind (mp_index parts i) (\<lambda>m. Inr (message_to_string api m))"

definition mp_peektyp :: "('m, 'w, 'x) msg_api_scheme \<Rightarrow> nat \<Rightarrow> 'm list \<Rightarrow> nat \<Rightarrow> byte list res" where
  "mp_peektyp api sizeof_T parts i = rbind (mp_index parts i) (\<lambda>m.
     if sizeof_T \<noteq> message_size api m then
       Inl (RuntimeError ''Invalid type, size does not match the message size'')
     else Inr (take sizeof_T (message_data api m)))"

subsection \<open>Concatenation and copying\<close>

text \<open>The results are this object and \<open>other\<close> after the loop.\<close>

function mp_prepend :: "'m list \<Rightarrow> 'm list \<Rightarrow> ('m list \<times> 'm list) res" where
  "mp_prepend this other =
     (if \<not> mp_empty other then
        (case mp_remove other of
           Inl e \<Rightarrow> Inl e
         | Inr (m, other') \<Rightarrow> mp_prepend (mp_push m this) other')
      else Inr (this, other))"
  by pat_completeness auto

termination mp_prepend
  by (relation "measure (length \<circ> snd)") (auto simp: mp_empty_def mp_remove_def)

function mp_append :: "'m list \<Rightarrow> 'm list \<Rightarrow> ('m list \<times> 'm list) res" where
  "mp_append this other =
     (if \<not> mp_empty other then
        (case mp_pop other of
           Inl e \<Rightarrow> Inl e
         | Inr (m, other') \<Rightarrow> mp_append (mp_add m this) other')
      else Inr (this, other))"
  by pat_completeness auto

termination mp_append
  by (relation "measure (length \<circ> snd)") (auto simp: mp_empty_def mp_pop_def split: list.splits)

declare mp_prepend.simps [simp del] mp_append.simps [simp del]

text \<open>\<open>clone\<close>: the loop adds a copy of each part's memory to a new multipart.\<close>

fun mp_clone_loop :: "('m, 'w, 'x) msg_api_scheme \<Rightarrow> 'm list \<Rightarrow> ('m list \<times> 'w, unit) comp" where
  "mp_clone_loop api [] = ret ()"
| "mp_clone_loop api (m # ms) =
     bnd (mp_addmem api (Some (message_data api m)) (message_size api m)) (\<lambda>_. mp_clone_loop api ms)"

definition mp_clone :: "('m, 'w, 'x) msg_api_scheme \<Rightarrow> 'm list \<Rightarrow> 'w \<Rightarrow> unit res \<times> 'm list \<times> 'w" where
  "mp_clone api parts w = mp_clone_loop api parts (mp_default, w)"

definition mp_eq :: "('m, 'w, 'x) msg_api_scheme \<Rightarrow> 'm list \<Rightarrow> 'm list \<Rightarrow> bool" where
  "mp_eq api this other =
     (mp_size this = mp_size other \<and> list_all (\<lambda>(a, b). \<not> message_neq api a b) (zip this other))"

definition mp_equal :: "('m, 'w, 'x) msg_api_scheme \<Rightarrow> 'm list \<Rightarrow> 'm list \<Rightarrow> bool" where
  "mp_equal api this other = mp_eq api this other"

definition mp_neq :: "('m, 'w, 'x) msg_api_scheme \<Rightarrow> 'm list \<Rightarrow> 'm list \<Rightarrow> bool" where
  "mp_neq api this other = (\<not> mp_eq api this other)"

definition mp_encode :: "('m, 'w, 'x) msg_api_scheme \<Rightarrow> bool \<Rightarrow> 'm list \<Rightarrow> ('w, 'm) comp" where
  "mp_encode api le parts = encode api le (map (message_data api) parts)"

definition mp_decode_append :: "('m, 'w, 'x) msg_api_scheme \<Rightarrow> bool \<Rightarrow> 'm \<Rightarrow> ('m list \<times> 'w, unit) comp" where
  "mp_decode_append api le encoded = decode api le encoded"

definition mp_decode :: "('m, 'w, 'x) msg_api_scheme \<Rightarrow> bool \<Rightarrow> 'm \<Rightarrow> ('w, 'm list) comp" where
  "mp_decode api le encoded w =
     (case decode api le encoded (mp_default, w) of
        (Inl e, (_, w')) \<Rightarrow> (Inl e, w')
      | (Inr _, (tmp, w')) \<Rightarrow> (Inr tmp, w'))"

subsection \<open>The dump\<close>

definition mp_text_byte :: "byte \<Rightarrow> bool" where
  "mp_text_byte b \<longleftrightarrow> \<not> (b < 32 \<or> b > 127)"

definition mp_str_part :: "('m, 'w, 'x) msg_api_scheme \<Rightarrow> 'm \<Rightarrow> string" where
  "mp_str_part api m =
     (let dat = take (message_size api m) (message_data api m);
          sz = message_size api m;
          is_text = list_all mp_text_byte dat
      in CHR 0x0A # ''['' @ setw0 3 (show_nat sz) @ ''] '' @
         (if sz \<ge> 1000 then ''... (too big to print)''
          else concat (map (\<lambda>b. if is_text then [char_of (unat b)]
                                else setw0 2 (show_base lower_digits 16 (unat b))) dat)))"

definition mp_str :: "('m, 'w, 'x) msg_api_scheme \<Rightarrow> 'm list \<Rightarrow> string" where
  "mp_str api parts = concat (map (mp_str_part api) parts)"

definition mp_ostream :: "('m, 'w, 'x) msg_api_scheme \<Rightarrow> string \<Rightarrow> 'm list \<Rightarrow> string" where
  "mp_ostream api os msg = os @ mp_str api msg"

subsection \<open>Sockets\<close>

text \<open>\<open>recv\<close> clears the object, then adds parts while they announce more.\<close>

partial_function (option) mp_recv_loop ::
  "('m, 'w, 'x) sock_api_scheme \<Rightarrow> socket_ref \<Rightarrow> flags \<Rightarrow> 'm list \<Rightarrow> 'w
     \<Rightarrow> (bool res \<times> 'm list \<times> 'w) option" where
  "mp_recv_loop api s fl parts w =
     (case message_default api w of
        (Inl e, w1) \<Rightarrow> Some (Inl e, parts, w1)
      | (Inr message, w1) \<Rightarrow>
          (case sock_recv api s fl (message, w1) of
             (Inl e, (_, w2)) \<Rightarrow> Some (Inl e, parts, w2)
           | (Inr None, (_, w2)) \<Rightarrow> Some (Inr False, parts, w2)
           | (Inr (Some _), (message', w2)) \<Rightarrow>
               (if message_more api message'
                then mp_recv_loop api s fl (mp_add message' parts) w2
                else Some (Inr True, mp_add message' parts, w2))))"

definition mp_recv ::
  "('m, 'w, 'x) sock_api_scheme \<Rightarrow> socket_ref \<Rightarrow> flags \<Rightarrow> 'm list \<times> 'w \<Rightarrow> (bool res \<times> 'm list \<times> 'w) option" where
  "mp_recv api s fl = (\<lambda>(parts, w). mp_recv_loop api s fl (mp_clear parts) w)"

definition mp_of_socket ::
  "('m, 'w, 'x) sock_api_scheme \<Rightarrow> socket_ref \<Rightarrow> 'w \<Rightarrow> (bool res \<times> 'm list \<times> 'w) option" where
  "mp_of_socket api s w = mp_recv api s 0 (mp_default, w)"

text \<open>\<open>send\<close> pops each part before it is sent.\<close>

fun mp_send_loop ::
  "('m, 'w, 'x) sock_api_scheme \<Rightarrow> socket_ref \<Rightarrow> flags \<Rightarrow> 'm list \<Rightarrow> 'w \<Rightarrow> bool res \<times> 'm list \<times> 'w" where
  "mp_send_loop api s fl [] w = (Inr True, mp_clear [], w)"
| "mp_send_loop api s fl (message # parts) w =
     (let more = mp_size parts > 0 in
      case sock_send_msg api s ((if more then ZMQ_SNDMORE api else 0) OR fl) (message, w) of
        (Inl e, (_, w')) \<Rightarrow> (Inl e, parts, w')
      | (Inr None, (_, w')) \<Rightarrow> (Inr False, parts, w')
      | (Inr (Some _), (_, w')) \<Rightarrow> mp_send_loop api s fl parts w')"

definition mp_send ::
  "('m, 'w, 'x) sock_api_scheme \<Rightarrow> socket_ref \<Rightarrow> flags \<Rightarrow> 'm list \<times> 'w \<Rightarrow> bool res \<times> 'm list \<times> 'w" where
  "mp_send api s fl = (\<lambda>(parts, w). mp_send_loop api s (fl AND NOT (ZMQ_SNDMORE api)) parts w)"

section \<open>The deque\<close>

text \<open>
  A double-ended queue of parts, by what its operations do to one another; a queue filled at one end
  is drained in the order of arrival from the other, and in reverse from the same end.
\<close>

locale part_deque =
  fixes nil :: "'q"
    and push add :: "'m \<Rightarrow> 'q \<Rightarrow> 'q"
    and pop remove :: "'q \<Rightarrow> ('m \<times> 'q) res"
  assumes pop_push: "pop (push m q) = Inr (m, q)"
    and remove_add: "remove (add m q) = Inr (m, q)"
    and push_nil: "push m nil = add m nil"
    and push_add: "push m (add n q) = add n (push m q)"
begin

fun drain :: "('q \<Rightarrow> ('m \<times> 'q) res) \<Rightarrow> nat \<Rightarrow> 'q \<Rightarrow> ('m list \<times> 'q) res" where
  "drain take_out 0 q = Inr ([], q)"
| "drain take_out (Suc n) q = rbind (take_out q) (\<lambda>(m, q').
     rbind (drain take_out n q') (\<lambda>(ms, q''). Inr (m # ms, q'')))"

lemma pop_all_pushed: "drain pop (length ms) (foldr push ms q) = Inr (ms, q)"
  by (induction ms) (simp_all add: pop_push)

lemma remove_all_added: "drain remove (length ms) (foldr add ms q) = Inr (ms, q)"
  by (induction ms) (simp_all add: remove_add)

lemma fold_add_push: "fold add ms (push m q) = push m (fold add ms q)"
  by (induction ms arbitrary: q) (simp_all add: push_add [symmetric])

lemma fold_add_foldr_push: "fold add ms nil = foldr push ms nil"
  by (induction ms) (simp_all add: push_nil [symmetric] fold_add_push)

lemma fifo: "drain pop (length ms) (fold add ms nil) = Inr (ms, nil)"
  by (simp add: fold_add_foldr_push pop_all_pushed)

lemma fold_push_foldr_add: "fold push ms nil = foldr add ms nil"
proof -
  have "fold push ms (add n q) = add n (fold push ms q)" for ms n q
    by (induction ms arbitrary: q) (simp_all add: push_add)
  then show ?thesis
    by (induction ms) (simp_all only: fold_simps foldr.simps id_apply comp_apply push_nil)
qed

lemma fifo_back: "drain remove (length ms) (fold push ms nil) = Inr (ms, nil)"
  by (simp add: fold_push_foldr_add remove_all_added)

end

interpretation mpq: part_deque mp_default mp_push mp_add mp_pop mp_remove
  by unfold_locales
    (simp_all add: mp_push_def mp_add_def mp_pop_def mp_remove_def mp_default_def)

lemma mp_prepend_eq: "mp_prepend this other = Inr (other @ this, [])"
proof (induction other arbitrary: this rule: rev_induct)
  case (snoc m other)
  then show ?case
    by (subst mp_prepend.simps) (simp add: mp_empty_def mp_remove_def mp_push_def)
qed (subst mp_prepend.simps, simp add: mp_empty_def)

lemma mp_append_eq: "mp_append this other = Inr (this @ other, [])"
proof (induction other arbitrary: this)
  case (Cons m other)
  then show ?case
    by (subst mp_append.simps) (simp add: mp_empty_def mp_pop_def mp_add_def)
qed (subst mp_append.simps, simp add: mp_empty_def)

text \<open>
  Concatenation: \<open>prepend\<close> puts the parts of the other message before this one's and \<open>append\<close>
  after them, both in their order, both emptying the other; the loops end. Parts added are popped
  in the order they were added, parts pushed are removed from the back in the order they were pushed.
\<close>

theorem multipart_concat:
  "mp_prepend this other = Inr (other @ this, []) \<and> mp_append this other = Inr (this @ other, [])
   \<and> mpq.drain mp_pop (length ms) (fold mp_add ms mp_default) = Inr (ms, mp_default)
   \<and> mpq.drain mp_remove (length ms) (fold mp_push ms mp_default) = Inr (ms, mp_default)"
  by (simp add: mp_prepend_eq mp_append_eq mpq.fifo mpq.fifo_back)

section \<open>Copies\<close>

lemma mp_addmem_run:
  assumes "msg_api_ok api" "msg_memory api" "n \<le> length bs"
  shows "\<exists>m w'. mp_addmem api (Some bs) n (parts, w) = (Inr (), (parts @ [m], w'))
    \<and> zmq_msg_data api m = take n bs"
proof -
  obtain m w' where "message_of_mem api (Some bs) n w = (Inr m, w')"
    using message_of_mem_total [OF assms(2,3)] by blast
  with message_of_mem_Inr [OF assms(1) this assms(3)] show ?thesis
    by (simp add: mp_addmem_def bnd_def on_lib_def mp_add_def)
qed

lemma mp_clone_loop_run:
  assumes "msg_api_ok api" "msg_memory api"
  shows "\<exists>ps' w'. mp_clone_loop api parts (acc, w) = (Inr (), (acc @ ps', w'))
    \<and> map (zmq_msg_data api) ps' = map (zmq_msg_data api) parts"
proof (induction parts arbitrary: acc w)
  case (Cons m ms)
  have l: "length (zmq_msg_data api m) = zmq_msg_size api m" by (rule length_message_data [OF assms(1)])
  obtain m' w1 where a: "mp_addmem api (Some (message_data api m)) (message_size api m) (acc, w)
      = (Inr (), (acc @ [m'], w1))" "zmq_msg_data api m' = zmq_msg_data api m"
    using mp_addmem_run [OF assms, of "message_size api m" "message_data api m" acc w] l
    by (auto simp: message_size_def message_data_def)
  obtain ps' w' where "mp_clone_loop api ms (acc @ [m'], w1) = (Inr (), ((acc @ [m']) @ ps', w'))"
    "map (zmq_msg_data api) ps' = map (zmq_msg_data api) ms"
    using Cons.IH by blast
  with a show ?case
    by (intro exI [of _ "m' # ps'"] exI [of _ w']) (simp add: bnd_def)
qed simp

lemma mp_eq_data:
  "msg_api_ok api \<Longrightarrow> mp_eq api ps qs \<longleftrightarrow> map (message_data api) ps = map (message_data api) qs"
proof -
  assume ok: "msg_api_ok api"
  have "length ps = length qs \<Longrightarrow> list_all (\<lambda>(a, b). \<not> message_neq api a b) (zip ps qs)
      \<longleftrightarrow> map (message_data api) ps = map (message_data api) qs"
    by (induction ps qs rule: list_induct2)
      (auto simp: message_neq_def message_eq_data [OF ok] message_data_def)
  then show ?thesis
    by (auto simp: mp_eq_def mp_size_def dest: map_eq_imp_length_eq)
qed

text \<open>
  \<open>clone\<close> makes an equal multipart of new messages (with memory available), and \<open>==\<close> holds exactly
  when the contents of the parts are the same, in order.
\<close>

theorem multipart_clone:
  assumes "msg_api_ok api" "msg_memory api"
  shows "\<exists>ps' w'. mp_clone api parts w = (Inr (), ps', w') \<and> mp_eq api ps' parts
    \<and> (\<forall>qs. mp_eq api ps' qs \<longleftrightarrow> map (message_data api) qs = map (message_data api) parts)"
proof -
  obtain ps' w' where "mp_clone_loop api parts ([], w) = (Inr (), ([] @ ps', w'))"
    "map (zmq_msg_data api) ps' = map (zmq_msg_data api) parts"
    using mp_clone_loop_run [OF assms] by blast
  then show ?thesis
    by (auto simp: mp_clone_def mp_default_def mp_eq_data [OF assms(1)] message_data_def [abs_def])
qed

theorem multipart_clone_witness:
  "\<exists>ps' w'. mp_clone list_msg_api [([1, 2], True), ([], False)] 0 = (Inr (), ps', w')
    \<and> mp_eq list_msg_api ps' [([1, 2], True), ([], False)]"
  using multipart_clone [OF list_msg_api_ok list_msg_memory, of "[([1, 2], True), ([], False)]" 0] by blast

section \<open>Sending and receiving over a socket\<close>

text \<open>
  What libzmq documents for a connected socket with the handle \<open>h\<close>: incoming parts come out of a
  queue \<open>inq\<close> with their content and more flag; a part sent (the peer accepting it) joins the
  queue \<open>outq\<close>, marked when \<open>ZMQ_SNDMORE\<close> is given.
\<close>

definition transport ::
  "('m, 'w, 'x) sock_api_scheme \<Rightarrow> ptr \<Rightarrow> ('w \<Rightarrow> (byte list \<times> bool) list)
     \<Rightarrow> ('w \<Rightarrow> (byte list \<times> bool) list) \<Rightarrow> bool" where
  "transport api h inq outq \<longleftrightarrow>
     (\<forall>w rc m w'. zmq_msg_init api w = ((rc, m), w') \<longrightarrow> inq w' = inq w \<and> outq w' = outq w)
   \<and> (\<forall>m fl w bs more rest. inq w = (bs, more) # rest \<longrightarrow>
        (\<exists>m' w'. zmq_msg_recv api h m fl w = ((int (length bs), m'), w') \<and> zmq_msg_data api m' = bs
           \<and> (zmq_msg_more api m' \<noteq> 0 \<longleftrightarrow> more) \<and> inq w' = rest))
   \<and> (\<forall>m fl w. \<exists>m' w'. zmq_msg_send api h m fl w = ((int (zmq_msg_size api m), m'), w')
        \<and> outq w' = outq w @ [(zmq_msg_data api m, fl AND ZMQ_SNDMORE api \<noteq> 0)])
   \<and> ZMQ_SNDMORE api \<noteq> 0"

text \<open>A multipart message on the wire: every part but the last announces more.\<close>

fun wire :: "byte list list \<Rightarrow> (byte list \<times> bool) list" where
  "wire [] = []"
| "wire (p # ps) = (p, ps \<noteq> []) # wire ps"

text \<open>The receiving half alone: what a socket that only receives relies on.\<close>

definition inbound ::
  "('m, 'w, 'x) sock_api_scheme \<Rightarrow> ptr \<Rightarrow> ('w \<Rightarrow> (byte list \<times> bool) list) \<Rightarrow> bool" where
  "inbound api h inq \<longleftrightarrow>
     (\<forall>w rc m w'. zmq_msg_init api w = ((rc, m), w') \<longrightarrow> inq w' = inq w)
   \<and> (\<forall>m fl w bs more rest. inq w = (bs, more) # rest \<longrightarrow>
        (\<exists>m' w'. zmq_msg_recv api h m fl w = ((int (length bs), m'), w') \<and> zmq_msg_data api m' = bs
           \<and> (zmq_msg_more api m' \<noteq> 0 \<longleftrightarrow> more) \<and> inq w' = rest))"

lemma transport_inbound: "transport api h inq outq \<Longrightarrow> inbound api h inq"
  unfolding transport_def inbound_def by blast

lemma inbound_init: "inbound api h inq \<Longrightarrow> zmq_msg_init api w = ((rc, m), w') \<Longrightarrow> inq w' = inq w"
  unfolding inbound_def by metis

lemma inbound_recv:
  assumes "inbound api (sb_handle s) inq" "msg_api_ok api" "inq w = (bs, mo) # rest"
  shows "\<exists>m' w'. sock_recv api s fl (m, w) = (Inr (Some (length bs)), (m', w'))
    \<and> message_data api m' = bs \<and> message_more api m' = mo \<and> inq w' = rest"
proof -
  obtain m' w' where "zmq_msg_recv api (sb_handle s) m fl w = ((int (length bs), m'), w')"
    "zmq_msg_data api m' = bs" "zmq_msg_more api m' \<noteq> 0 \<longleftrightarrow> mo" "inq w' = rest"
    using assms(1,3) unfolding inbound_def by metis
  with length_message_data [OF assms(2), of m'] show ?thesis
    by (simp add: sock_recv_def bnd_def on_this_def message_size_def message_data_def message_more_def)
qed

lemma inbound_default:
  assumes "inbound api h inq" "msg_api_ok api"
  shows "\<exists>m w'. message_default api w = (Inr m, w') \<and> inq w' = inq w"
proof -
  obtain rc m w' where "zmq_msg_init api w = ((rc, m), w')" by (metis surj_pair)
  with inbound_init [OF assms(1) this] msg_initD [OF assms(2) this] show ?thesis
    by (simp add: message_default_def bnd_def call_def)
qed

lemmas transport_recv = inbound_recv [OF transport_inbound]
lemmas transport_default = inbound_default [OF transport_inbound]

lemma transport_send:
  assumes "transport api (sb_handle s) inq outq"
  shows "\<exists>n m' w'. sock_send_msg api s fl (m, w) = (Inr (Some n), (m', w'))
    \<and> outq w' = outq w @ [(message_data api m, fl AND ZMQ_SNDMORE api \<noteq> 0)]"
proof -
  obtain m' w' where "zmq_msg_send api (sb_handle s) m fl w = ((int (zmq_msg_size api m), m'), w')"
    "outq w' = outq w @ [(zmq_msg_data api m, fl AND ZMQ_SNDMORE api \<noteq> 0)]"
    using assms unfolding transport_def by metis
  then show ?thesis
    by (simp add: sock_send_msg_def bnd_def on_this_def on_lib_def io_result_def message_data_def)
qed

lemma sndmore_bit [simp]: "(ZMQ_SNDMORE api OR fl) AND ZMQ_SNDMORE api = ZMQ_SNDMORE api"
  by (simp add: bit_eq_iff bit_simps)

lemma or_sndmore_bit: "(fl OR ZMQ_SNDMORE api) AND ZMQ_SNDMORE api = ZMQ_SNDMORE api"
  by (simp add: bit_eq_iff bit_simps)

lemma sndmore_cleared [simp]: "(fl AND NOT (ZMQ_SNDMORE api)) AND ZMQ_SNDMORE api = 0"
  by (simp add: bit_eq_iff bit_simps)

lemma mp_send_loop_wire:
  assumes "transport api (sb_handle s) inq outq" "fl AND ZMQ_SNDMORE api = 0"
  shows "\<exists>w'. mp_send_loop api s fl parts w = (Inr True, [], w')
    \<and> outq w' = outq w @ wire (map (message_data api) parts)"
proof (induction parts arbitrary: w)
  case (Cons m ms)
  let ?fl = "(if mp_size ms > 0 then ZMQ_SNDMORE api else 0) OR fl"
  obtain n m' w1 where s: "sock_send_msg api s ?fl (m, w) = (Inr (Some n), (m', w1))"
    "outq w1 = outq w @ [(message_data api m, ?fl AND ZMQ_SNDMORE api \<noteq> 0)]"
    using transport_send [OF assms(1)] by blast
  have "ZMQ_SNDMORE api \<noteq> 0" using assms(1) by (simp add: transport_def)
  with assms(2) have "?fl AND ZMQ_SNDMORE api \<noteq> 0 \<longleftrightarrow> ms \<noteq> []"
    by (simp add: mp_size_def)
  with s Cons.IH [of w1] show ?case by (auto simp: Let_def)
qed (simp add: mp_clear_def)

lemma mp_recv_loop_wire:
  assumes "transport api (sb_handle s) inq outq" "msg_api_ok api"
  shows "ps \<noteq> [] \<Longrightarrow> inq w = wire ps @ rest \<Longrightarrow>
    \<exists>ms w'. mp_recv_loop api s fl acc w = Some (Inr True, acc @ ms, w')
      \<and> map (message_data api) ms = ps \<and> inq w' = rest"
proof (induction ps arbitrary: acc w)
  case (Cons p ps)
  obtain m w1 where d: "message_default api w = (Inr m, w1)" "inq w1 = inq w"
    using transport_default [OF assms] by blast
  with Cons.prems obtain m' w2 where r: "sock_recv api s fl (m, w1) = (Inr (Some (length p)), (m', w2))"
    "message_data api m' = p" "message_more api m' \<longleftrightarrow> ps \<noteq> []" "inq w2 = wire ps @ rest"
    using transport_recv [OF assms, of w1 p "ps \<noteq> []" "wire ps @ rest" fl m] by auto
  show ?case
  proof (cases "ps = []")
    case True
    with d r show ?thesis
      by (intro exI [of _ "[m']"] exI [of _ w2])
        (subst mp_recv_loop.simps, simp add: mp_add_def)
  next
    case False
    with Cons.IH [OF _ r(4)] obtain ms w' where
      "mp_recv_loop api s fl (acc @ [m']) w2 = Some (Inr True, (acc @ [m']) @ ms, w')"
      "map (message_data api) ms = ps" "inq w' = rest" by blast
    with d r False show ?thesis
      by (intro exI [of _ "m' # ms"] exI [of _ w'])
        (subst mp_recv_loop.simps, simp add: mp_add_def)
  qed
qed simp

text \<open>
  C26. What \<open>multipart_t::send\<close> puts on the wire \<open>multipart_t::recv\<close> reads back: \<open>send\<close> returns true and
  leaves the object empty, having sent the parts in order, all but the last with the more flag, whatever
  flags the caller gave; \<open>recv\<close> on a peer whose queue starts with those parts returns (it never waits
  for another part), replaces its old contents by exactly them and takes nothing else from the queue.
\<close>

theorem multipart_send_recv:
  assumes "transport api (sb_handle s) inq outq" "msg_api_ok api" "parts \<noteq> []"
  shows "\<exists>w1. mp_send api s fl (parts, w) = (Inr True, [], w1)
    \<and> outq w1 = outq w @ wire (map (message_data api) parts)
    \<and> (\<forall>w2 old rest fl'. inq w2 = wire (map (message_data api) parts) @ rest \<longrightarrow>
         (\<exists>ms w3. mp_recv api s fl' (old, w2) = Some (Inr True, ms, w3)
            \<and> map (message_data api) ms = map (message_data api) parts \<and> inq w3 = rest))"
proof -
  obtain w1 where "mp_send api s fl (parts, w) = (Inr True, [], w1)"
    "outq w1 = outq w @ wire (map (message_data api) parts)"
    using mp_send_loop_wire [OF assms(1) sndmore_cleared, of fl parts w] by (auto simp: mp_send_def)
  moreover have "\<exists>ms w3. mp_recv api s fl' (old, w2) = Some (Inr True, ms, w3)
      \<and> map (message_data api) ms = map (message_data api) parts \<and> inq w3 = rest"
    if "inq w2 = wire (map (message_data api) parts) @ rest" for w2 old rest fl'
    using mp_recv_loop_wire [OF assms(1,2) _ that, of fl' "[]"] assms(3)
    by (auto simp: mp_recv_def mp_clear_def)
  ultimately show ?thesis by blast
qed

lemma list_sock_msg_ok: "msg_api_ok list_sock_api"
  by (auto simp: msg_api_ok_def list_sock_api_simps)

lemma list_transport: "transport list_sock_api h lib_in lib_out"
  by (auto simp: transport_def list_sock_api_simps lib_recv_def lib_send_def)

lemmas list_inbound = transport_inbound [OF list_transport]

theorem multipart_send_recv_witness:
  "\<exists>w1. mp_send list_sock_api \<lparr>sb_handle = 1\<rparr> 2 ([([5], False), ([6, 7], False)], lib_start) = (Inr True, [], w1)
    \<and> lib_out w1 = [([5], True), ([6, 7], False)]"
  using multipart_send_recv [of list_sock_api "\<lparr>sb_handle = 1\<rparr>" lib_in lib_out
      "[([5], False), ([6, 7], False)]" 2 lib_start, OF list_transport list_sock_msg_ok]
  by (auto simp: lib_start_def message_data_def list_sock_api_simps)

section \<open>The free functions\<close>

lemma wire_simps [simp]:
  "length (wire ps) = length ps"
  "wire ps = [] \<longleftrightarrow> ps = []"
  by (induction ps) auto

lemma message_move_ctor_run:
  assumes "inbound api h inq" "msg_api_ok api"
  shows "\<exists>m' w'. message_move_ctor api (m, w) = (Inr m, (m', w')) \<and> inq w' = inq w"
proof -
  obtain rc m' w' where "zmq_msg_init api w = ((rc, m'), w')" by (metis surj_pair)
  with inbound_init [OF assms(1) this] msg_initD [OF assms(2) this] show ?thesis
    by (simp add: message_move_ctor_def bnd_def on_this_def)
qed

text \<open>The parts written and the parts left on the socket, with a limit \<open>n\<close> and without one.\<close>

lemma recv_multipart_loop_wire:
  assumes "inbound api (sb_handle s) inq" "msg_api_ok api"
  shows "ps \<noteq> [] \<Longrightarrow> inq w = wire ps @ rest \<Longrightarrow> check_n \<longrightarrow> cnt \<le> n \<Longrightarrow>
    k = (if check_n then n - cnt else length ps) \<Longrightarrow>
    \<exists>ms w'. recv_multipart_loop api check_n s n fl cnt msg out w =
        Some (if length ps \<le> k then Inr (Some (cnt + length ps))
              else Inl (RuntimeError ''Too many message parts in recv_multipart_n''), out @ ms, w')
      \<and> map (message_data api) ms = take k ps \<and> inq w' = drop k (wire ps) @ rest"
proof (induction ps arbitrary: cnt k msg out w)
  case (Cons p ps)
  show ?case
  proof (cases "check_n \<and> n \<le> cnt")
    case True
    with Cons.prems show ?thesis
      by (intro exI [of _ "[]"] exI [of _ w]) (subst recv_multipart_loop.simps, simp)
  next
    case False
    then obtain k' where k: "k = Suc k'" "k' = (if check_n then n - Suc cnt else length ps)"
      using Cons.prems(4) by (cases check_n; cases k) auto
    from Cons.prems obtain m' w1 where r: "sock_recv api s fl (msg, w) = (Inr (Some (length p)), (m', w1))"
      "message_data api m' = p" "message_more api m' \<longleftrightarrow> ps \<noteq> []" "inq w1 = wire ps @ rest"
      using inbound_recv [OF assms, of w p "ps \<noteq> []" "wire ps @ rest" fl msg] by auto
    obtain m2 w2 where m: "message_move_ctor api (m', w1) = (Inr m', (m2, w2))" "inq w2 = inq w1"
      using message_move_ctor_run [OF assms] by blast
    show ?thesis
    proof (cases "ps = []")
      case True
      with r m False k show ?thesis
        by (intro exI [of _ "[m']"] exI [of _ w2]) (subst recv_multipart_loop.simps, auto)
    next
      case ps: False
      from r(4) m(2) have "inq w2 = wire ps @ rest" by simp
      moreover have "check_n \<longrightarrow> Suc cnt \<le> n" using False by auto
      ultimately obtain ms w' where
        "recv_multipart_loop api check_n s n fl (Suc cnt) m2 (out @ [m']) w2 =
          Some (if length ps \<le> k' then Inr (Some (Suc cnt + length ps))
                else Inl (RuntimeError ''Too many message parts in recv_multipart_n''), (out @ [m']) @ ms, w')"
        "map (message_data api) ms = take k' ps" "inq w' = drop k' (wire ps) @ rest"
        using Cons.IH [OF ps _ _ k(2)] by blast
      with r m False ps k(1) show ?thesis
        by (intro exI [of _ "m' # ms"] exI [of _ w']) (subst recv_multipart_loop.simps, auto)
    qed
  qed
qed simp

lemma detail_recv_multipart_wire:
  assumes "inbound api (sb_handle s) inq" "msg_api_ok api" "ps \<noteq> []" "inq w = wire ps @ rest"
    and "k = (if check_n then n else length ps)"
  shows "\<exists>ms w'. detail_recv_multipart_n api check_n s n fl (out, w) =
        Some (if length ps \<le> k then Inr (Some (length ps))
              else Inl (RuntimeError ''Too many message parts in recv_multipart_n''), out @ ms, w')
      \<and> map (message_data api) ms = take k ps \<and> inq w' = drop k (wire ps) @ rest"
proof -
  obtain m w1 where d: "message_default api w = (Inr m, w1)" "inq w1 = inq w"
    using inbound_default [OF assms(1,2)] by blast
  have "inq w1 = wire ps @ rest" "check_n \<longrightarrow> 0 \<le> n" "k = (if check_n then n - 0 else length ps)"
    using d(2) assms(4,5) by simp_all
  from recv_multipart_loop_wire [OF assms(1,2,3) this, of fl m out] d(1)
  show ?thesis by (cases "length ps \<le> k") (simp_all add: detail_recv_multipart_n_def)
qed

text \<open>
  C28. \<open>recv_multipart_n\<close> returns the number of parts of the message when it has at most \<open>n\<close>; otherwise
  it throws \<open>runtime_error\<close> after exactly \<open>n\<close> parts have been written to the output, in order, and
  leaves the other parts on the socket. It always returns.
\<close>

theorem recv_multipart_n_limit:
  assumes "transport api (sb_handle s) inq outq" "msg_api_ok api" "ps \<noteq> []" "inq w = wire ps @ rest"
  shows "\<exists>ms w'. recv_multipart_n api s n fl (out, w) =
        Some (if length ps \<le> n then Inr (Some (length ps))
              else Inl (RuntimeError ''Too many message parts in recv_multipart_n''), out @ ms, w')
      \<and> map (message_data api) ms = take n ps \<and> inq w' = drop n (wire ps) @ rest"
  using detail_recv_multipart_wire [OF transport_inbound [OF assms(1)] assms(2,3,4), of n True n fl out] by (simp add: recv_multipart_n_def)

theorem recv_multipart_n_limit_witness:
  "\<exists>ms w'. recv_multipart_n list_sock_api \<lparr>sb_handle = 1\<rparr> 1 0
        ([], lib_start\<lparr>lib_in := wire [[1], [2]] @ []\<rparr>) =
        Some (Inl (RuntimeError ''Too many message parts in recv_multipart_n''), ms, w')
      \<and> lib_in w' = [([2], False)]"
  using recv_multipart_n_limit [of list_sock_api "\<lparr>sb_handle = 1\<rparr>" lib_in lib_out "[[1], [2]]"
      "lib_start\<lparr>lib_in := wire [[1], [2]] @ []\<rparr>" "[]" 1 0 "[]", OF list_transport list_sock_msg_ok]
  by auto

text \<open>The beginning of a multipart message: whether the last part, too, announces more is up to the caller.\<close>

fun wire_open :: "bool \<Rightarrow> byte list list \<Rightarrow> (byte list \<times> bool) list" where
  "wire_open mo [] = []"
| "wire_open mo (p # ps) = (p, ps \<noteq> [] \<or> mo) # wire_open mo ps"

lemma wire_open_append: "wire_open (qs \<noteq> []) ps @ wire qs = wire (ps @ qs)"
  by (induction ps) auto

lemma wire_open_parts: "map fst (wire_open mo ps) = ps"
  by (induction ps) simp_all

lemma wire_open_flag: "i < length ps \<Longrightarrow> snd (wire_open mo ps ! i) \<longleftrightarrow> Suc i < length ps \<or> mo"
  by (induction ps arbitrary: i) (auto simp: nth_Cons split: nat.split)

lemma send_multipart_loop_wire:
  assumes "transport api (sb_handle s) inq outq"
  shows "\<exists>sent' w'. send_multipart_loop api s fl cnt sent msgs w
      = (Inr (Some (cnt + length msgs)), sent @ sent', w')
    \<and> length sent' = length msgs
    \<and> outq w' = outq w @ wire_open (fl AND ZMQ_SNDMORE api \<noteq> 0) (map (message_data api) msgs)"
proof (induction msgs arbitrary: cnt sent w)
  case (Cons m ms)
  let ?fl = "send_flags_or fl (if ms = [] then send_flags_none else send_flags_sndmore api)"
  obtain n m' w1 where s: "sock_send_msg api s ?fl (m, w) = (Inr (Some n), (m', w1))"
    "outq w1 = outq w @ [(message_data api m, ?fl AND ZMQ_SNDMORE api \<noteq> 0)]"
    using transport_send [OF assms] by blast
  have "ZMQ_SNDMORE api \<noteq> 0" using assms by (simp add: transport_def)
  then have fl: "?fl AND ZMQ_SNDMORE api \<noteq> 0 \<longleftrightarrow> ms \<noteq> [] \<or> fl AND ZMQ_SNDMORE api \<noteq> 0"
    by (simp add: flag_ops send_flags_none_def send_flags_sndmore_def or_sndmore_bit)
  obtain sent' w' where "send_multipart_loop api s fl (Suc cnt) (sent @ [m']) ms w1
      = (Inr (Some (Suc cnt + length ms)), (sent @ [m']) @ sent', w')"
    "length sent' = length ms"
    "outq w' = outq w1 @ wire_open (fl AND ZMQ_SNDMORE api \<noteq> 0) (map (message_data api) ms)"
    using Cons.IH by blast
  with s fl show ?case
    by (intro exI [of _ "m' # sent'"] exI [of _ w']) (simp add: Let_def)
qed simp

text \<open>
  C27. \<open>send_multipart\<close> sends exactly the messages of the range, in order, and returns their number. All but
  the last have the more flag; the last has it if and only if the caller's flags have \<open>sndmore\<close>, to announce
  parts \<open>ps\<close> that follow after the call. \<open>recv_multipart\<close> on a queue that starts with what was sent and, then,
  with these parts, appends the contents of all of them to the output, returns their number and leaves the
  rest of the queue; it always returns.
\<close>

theorem send_recv_multipart:
  assumes "transport api (sb_handle s) inq outq" "msg_api_ok api" "msgs \<noteq> []"
  shows "\<exists>sent w1 sending. send_multipart api s fl (msgs, w) = (Inr (Some (length msgs)), sent, w1)
    \<and> outq w1 = outq w @ sending \<and> map fst sending = map (message_data api) msgs
    \<and> (\<forall>i < length msgs. snd (sending ! i) \<longleftrightarrow> Suc i < length msgs \<or> fl AND ZMQ_SNDMORE api \<noteq> 0)
    \<and> (\<forall>w2 out ps rest fl'. (ps \<noteq> [] \<longleftrightarrow> fl AND ZMQ_SNDMORE api \<noteq> 0) \<longrightarrow> inq w2 = sending @ wire ps @ rest \<longrightarrow>
         (\<exists>ms w3. recv_multipart api s fl' (out, w2) = Some (Inr (Some (length msgs + length ps)), out @ ms, w3)
            \<and> map (message_data api) ms = map (message_data api) msgs @ ps \<and> inq w3 = rest))"
proof -
  let ?more = "fl AND ZMQ_SNDMORE api \<noteq> 0" and ?ds = "map (message_data api) msgs"
  have "\<exists>sent w1. send_multipart api s fl (msgs, w) = (Inr (Some (length msgs)), sent, w1)
      \<and> outq w1 = outq w @ wire_open ?more ?ds"
    using send_multipart_loop_wire [OF assms(1), of fl 0 "[]" msgs w] by (auto simp: send_multipart_def)
  moreover have "\<exists>ms w3. recv_multipart api s fl' (out, w2) = Some (Inr (Some (length msgs + length ps)), out @ ms, w3)
      \<and> map (message_data api) ms = ?ds @ ps \<and> inq w3 = rest"
    if "ps \<noteq> [] \<longleftrightarrow> ?more" "inq w2 = wire_open ?more ?ds @ wire ps @ rest" for w2 out ps rest fl'
  proof -
    have "inq w2 = wire (?ds @ ps) @ rest"
      using that(2) wire_open_append [of ps ?ds] unfolding that(1) [symmetric] by (simp add: append_assoc [symmetric] del: append_assoc)
    from detail_recv_multipart_wire [OF transport_inbound [OF assms(1)] assms(2) _ this refl, of False 0 fl' out] assms(3)
    show ?thesis by (simp add: recv_multipart_def)
  qed
  moreover have "map fst (wire_open ?more ?ds) = ?ds" by (rule wire_open_parts)
  moreover have "\<forall>i < length msgs. snd (wire_open ?more ?ds ! i) \<longleftrightarrow> Suc i < length msgs \<or> ?more"
    using wire_open_flag [of _ ?ds ?more] by simp
  ultimately show ?thesis by blast
qed

theorem send_recv_multipart_witness:
  "\<exists>sent w1 ms w3. send_multipart list_sock_api \<lparr>sb_handle = 1\<rparr> 2 ([([5], False), ([], False)], lib_start)
      = (Inr (Some 2), sent, w1) \<and> lib_out w1 = [([5], True), ([], True)]
    \<and> recv_multipart list_sock_api \<lparr>sb_handle = 1\<rparr> 0 ([], w1\<lparr>lib_in := lib_out w1 @ [([7], False)]\<rparr>)
      = Some (Inr (Some 3), ms, w3) \<and> map fst ms = [[5], [], [7]] \<and> lib_in w3 = []"
proof -
  let ?api = "list_sock_api :: (lmsg, lib_state) sock_api"
  have sm: "ZMQ_SNDMORE ?api = 2" by (simp add: list_sock_api_simps)
  let ?msgs = "[([5], False), ([], False)] :: (byte list \<times> bool) list"
  have d: "map (message_data ?api) ?msgs = [[5], []]" "length ?msgs = 2" "?msgs \<noteq> []"
    by (simp_all add: message_data_def list_sock_api_simps)
  from send_recv_multipart [of ?api "\<lparr>sb_handle = 1\<rparr>" lib_in lib_out ?msgs 2 lib_start,
      OF list_transport list_sock_msg_ok d(3), unfolded d(1,2) sm]
  obtain sent w1 sending where s: "send_multipart ?api \<lparr>sb_handle = 1\<rparr> 2 (?msgs, lib_start)
      = (Inr (Some 2), sent, w1)" "lib_out w1 = lib_out lib_start @ sending" "map fst sending = [[5], []]"
    "\<forall>i < 2. snd (sending ! i) \<longleftrightarrow> Suc i < 2 \<or> (2 :: flags) AND 2 \<noteq> 0"
    and g: "\<forall>(w2 :: lib_state) out ps rest fl'. (ps \<noteq> [] \<longleftrightarrow> (2 :: flags) AND 2 \<noteq> 0) \<longrightarrow> lib_in w2 = sending @ wire ps @ rest \<longrightarrow>
      (\<exists>ms w3. recv_multipart ?api \<lparr>sb_handle = 1\<rparr> fl' (out, w2) = Some (Inr (Some (2 + length ps)), out @ ms, w3)
        \<and> map (message_data ?api) ms = [[5], []] @ ps \<and> lib_in w3 = rest)"
    by (elim exE conjE)
  have two: "(2 :: flags) AND 2 \<noteq> 0" by simp
  from s(3,4) two have sending: "sending = [([5], True), ([], True)]"
    by (auto simp: map_eq_Cons_conv numeral_2_eq_2 less_Suc_eq)
  then have out: "lib_out w1 = [([5], True), ([], True)]" using s(2) by (simp add: lib_start_def)
  have "lib_in (w1\<lparr>lib_in := lib_out w1 @ [([7], False)]\<rparr>) = sending @ wire [[7]] @ []"
    by (simp add: out sending)
  from g [rule_format, OF _ this, of 0 "[]"] two obtain ms w3 where
    r3: "recv_multipart ?api \<lparr>sb_handle = 1\<rparr> 0 ([], w1\<lparr>lib_in := lib_out w1 @ [([7], False)]\<rparr>)
      = Some (Inr (Some 3), ms, w3)" "lib_in w3 = []" and ms: "map (message_data ?api) ms = [[5], [], [7]]" by auto
  note ms
  moreover have "message_data ?api = fst" by (rule ext) (simp add: message_data_def list_sock_api_simps)
  ultimately have "map fst ms = [[5], [], [7]]" by simp
  with s(1) out r3 show ?thesis
    by (intro exI [of _ sent] exI [of _ w1] exI [of _ ms] exI [of _ w3] conjI)
qed

section \<open>What is lost when sending would block\<close>

text \<open>
  When libzmq answers \<open>EAGAIN\<close> to the first part, \<open>multipart_t::send\<close> returns false but has already
  popped that part, so the object is left with the others only and sending it again does not send the
  message; \<open>send_multipart\<close> returns nullopt and leaves the caller's range as it was.
\<close>

theorem send_would_block:
  assumes "\<And>fl w. zmq_msg_send api (sb_handle s) m fl w = ((- 1, m), f w)"
    and "\<And>w. zmq_errno api (f w) = EAGAIN api"
  shows "mp_send api s fl (m # ms, w) = (Inr False, ms, f w)
    \<and> send_multipart api s fl (m # ms, w) = (Inr None, m # ms, f w)"
  using assms
  by (simp add: mp_send_def send_multipart_def sock_send_msg_def bnd_def on_this_def on_lib_def
      io_result_def Let_def)

theorem send_would_block_witness:
  "mp_send (list_sock_api\<lparr>zmq_msg_send := \<lambda>h m fl w. ((- 1, m), w\<lparr>lib_errno := 11\<rparr>)\<rparr>) \<lparr>sb_handle = 1\<rparr> 0
     ([([1], False), ([2], False)], lib_start) = (Inr False, [([2], False)], lib_start\<lparr>lib_errno := 11\<rparr>)"
  by (rule send_would_block [of "list_sock_api\<lparr>zmq_msg_send := \<lambda>h m fl w. ((- 1, m), w\<lparr>lib_errno := 11\<rparr>)\<rparr>"
      "\<lparr>sb_handle = 1\<rparr>" _ "\<lambda>w. w\<lparr>lib_errno := 11\<rparr>", THEN conjunct1])
    (simp_all add: list_sock_api_simps)

end
