(* ===== verification/ZmqPoll.thy ===== *)
theory ZmqPoll
  imports ZmqOptions ZmqMultipart
begin

text \<open>
  \<open>zmq::poll\<close>, \<open>zmq::version\<close> and the socket monitor \<open>monitor_t\<close> (\<open>zmq.hpp\<close>), for a libzmq of version
  4.3 or later (the event layout of two parts, \<open>ZMQ_EVENT_MONITOR_STOPPED\<close> and the handshake events
  exist). The virtual \<open>on_...\<close> methods of a monitor are a parameter \<open>cb\<close>, a computation over the
  monitor and the library; in the class itself they do nothing (\<open>no_callback\<close>).
\<close>

section \<open>Polling\<close>

record pollitem =
  pi_socket :: ptr
  pi_fd :: int
  pi_events :: "16 word"
  pi_revents :: "16 word"

text \<open>The \<open>on_...\<close> methods, and the event constants of \<open>zmq.h\<close> that the class knows.\<close>

datatype monitor_callback =
    On_monitor_stopped | On_monitor_started | On_event_connected | On_event_connect_delayed
  | On_event_connect_retried | On_event_listening | On_event_bind_failed | On_event_accepted
  | On_event_accept_failed | On_event_closed | On_event_close_failed | On_event_disconnected
  | On_event_handshake_failed_no_detail | On_event_handshake_failed_protocol
  | On_event_handshake_failed_auth | On_event_handshake_succeeded | On_event_unknown

datatype event_const =
    ZMQ_EVENT_CONNECTED | ZMQ_EVENT_CONNECT_DELAYED | ZMQ_EVENT_CONNECT_RETRIED | ZMQ_EVENT_LISTENING
  | ZMQ_EVENT_BIND_FAILED | ZMQ_EVENT_ACCEPTED | ZMQ_EVENT_ACCEPT_FAILED | ZMQ_EVENT_CLOSED
  | ZMQ_EVENT_CLOSE_FAILED | ZMQ_EVENT_DISCONNECTED | ZMQ_EVENT_MONITOR_STOPPED
  | ZMQ_EVENT_HANDSHAKE_FAILED_NO_DETAIL | ZMQ_EVENT_HANDSHAKE_FAILED_PROTOCOL
  | ZMQ_EVENT_HANDSHAKE_FAILED_AUTH | ZMQ_EVENT_HANDSHAKE_SUCCEEDED

text \<open>\<open>event_code\<close> gives the values of the constants.\<close>

record ('m, 'w) poll_api = "('m, 'w) sock_api" +
  ZMQ_POLLIN :: "16 word"
  ZMQ_PAIR :: int
  event_code :: "event_const \<Rightarrow> 16 word"
  zmq_poll :: "pollitem list \<Rightarrow> int \<Rightarrow> int \<Rightarrow> 'w \<Rightarrow> (int \<times> pollitem list) \<times> 'w"
  zmq_version :: "int \<times> int \<times> int"
  zmq_socket_monitor :: "ptr \<Rightarrow> string option \<Rightarrow> int \<Rightarrow> 'w \<Rightarrow> int \<times> 'w"

text \<open>The items are the object of the computation; \<open>static_cast<int>\<close> keeps 32 bits of their number.\<close>

definition detail_poll ::
  "('m, 'w, 'x) poll_api_scheme \<Rightarrow> int \<Rightarrow> (pollitem list \<times> 'w, int) comp" where
  "detail_poll api timeout =
     bnd get_this (\<lambda>items.
     bnd (on_this (\<lambda>items. zmq_poll api items (sint (of_nat (length items) :: 32 word)) timeout)) (\<lambda>rc.
     if rc < 0 then throw_error_this api else ret rc))"

definition poll_long :: "('m, 'w, 'x) poll_api_scheme \<Rightarrow> int \<Rightarrow> (pollitem list \<times> 'w, int) comp" where
  "poll_long api timeout = detail_poll api timeout"

definition poll_const :: "('m, 'w, 'x) poll_api_scheme \<Rightarrow> int \<Rightarrow> (pollitem list \<times> 'w, int) comp" where
  "poll_const api timeout = detail_poll api timeout"

text \<open>A duration in milliseconds counts 64-bit units; \<open>static_cast<long>\<close> keeps its value.\<close>

definition poll_const_ms :: "('m, 'w, 'x) poll_api_scheme \<Rightarrow> 64 word \<Rightarrow> (pollitem list \<times> 'w, int) comp" where
  "poll_const_ms api timeout = detail_poll api (sint timeout)"

definition poll_vector_const_ms ::
  "('m, 'w, 'x) poll_api_scheme \<Rightarrow> 64 word \<Rightarrow> (pollitem list \<times> 'w, int) comp" where
  "poll_vector_const_ms api timeout = detail_poll api (sint timeout)"

definition poll_vector_const ::
  "('m, 'w, 'x) poll_api_scheme \<Rightarrow> int \<Rightarrow> (pollitem list \<times> 'w, int) comp" where
  "poll_vector_const api timeout = detail_poll api timeout"

definition poll_ms :: "('m, 'w, 'x) poll_api_scheme \<Rightarrow> 64 word \<Rightarrow> (pollitem list \<times> 'w, int) comp" where
  "poll_ms api timeout = detail_poll api (sint timeout)"

definition poll_vector_ms :: "('m, 'w, 'x) poll_api_scheme \<Rightarrow> 64 word \<Rightarrow> (pollitem list \<times> 'w, int) comp" where
  "poll_vector_ms api timeout = detail_poll api (sint timeout)"

definition poll_vector :: "('m, 'w, 'x) poll_api_scheme \<Rightarrow> int \<Rightarrow> (pollitem list \<times> 'w, int) comp" where
  "poll_vector api timeout = detail_poll api timeout"

definition poll_array_ms :: "('m, 'w, 'x) poll_api_scheme \<Rightarrow> 64 word \<Rightarrow> (pollitem list \<times> 'w, int) comp" where
  "poll_array_ms api timeout = detail_poll api (sint timeout)"

definition zversion :: "('m, 'w, 'x) poll_api_scheme \<Rightarrow> int \<times> int \<times> int" where
  "zversion api = zmq_version api"

section \<open>\<open>monitor_t\<close>\<close>

record monitor_t =
  mon_socket :: socket_ref
  mon_monitor_socket :: socket_t

record zmq_event =
  ev_event :: "16 word"
  ev_value :: "32 word"

type_synonym ('w, 'a) mon_comp = "(monitor_t \<times> 'w, 'a) comp"
type_synonym 'w callbacks = "monitor_callback \<Rightarrow> zmq_event \<Rightarrow> string \<Rightarrow> ('w, unit) mon_comp"

definition no_callback :: "'w callbacks" where
  "no_callback c e addr = ret ()"

text \<open>\<open>on_monitor_started()\<close> and \<open>on_monitor_stopped()\<close> take no event.\<close>

definition no_event :: zmq_event where
  "no_event = \<lparr>ev_event = 0, ev_value = 0\<rparr>"

definition monitor_default :: monitor_t where
  "monitor_default = \<lparr>mon_socket = socket_ref_null, mon_monitor_socket = socket_t_default\<rparr>"

text \<open>A computation on the monitor's own socket.\<close>

definition on_monitor_socket :: "(socket_t \<times> 'w, 'a) comp \<Rightarrow> ('w, 'a) mon_comp" where
  "on_monitor_socket f = (\<lambda>(mon, w).
     case f (mon_monitor_socket mon, w) of
       (r, (s, w')) \<Rightarrow> (r, (mon\<lparr>mon_monitor_socket := s\<rparr>, w')))"

definition monitor_close :: "('m, 'w, 'x) poll_api_scheme \<Rightarrow> ('w, unit) mon_comp" where
  "monitor_close api =
     bnd get_this (\<lambda>mon.
     bnd (if sock_bool (mon_socket mon)
          then on_lib (call (zmq_socket_monitor api (sock_handle (mon_socket mon)) None 0)) else ret 0) (\<lambda>_.
     on_monitor_socket (socket_t_close api)))"

definition monitor_dtor :: "('m, 'w, 'x) poll_api_scheme \<Rightarrow> ('w, unit) mon_comp" where
  "monitor_dtor api = monitor_close api"

definition monitor_move_ctor :: "monitor_t \<Rightarrow> monitor_t \<times> monitor_t" where
  "monitor_move_ctor rhs = (rhs, monitor_default)"

definition monitor_move_assign ::
  "('m, 'w, 'x) poll_api_scheme \<Rightarrow> ((monitor_t \<times> monitor_t) \<times> 'w, unit) comp" where
  "monitor_move_assign api = (\<lambda>((this, rhs), w).
     case monitor_close api (this, w) of
       (Inl e, (this', w')) \<Rightarrow> (Inl e, ((this', rhs), w'))
     | (Inr _, (this', w')) \<Rightarrow>
         (Inr (), ((this'\<lparr>mon_socket := mon_socket rhs, mon_monitor_socket := mon_monitor_socket rhs\<rparr>,
                    rhs\<lparr>mon_socket := socket_ref_null, mon_monitor_socket := mon_monitor_socket this'\<rparr>), w')))"

text \<open>
  \<open>init\<close>: the socket assigned to \<open>_monitor_socket\<close> is a temporary, destroyed after the assignment
  with whatever it was swapped with.
\<close>

definition monitor_init ::
  "('m, 'w, 'x) poll_api_scheme \<Rightarrow> 'w callbacks \<Rightarrow> socket_t \<Rightarrow> string \<Rightarrow> int \<Rightarrow> ('w, unit) mon_comp" where
  "monitor_init api cb socket addr events =
     bnd (on_lib (call (zmq_socket_monitor api (sock_handle socket) (Some (c_string addr)) events))) (\<lambda>rc.
     if rc \<noteq> 0 then throw_error_this api else
     bnd get_this (\<lambda>mon.
     bnd (put_this (mon\<lparr>mon_socket := socket_ref_of_socket socket\<rparr>)) (\<lambda>_.
     bnd (on_lib (socket_t_of_ptr api (sb_ctxptr socket) (ZMQ_PAIR api))) (\<lambda>tmp.
     bnd (on_monitor_socket (\<lambda>(s, w). case socket_t_move_assign api ((s, tmp), w) of
            (Inl e, ((s', _), w')) \<Rightarrow> (Inl e, (s', w'))
          | (Inr _, ((s', tmp'), w')) \<Rightarrow>
              (case socket_t_dtor api (tmp', w') of (r, (_, w'')) \<Rightarrow> (r, (s', w''))))) (\<lambda>_.
     bnd get_this (\<lambda>mon.
     bnd (on_lib (sock_connect api (mon_monitor_socket mon) (c_string addr))) (\<lambda>_.
     cb On_monitor_started no_event [])))))))"

definition monitor_init_string ::
  "('m, 'w, 'x) poll_api_scheme \<Rightarrow> 'w callbacks \<Rightarrow> socket_t \<Rightarrow> string \<Rightarrow> int \<Rightarrow> ('w, unit) mon_comp" where
  "monitor_init_string api cb socket addr events = monitor_init api cb socket (c_string addr) events"

definition monitor_abort :: "('m, 'w, 'x) poll_api_scheme \<Rightarrow> ('w, unit) mon_comp" where
  "monitor_abort api =
     bnd get_this (\<lambda>mon.
     bnd (if sock_bool (mon_socket mon)
          then on_lib (call (zmq_socket_monitor api (sock_handle (mon_socket mon)) None 0)) else ret 0) (\<lambda>_.
     put_this (mon\<lparr>mon_socket := socket_ref_null\<rparr>)))"

subsection \<open>Events\<close>

text \<open>The \<open>switch\<close>: its cases, each with the method it calls, and the default.\<close>

definition switch_cases :: "(event_const \<times> monitor_callback) list" where
  "switch_cases =
     [(ZMQ_EVENT_CONNECTED, On_event_connected),
      (ZMQ_EVENT_CONNECT_DELAYED, On_event_connect_delayed),
      (ZMQ_EVENT_CONNECT_RETRIED, On_event_connect_retried),
      (ZMQ_EVENT_LISTENING, On_event_listening),
      (ZMQ_EVENT_BIND_FAILED, On_event_bind_failed),
      (ZMQ_EVENT_ACCEPTED, On_event_accepted),
      (ZMQ_EVENT_ACCEPT_FAILED, On_event_accept_failed),
      (ZMQ_EVENT_CLOSED, On_event_closed),
      (ZMQ_EVENT_CLOSE_FAILED, On_event_close_failed),
      (ZMQ_EVENT_DISCONNECTED, On_event_disconnected),
      (ZMQ_EVENT_HANDSHAKE_FAILED_NO_DETAIL, On_event_handshake_failed_no_detail),
      (ZMQ_EVENT_HANDSHAKE_FAILED_PROTOCOL, On_event_handshake_failed_protocol),
      (ZMQ_EVENT_HANDSHAKE_FAILED_AUTH, On_event_handshake_failed_auth),
      (ZMQ_EVENT_HANDSHAKE_SUCCEEDED, On_event_handshake_succeeded)]"

definition event_switch :: "('m, 'w, 'x) poll_api_scheme \<Rightarrow> 16 word \<Rightarrow> monitor_callback" where
  "event_switch api ev =
     (case filter (\<lambda>(e, c). event_code api e = ev) switch_cases of (e, c) # _ \<Rightarrow> c | [] \<Rightarrow> On_event_unknown)"

text \<open>The event structure read from the first part: a 16-bit number and a 32-bit value.\<close>

definition unrep_u16 :: "bool \<Rightarrow> byte list \<Rightarrow> 16 word" where
  "unrep_u16 le bs =
     (let ds = (if le then bs else rev bs) in ucast (ds ! 0) OR push_bit 8 (ucast (ds ! 1)))"

definition read_event :: "bool \<Rightarrow> byte list \<Rightarrow> zmq_event res" where
  "read_event le dat = rbind (mem_read (Some dat) 2) (\<lambda>a. rbind (mem_read (Some (drop 2 dat)) 4) (\<lambda>b.
     Inr \<lparr>ev_event = unrep_u16 le a, ev_value = unrep_u32 le b\<rparr>))"

text \<open>Receiving one part: \<open>None\<close> when the context is terminated.\<close>

definition monitor_recv :: "('m, 'w, 'x) poll_api_scheme \<Rightarrow> ('w, 'm option) mon_comp" where
  "monitor_recv api =
     bnd get_this (\<lambda>mon.
     bnd (on_lib (message_default api)) (\<lambda>msg.
     bnd (on_lib (call (zmq_msg_recv api (sock_handle (mon_monitor_socket mon)) msg 0))) (\<lambda>(rc, msg').
     bnd (gets (\<lambda>(_, w). zmq_errno api w)) (\<lambda>errno.
     if rc = - 1 \<and> errno = ETERM api then ret None
     else bnd (zmq_assert (rc \<noteq> - 1)) (\<lambda>_. ret (Some msg'))))))"

definition process_event ::
  "('m, 'w, 'x) poll_api_scheme \<Rightarrow> bool \<Rightarrow> 'w callbacks \<Rightarrow> 16 word \<Rightarrow> ('w, bool) mon_comp" where
  "process_event api le cb events =
     (if events AND ZMQ_POLLIN api = 0 then bnd (on_lib (message_default api)) (\<lambda>_. ret False) else
      bnd (monitor_recv api) (\<lambda>event_msg.
      case event_msg of None \<Rightarrow> ret False | Some event_msg \<Rightarrow>
      bnd (lift_res (read_event le (message_data api event_msg))) (\<lambda>event.
      bnd (monitor_recv api) (\<lambda>addr_msg.
      case addr_msg of None \<Rightarrow> ret False | Some addr_msg \<Rightarrow>
      let address = message_to_string api addr_msg in
      if ev_event event = event_code api ZMQ_EVENT_MONITOR_STOPPED then
        bnd (cb On_monitor_stopped no_event []) (\<lambda>_. ret False)
      else bnd (cb (event_switch api (ev_event event)) event (c_string address)) (\<lambda>_. ret True)))))"

definition check_event ::
  "('m, 'w, 'x) poll_api_scheme \<Rightarrow> bool \<Rightarrow> 'w callbacks \<Rightarrow> 32 word \<Rightarrow> ('w, bool) mon_comp" where
  "check_event api le cb timeout =
     bnd get_this (\<lambda>mon.
     bnd (zmq_assert (sock_bool (mon_monitor_socket mon))) (\<lambda>_.
     let item = \<lparr>pi_socket = sock_handle (mon_monitor_socket mon), pi_fd = 0, pi_events = ZMQ_POLLIN api,
                 pi_revents = 0\<rparr> in
     bnd (on_lib (\<lambda>w. case poll_ms api (scast timeout) ([item], w) of
                    (Inl e, (_, w')) \<Rightarrow> (Inl e, w')
                  | (Inr _, (items, w')) \<Rightarrow> (Inr (pi_revents (hd items)), w'))) (\<lambda>revents.
     process_event api le cb revents)))"

text \<open>\<open>monitor\<close> never returns: it runs until a check throws. The result is what was thrown.\<close>

partial_function (option) monitor_loop ::
  "('m, 'w, 'x) poll_api_scheme \<Rightarrow> bool \<Rightarrow> 'w callbacks \<Rightarrow> monitor_t \<times> 'w \<Rightarrow> (exn \<times> monitor_t \<times> 'w) option" where
  "monitor_loop api le cb st =
     (case check_event api le cb (- 1) st of
        (Inl e, st') \<Rightarrow> Some (e, st')
      | (Inr _, st') \<Rightarrow> monitor_loop api le cb st')"

definition monitor_run ::
  "('m, 'w, 'x) poll_api_scheme \<Rightarrow> bool \<Rightarrow> 'w callbacks \<Rightarrow> socket_t \<Rightarrow> string \<Rightarrow> int
     \<Rightarrow> monitor_t \<times> 'w \<Rightarrow> (exn \<times> monitor_t \<times> 'w) option" where
  "monitor_run api le cb socket addr events st =
     (case monitor_init api cb socket addr events st of
        (Inl e, st') \<Rightarrow> Some (e, st')
      | (Inr _, st') \<Rightarrow> monitor_loop api le cb st')"

definition monitor_run_string ::
  "('m, 'w, 'x) poll_api_scheme \<Rightarrow> bool \<Rightarrow> 'w callbacks \<Rightarrow> socket_t \<Rightarrow> string \<Rightarrow> int
     \<Rightarrow> monitor_t \<times> 'w \<Rightarrow> (exn \<times> monitor_t \<times> 'w) option" where
  "monitor_run_string api le cb socket addr events = monitor_run api le cb socket (c_string addr) events"

section \<open>Dispatch\<close>

text \<open>The event numbers of \<open>zmq.h\<close> are different.\<close>

definition events_ok :: "('m, 'w, 'x) poll_api_scheme \<Rightarrow> bool" where
  "events_ok api \<longleftrightarrow> (\<forall>e e'. event_code api e = event_code api e' \<longrightarrow> e = e')"

text \<open>
  What the methods are called and what the events are called: the method for an event has its name, in
  small letters, after \<open>on_event_\<close>.
\<close>

fun callback_name :: "monitor_callback \<Rightarrow> string" where
  "callback_name On_monitor_stopped = ''on_monitor_stopped''"
| "callback_name On_monitor_started = ''on_monitor_started''"
| "callback_name On_event_connected = ''on_event_connected''"
| "callback_name On_event_connect_delayed = ''on_event_connect_delayed''"
| "callback_name On_event_connect_retried = ''on_event_connect_retried''"
| "callback_name On_event_listening = ''on_event_listening''"
| "callback_name On_event_bind_failed = ''on_event_bind_failed''"
| "callback_name On_event_accepted = ''on_event_accepted''"
| "callback_name On_event_accept_failed = ''on_event_accept_failed''"
| "callback_name On_event_closed = ''on_event_closed''"
| "callback_name On_event_close_failed = ''on_event_close_failed''"
| "callback_name On_event_disconnected = ''on_event_disconnected''"
| "callback_name On_event_handshake_failed_no_detail = ''on_event_handshake_failed_no_detail''"
| "callback_name On_event_handshake_failed_protocol = ''on_event_handshake_failed_protocol''"
| "callback_name On_event_handshake_failed_auth = ''on_event_handshake_failed_auth''"
| "callback_name On_event_handshake_succeeded = ''on_event_handshake_succeeded''"
| "callback_name On_event_unknown = ''on_event_unknown''"

fun event_name :: "event_const \<Rightarrow> string" where
  "event_name ZMQ_EVENT_CONNECTED = ''CONNECTED''"
| "event_name ZMQ_EVENT_CONNECT_DELAYED = ''CONNECT_DELAYED''"
| "event_name ZMQ_EVENT_CONNECT_RETRIED = ''CONNECT_RETRIED''"
| "event_name ZMQ_EVENT_LISTENING = ''LISTENING''"
| "event_name ZMQ_EVENT_BIND_FAILED = ''BIND_FAILED''"
| "event_name ZMQ_EVENT_ACCEPTED = ''ACCEPTED''"
| "event_name ZMQ_EVENT_ACCEPT_FAILED = ''ACCEPT_FAILED''"
| "event_name ZMQ_EVENT_CLOSED = ''CLOSED''"
| "event_name ZMQ_EVENT_CLOSE_FAILED = ''CLOSE_FAILED''"
| "event_name ZMQ_EVENT_DISCONNECTED = ''DISCONNECTED''"
| "event_name ZMQ_EVENT_MONITOR_STOPPED = ''MONITOR_STOPPED''"
| "event_name ZMQ_EVENT_HANDSHAKE_FAILED_NO_DETAIL = ''HANDSHAKE_FAILED_NO_DETAIL''"
| "event_name ZMQ_EVENT_HANDSHAKE_FAILED_PROTOCOL = ''HANDSHAKE_FAILED_PROTOCOL''"
| "event_name ZMQ_EVENT_HANDSHAKE_FAILED_AUTH = ''HANDSHAKE_FAILED_AUTH''"
| "event_name ZMQ_EVENT_HANDSHAKE_SUCCEEDED = ''HANDSHAKE_SUCCEEDED''"

definition small_letter :: "char \<Rightarrow> char" where
  "small_letter c = (let n = of_char c :: nat in if 65 \<le> n \<and> n \<le> 90 then char_of (n + 32) else c)"

text \<open>The specification of the dispatch, which does not know the \<open>switch\<close>: the method for an event number.\<close>

definition method_for :: "('m, 'w, 'x) poll_api_scheme \<Rightarrow> 16 word \<Rightarrow> monitor_callback \<Rightarrow> bool" where
  "method_for api ev c \<longleftrightarrow>
     (\<forall>e. ev = event_code api e \<longrightarrow> callback_name c = ''on_event_'' @ map small_letter (event_name e))
   \<and> ((\<forall>e. ev \<noteq> event_code api e) \<longrightarrow> callback_name c = ''on_event_unknown'')"

lemma length_rep_u16 [simp]: "length (rep_u16 le v) = 2"
  by (simp add: rep_u16_def Let_def)

lemma unrep_rep_u16 [simp]: "unrep_u16 le (rep_u16 le v) = v"
proof -
  have "(ucast (ucast v :: byte) OR push_bit 8 (ucast (ucast (drop_bit 8 v) :: byte)) :: 16 word) = v"
  proof (rule bit_eqI)
    fix n assume "possible_bit TYPE(16 word) n"
    then show "bit (ucast (ucast v :: byte) OR push_bit 8 (ucast (ucast (drop_bit 8 v) :: byte)) :: 16 word) n
        = bit v n"
      by (cases "n < 8") (auto simp: bit_simps)
  qed
  then show ?thesis by (simp add: unrep_u16_def rep_u16_def Let_def)
qed

interpretation rep16_codec: codec "rep_u16 le"
  "\<lambda>bs. if length bs < 2 then None else Some (unrep_u16 le (take 2 bs), drop 2 bs)" "\<lambda>_. True" for le
  by unfold_locales simp

lemma switch_names:
  "list_all (\<lambda>(e, c). callback_name c = ''on_event_'' @ map small_letter (event_name e)) switch_cases"
  by code_simp

lemma switch_complete: "e \<noteq> ZMQ_EVENT_MONITOR_STOPPED \<Longrightarrow> e \<in> fst ` set switch_cases"
  by (cases e) (simp_all add: switch_cases_def)

lemma event_switch_const:
  assumes "events_ok api" "e \<noteq> ZMQ_EVENT_MONITOR_STOPPED"
  shows "callback_name (event_switch api (event_code api e)) = ''on_event_'' @ map small_letter (event_name e)"
proof -
  let ?found = "filter (\<lambda>(e', c). event_code api e' = event_code api e) switch_cases"
  have "?found \<noteq> []" using switch_complete [OF assms(2)] by (auto simp: filter_empty_conv)
  then obtain e' c xs where f: "?found = (e', c) # xs" by (cases ?found) auto
  then have "(e', c) \<in> set ?found" by simp
  then have "(e', c) \<in> set switch_cases" "event_code api e' = event_code api e" by simp_all
  with assms(1) switch_names have "callback_name c = ''on_event_'' @ map small_letter (event_name e)"
    unfolding events_ok_def list_all_iff by blast
  with f show ?thesis by (simp add: event_switch_def)
qed

lemma event_switch_unknown:
  "(\<And>e. ev \<noteq> event_code api e) \<Longrightarrow> event_switch api ev = On_event_unknown"
  by (simp add: event_switch_def switch_cases_def not_sym)

lemma event_switch_method:
  assumes "events_ok api" "ev \<noteq> event_code api ZMQ_EVENT_MONITOR_STOPPED"
  shows "method_for api ev (event_switch api ev)"
  unfolding method_for_def
proof (intro conjI allI impI)
  fix e assume e: "ev = event_code api e"
  with assms(2) have "e \<noteq> ZMQ_EVENT_MONITOR_STOPPED" by auto
  from event_switch_const [OF assms(1) this]
  show "callback_name (event_switch api ev) = ''on_event_'' @ map small_letter (event_name e)" unfolding e .
qed (simp add: event_switch_unknown)

lemma read_event_rep: "read_event le (rep_u16 le ev @ rep_u32 le val) = Inr \<lparr>ev_event = ev, ev_value = val\<rparr>"
  by (simp add: read_event_def mem_read_def)

lemma monitor_recv_run:
  assumes "inbound api (sb_handle (mon_monitor_socket mon)) inq" "msg_api_ok api"
    and "inq w = (bs, mo) # rest"
  shows "\<exists>m w'. monitor_recv api (mon, w) = (Inr (Some m), (mon, w')) \<and> message_data api m = bs \<and> inq w' = rest"
proof -
  obtain m0 w0 where d: "message_default api w = (Inr m0, w0)" "inq w0 = inq w"
    using inbound_default [OF assms(1,2)] by blast
  with assms(3) have "inq w0 = (bs, mo) # rest" by simp
  then obtain m' w' where r:
    "zmq_msg_recv api (sb_handle (mon_monitor_socket mon)) m0 0 w0 = ((int (length bs), m'), w')"
    "zmq_msg_data api m' = bs" "inq w' = rest"
    using assms(1) unfolding inbound_def by metis
  with d show ?thesis
    by (simp add: monitor_recv_def bnd_def on_lib_def call_def sock_handle_def message_data_def)
qed

text \<open>
  C37. One event, one callback, the right one. When the two parts of an event (number and value in the
  machine's representation, then the address) wait on the monitor socket, \<open>process_event\<close> takes exactly
  these two parts and runs exactly one callback: for \<open>ZMQ_EVENT_MONITOR_STOPPED\<close> it runs \<open>on_monitor_stopped\<close>
  and returns false; for the number of any other event of \<open>zmq.h\<close> that the class knows it runs the method
  whose name is \<open>on_event_\<close> with the event's name in small letters, and for any other number
  \<open>on_event_unknown\<close>, with the event and the address, and returns true unless the callback throws.
\<close>

theorem process_event_dispatch:
  assumes "inbound api (sb_handle (mon_monitor_socket mon)) inq" "msg_api_ok api" "events_ok api"
    and "events AND ZMQ_POLLIN api \<noteq> 0"
    and "inq w = (rep_u16 le ev @ rep_u32 le val, True) # (bytes_of_string addr, False) # rest"
  shows "\<exists>w'. inq w' = rest \<and>
     (if ev = event_code api ZMQ_EVENT_MONITOR_STOPPED
      then process_event api le cb events (mon, w) = bnd (cb On_monitor_stopped no_event []) (\<lambda>_. ret False) (mon, w')
      else \<exists>c. method_for api ev c \<and> process_event api le cb events (mon, w) =
        bnd (cb c \<lparr>ev_event = ev, ev_value = val\<rparr> (c_string addr)) (\<lambda>_. ret True) (mon, w'))"
proof -
  obtain m1 w1 where 1: "monitor_recv api (mon, w) = (Inr (Some m1), (mon, w1))"
    "message_data api m1 = rep_u16 le ev @ rep_u32 le val" "inq w1 = (bytes_of_string addr, False) # rest"
    using monitor_recv_run [OF assms(1,2,5)] by blast
  obtain m2 w2 where 2: "monitor_recv api (mon, w1) = (Inr (Some m2), (mon, w2))"
    "message_data api m2 = bytes_of_string addr" "inq w2 = rest"
    using monitor_recv_run [OF assms(1,2) 1(3)] by blast
  have "message_to_string api m2 = addr"
    using 2(2) by (simp add: message_to_string_data [OF assms(2)] message_data_def)
  with 1 2 assms(4) have "process_event api le cb events (mon, w) =
     (if ev = event_code api ZMQ_EVENT_MONITOR_STOPPED
      then bnd (cb On_monitor_stopped no_event []) (\<lambda>_. ret False) (mon, w2)
      else bnd (cb (event_switch api ev) \<lparr>ev_event = ev, ev_value = val\<rparr> (c_string addr)) (\<lambda>_. ret True) (mon, w2))"
    by (simp add: process_event_def bnd_step_Inr read_event_rep)
  with 2(3) event_switch_method [OF assms(3)] show ?thesis by (intro exI [of _ w2]) auto
qed

text \<open>The monitor functions for the examples: event numbers as in \<open>zmq.h\<close>.\<close>

definition zmq_event_codes :: "event_const \<Rightarrow> 16 word" where
  "zmq_event_codes e = (case e of
      ZMQ_EVENT_CONNECTED \<Rightarrow> 0x0001 | ZMQ_EVENT_CONNECT_DELAYED \<Rightarrow> 0x0002
    | ZMQ_EVENT_CONNECT_RETRIED \<Rightarrow> 0x0004 | ZMQ_EVENT_LISTENING \<Rightarrow> 0x0008
    | ZMQ_EVENT_BIND_FAILED \<Rightarrow> 0x0010 | ZMQ_EVENT_ACCEPTED \<Rightarrow> 0x0020 | ZMQ_EVENT_ACCEPT_FAILED \<Rightarrow> 0x0040
    | ZMQ_EVENT_CLOSED \<Rightarrow> 0x0080 | ZMQ_EVENT_CLOSE_FAILED \<Rightarrow> 0x0100 | ZMQ_EVENT_DISCONNECTED \<Rightarrow> 0x0200
    | ZMQ_EVENT_MONITOR_STOPPED \<Rightarrow> 0x0400 | ZMQ_EVENT_HANDSHAKE_FAILED_NO_DETAIL \<Rightarrow> 0x0800
    | ZMQ_EVENT_HANDSHAKE_SUCCEEDED \<Rightarrow> 0x1000 | ZMQ_EVENT_HANDSHAKE_FAILED_PROTOCOL \<Rightarrow> 0x2000
    | ZMQ_EVENT_HANDSHAKE_FAILED_AUTH \<Rightarrow> 0x4000)"

lemma zmq_event_codes_inj: "zmq_event_codes e = zmq_event_codes e' \<Longrightarrow> e = e'"
  by (cases e; cases e') (simp_all add: zmq_event_codes_def)

definition list_poll_api :: "(lmsg, lib_state) poll_api" where
  "list_poll_api = sock_api.extend list_sock_api
     (poll_api.fields 1 0 zmq_event_codes
       (\<lambda>items n t w. ((0, items), w)) (4, 3, 5) (\<lambda>h addr ev w. (0, w)))"

lemmas list_poll_api_simps = list_sock_api_simps list_poll_api_def poll_api.defs

lemma list_poll_inbound: "inbound list_poll_api h lib_in"
  by (auto simp: inbound_def list_poll_api_simps lib_recv_def lib_send_def)

lemma list_poll_msg_ok: "msg_api_ok list_poll_api"
  by (auto simp: msg_api_ok_def list_poll_api_simps)

theorem process_event_dispatch_witness:
  "\<exists>w'. lib_in w' = [] \<and>
     process_event list_poll_api True (\<lambda>c e addr. throw (RuntimeError (callback_name c @ '' '' @ addr))) 1
       (monitor_default, lib_start\<lparr>lib_in := [(rep_u16 True 128 @ rep_u32 True 7, True), (bytes_of_string ''tcp'', False)]\<rparr>)
     = (Inl (RuntimeError ''on_event_closed tcp''), (monitor_default, w'))"
proof -
  let ?w = "lib_start\<lparr>lib_in := [(rep_u16 True 128 @ rep_u32 True 7, True), (bytes_of_string ''tcp'', False)]\<rparr>"
  have codes: "event_code list_poll_api = zmq_event_codes" by (simp add: list_poll_api_simps)
  have ok: "events_ok list_poll_api" "1 AND ZMQ_POLLIN list_poll_api \<noteq> 0"
    using zmq_event_codes_inj by (auto simp: events_ok_def codes) (simp add: list_poll_api_simps)
  have ne: "128 \<noteq> event_code list_poll_api ZMQ_EVENT_MONITOR_STOPPED" by (simp add: codes zmq_event_codes_def)
  have closed: "128 = event_code list_poll_api ZMQ_EVENT_CLOSED" by (simp add: codes zmq_event_codes_def)
  from process_event_dispatch [of list_poll_api monitor_default lib_in 1 ?w True 128 7 "''tcp''" "[]"
      "\<lambda>c e addr. throw (RuntimeError (callback_name c @ '' '' @ addr))", OF list_poll_inbound list_poll_msg_ok ok]
  obtain w' c where w: "lib_in w' = []" "method_for list_poll_api 128 c"
    "process_event list_poll_api True (\<lambda>c e addr. throw (RuntimeError (callback_name c @ '' '' @ addr))) 1 (monitor_default, ?w)
      = bnd (throw (RuntimeError (callback_name c @ '' '' @ c_string ''tcp''))) (\<lambda>_. ret True) (monitor_default, w')"
    unfolding if_not_P [OF ne] by auto
  from w(2) closed have "callback_name c = ''on_event_'' @ map small_letter (event_name ZMQ_EVENT_CLOSED)"
    unfolding method_for_def by blast
  also have "\<dots> = ''on_event_closed''" by code_simp
  finally show ?thesis using w(1,3) by (intro exI [of _ w']) (simp add: c_string_def)
qed

end
