(* ===== verification/ZmqMisc.thy ===== *)
theory ZmqMisc
  imports ZmqPoll
begin

text \<open>
  The rest of \<open>zmq.hpp\<close>: the class \<open>timers\<close>, the curve key functions and the Z85 functions. A
  C function that fills a character buffer returns the text it writes (a terminating NUL follows
  it); writing past the buffer the caller passed is undefined behaviour.
\<close>

record ('m, 'w) misc_api = "('m, 'w) poll_api" +
  zmq_timers_new :: "'w \<Rightarrow> ptr \<times> 'w"
  zmq_timers_destroy :: "ptr \<Rightarrow> 'w \<Rightarrow> int \<times> 'w"
  zmq_timers_add :: "ptr \<Rightarrow> 64 word \<Rightarrow> ptr \<Rightarrow> ptr \<Rightarrow> 'w \<Rightarrow> int \<times> 'w"
  zmq_timers_cancel :: "ptr \<Rightarrow> int \<Rightarrow> 'w \<Rightarrow> int \<times> 'w"
  zmq_timers_set_interval :: "ptr \<Rightarrow> int \<Rightarrow> 64 word \<Rightarrow> 'w \<Rightarrow> int \<times> 'w"
  zmq_timers_reset :: "ptr \<Rightarrow> int \<Rightarrow> 'w \<Rightarrow> int \<times> 'w"
  zmq_timers_timeout :: "ptr \<Rightarrow> 'w \<Rightarrow> 64 word \<times> 'w"
  zmq_timers_execute :: "ptr \<Rightarrow> 'w \<Rightarrow> int \<times> 'w"
  zmq_curve_keypair :: "'w \<Rightarrow> (int \<times> string \<times> string) \<times> 'w"
  zmq_curve_public :: "string \<Rightarrow> 'w \<Rightarrow> (int \<times> string) \<times> 'w"
  zmq_z85_encode :: "byte list \<Rightarrow> 'w \<Rightarrow> string option \<times> 'w"
  zmq_z85_decode :: "string \<Rightarrow> 'w \<Rightarrow> byte list option \<times> 'w"

section \<open>Timers\<close>

record timers = tm_ptr :: ptr

definition timers_ctor :: "('m, 'w, 'x) misc_api_scheme \<Rightarrow> ('w, timers) comp" where
  "timers_ctor api =
     bnd (call (zmq_timers_new api)) (\<lambda>p. if p = 0 then throw_error api else ret \<lparr>tm_ptr = p\<rparr>)"

definition timers_dtor :: "('m, 'w, 'x) misc_api_scheme \<Rightarrow> timers \<Rightarrow> ('w, unit) comp" where
  "timers_dtor api t = bnd (call (zmq_timers_destroy api (tm_ptr t))) (\<lambda>rc. zmq_assert (rc = 0))"

text \<open>A C call that reports failure by -1.\<close>

definition check_minus1 ::
  "('m, 'w, 'x) misc_api_scheme \<Rightarrow> ('w \<Rightarrow> int \<times> 'w) \<Rightarrow> ('w, int) comp" where
  "check_minus1 api f = bnd (call f) (\<lambda>rc. if rc = - 1 then throw_error api else ret rc)"

text \<open>Intervals are 64-bit counts of milliseconds; \<open>size_t\<close> takes them unsigned.\<close>

definition timers_add ::
  "('m, 'w, 'x) misc_api_scheme \<Rightarrow> timers \<Rightarrow> 64 word \<Rightarrow> ptr \<Rightarrow> ptr \<Rightarrow> ('w, int) comp" where
  "timers_add api t interval handler arg =
     check_minus1 api (zmq_timers_add api (tm_ptr t) interval handler arg)"

definition timers_cancel :: "('m, 'w, 'x) misc_api_scheme \<Rightarrow> timers \<Rightarrow> int \<Rightarrow> ('w, unit) comp" where
  "timers_cancel api t timer_id =
     bnd (check_minus1 api (zmq_timers_cancel api (tm_ptr t) timer_id)) (\<lambda>_. ret ())"

definition timers_set_interval ::
  "('m, 'w, 'x) misc_api_scheme \<Rightarrow> timers \<Rightarrow> int \<Rightarrow> 64 word \<Rightarrow> ('w, unit) comp" where
  "timers_set_interval api t timer_id interval =
     bnd (check_minus1 api (zmq_timers_set_interval api (tm_ptr t) timer_id interval)) (\<lambda>_. ret ())"

definition timers_reset :: "('m, 'w, 'x) misc_api_scheme \<Rightarrow> timers \<Rightarrow> int \<Rightarrow> ('w, unit) comp" where
  "timers_reset api t timer_id =
     bnd (check_minus1 api (zmq_timers_reset api (tm_ptr t) timer_id)) (\<lambda>_. ret ())"

text \<open>\<open>zmq_timers_timeout\<close> returns a \<open>long\<close>, which the code stores in an \<open>int\<close>.\<close>

definition timers_timeout :: "('m, 'w, 'x) misc_api_scheme \<Rightarrow> timers \<Rightarrow> ('w, 64 word option) comp" where
  "timers_timeout api t =
     bnd (call (zmq_timers_timeout api (tm_ptr t))) (\<lambda>res.
     let timeout = (ucast res :: 32 word) in
     if timeout = - 1 then ret None else ret (Some (scast timeout)))"

definition timers_execute :: "('m, 'w, 'x) misc_api_scheme \<Rightarrow> timers \<Rightarrow> ('w, unit) comp" where
  "timers_execute api t = bnd (check_minus1 api (zmq_timers_execute api (tm_ptr t))) (\<lambda>_. ret ())"

section \<open>Curve keys\<close>

text \<open>A text of \<open>zmq_curve_...\<close> goes to a buffer of 41 characters.\<close>

definition in_buffer :: "nat \<Rightarrow> string \<Rightarrow> string res" where
  "in_buffer n s = (if length s + 1 \<le> n then Inr (c_string s) else Inl (UB ''buffer overflow''))"

definition curve_keypair :: "('m, 'w, 'x) misc_api_scheme \<Rightarrow> ('w, string \<times> string) comp" where
  "curve_keypair api =
     bnd (call (zmq_curve_keypair api)) (\<lambda>(rc, pub, sec).
     if rc = - 1 then throw_error api
     else bnd (lift_res (in_buffer 41 pub)) (\<lambda>pub. bnd (lift_res (in_buffer 41 sec)) (\<lambda>sec. ret (pub, sec))))"

definition curve_public :: "('m, 'w, 'x) misc_api_scheme \<Rightarrow> string \<Rightarrow> ('w, string) comp" where
  "curve_public api secret =
     (if length secret \<noteq> 40 then throw (RuntimeError ''Invalid secret string size'')
      else bnd (call (zmq_curve_public api (c_string secret))) (\<lambda>(rc, pub).
           if rc = - 1 then throw_error api else lift_res (in_buffer 41 pub)))"

section \<open>Z85\<close>

text \<open>
  The encoder writes its text and a NUL into the string's buffer, whose last character the string
  keeps as NUL anyway; then the trailing NULs are popped. \<open>back()\<close> of an empty string is undefined.
\<close>

function pop_nuls :: "string \<Rightarrow> string res" where
  "pop_nuls buffer =
     (if buffer = [] then Inl (UB ''back of an empty string'')
      else if last buffer = CHR 0x00 then pop_nuls (butlast buffer) else Inr buffer)"
  by pat_completeness auto

termination pop_nuls
  by (relation "measure length") auto

declare pop_nuls.simps [simp del]

definition z85_encode :: "('m, 'w, 'x) misc_api_scheme \<Rightarrow> byte list \<Rightarrow> ('w, string) comp" where
  "z85_encode api dat =
     (let buffer_size = length dat * 6 div 5 + 1 in
      bnd (call (zmq_z85_encode api dat)) (\<lambda>result.
      case result of
        None \<Rightarrow> throw_error api
      | Some text \<Rightarrow>
          if length text > buffer_size then throw (UB ''buffer overflow'')
          else lift_res (pop_nuls (text @ replicate (buffer_size - length text) (CHR 0x00)))))"

definition z85_decode :: "('m, 'w, 'x) misc_api_scheme \<Rightarrow> string \<Rightarrow> ('w, byte list) comp" where
  "z85_decode api encoded =
     (let dest_size = length encoded * 4 div 5 in
      bnd (call (zmq_z85_decode api (c_string encoded))) (\<lambda>result.
      case result of
        None \<Rightarrow> throw_error api
      | Some bs \<Rightarrow>
          if length bs > dest_size then throw (UB ''buffer overflow'')
          else ret (bs @ replicate (dest_size - length bs) 0)))"

section \<open>Properties\<close>

text \<open>
  \<open>timers::timeout\<close> is right for the timeouts an \<open>int\<close> can hold: -1 (no timers) gives nullopt and
  any other value of 32 bits is returned. A longer timeout is not: it comes back reduced modulo
  2 to the 32, so 4294967295 ms (about 50 days) is reported as "no timers".
\<close>

theorem timers_timeout_range:
  "(\<forall>k. zmq_timers_timeout api (tm_ptr t) w = (of_int k, w') \<longrightarrow> - (2 ^ 31) \<le> k \<longrightarrow> k < 2 ^ 31 \<longrightarrow>
      timers_timeout api t w = (Inr (if k = - 1 then None else Some (of_int k)), w'))
   \<and> (zmq_timers_timeout api (tm_ptr t) w = (4294967295, w') \<longrightarrow> timers_timeout api t w = (Inr None, w'))"
proof (intro conjI allI impI)
  fix k :: int
  assume z: "zmq_timers_timeout api (tm_ptr t) w = (of_int k, w')" and k: "- (2 ^ 31) \<le> k" "k < 2 ^ 31"
  have u: "(ucast (of_int k :: 64 word) :: 32 word) = of_int k"
    by (rule bit_word_eqI) (simp add: bit_simps)
  have s: "sint (of_int k :: 32 word) = k"
    using k by (simp add: signed_of_int signed_take_bit_int_eq_self)
  then have "(of_int k :: 32 word) = - 1 \<longleftrightarrow> k = - 1"
    by (metis of_int_1 of_int_minus s sint_n1)
  moreover have "(scast (of_int k :: 32 word) :: 64 word) = of_int k"
    by (simp only: scast_eq s)
  ultimately show "timers_timeout api t w = (Inr (if k = - 1 then None else Some (of_int k)), w')"
    using z by (simp add: timers_timeout_def bnd_def call_def u Let_def)
next
  assume "zmq_timers_timeout api (tm_ptr t) w = (4294967295, w')"
  then show "timers_timeout api t w = (Inr None, w')"
    by (simp add: timers_timeout_def bnd_def call_def Let_def)
qed

definition list_misc_api :: "(lmsg, lib_state) misc_api" where
  "list_misc_api = poll_api.extend list_poll_api
     (misc_api.fields (\<lambda>w. (1, w)) (\<lambda>p w. (0, w)) (\<lambda>p i h a w. (1, w)) (\<lambda>p i w. (0, w)) (\<lambda>p i v w. (0, w))
       (\<lambda>p i w. (0, w)) (\<lambda>p w. (250, w)) (\<lambda>p w. (0, w)) (\<lambda>w. ((0, ''p'', ''s''), w)) (\<lambda>s w. ((0, ''p''), w))
       (\<lambda>bs w. (if length bs mod 4 = 0 then Some (replicate (length bs * 5 div 4) (CHR ''0'')) else None, w))
       (\<lambda>s w. (if length s mod 5 = 0 then Some (replicate (length s * 4 div 5) 0) else None, w)))"

lemmas list_misc_api_simps = list_poll_api_simps list_misc_api_def misc_api.defs

theorem timers_timeout_range_witness:
  "timers_timeout list_misc_api \<lparr>tm_ptr = 1\<rparr> lib_start = (Inr (Some 250), lib_start)"
proof -
  have "zmq_timers_timeout list_misc_api (tm_ptr \<lparr>tm_ptr = 1\<rparr>) lib_start = (of_int 250, lib_start)"
    by (simp add: list_misc_api_simps)
  from timers_timeout_range [THEN conjunct1, rule_format, OF this] show ?thesis by simp
qed

text \<open>
  \<open>zmq_z85_encode\<close> turns four bytes into five printable characters and \<open>zmq_z85_decode\<close> turns them
  back.
\<close>

definition z85_ok :: "('m, 'w, 'x) misc_api_scheme \<Rightarrow> byte list \<Rightarrow> 'w \<Rightarrow> bool" where
  "z85_ok api dat w \<longleftrightarrow>
     (\<exists>s. zmq_z85_encode api dat w = (Some s, w) \<and> length s = length dat * 5 div 4
        \<and> CHR 0x00 \<notin> set s \<and> zmq_z85_decode api s w = (Some dat, w))"

lemma pop_nuls_replicate: "CHR 0x00 \<notin> set s \<Longrightarrow> s \<noteq> [] \<Longrightarrow> pop_nuls (s @ replicate n (CHR 0x00)) = Inr s"
proof (induction n)
  case 0
  then show ?case by (subst pop_nuls.simps) (auto dest: last_in_set)
next
  case (Suc n)
  have "s @ replicate (Suc n) (CHR 0x00) = (s @ replicate n (CHR 0x00)) @ [CHR 0x00]"
    by (simp add: replicate_append_same)
  with Suc show ?case by (subst pop_nuls.simps) (simp only: butlast_snoc last_snoc, simp)
qed

text \<open>
  C40. The buffer of \<open>z85_encode\<close> is too small. For data of 4 to 20 bytes (a multiple of 4, as Z85 needs)
  it returns the encoding, and \<open>z85_decode\<close> gives the data back; for every longer one the encoder
  writes past the end of the buffer (6/5 of the size is reserved where 5/4 is needed), and for empty
  data the loop reads \<open>back()\<close> of an empty string.
\<close>

theorem z85_encode_buffer:
  assumes "z85_ok api dat w" "length dat mod 4 = 0"
  shows "if dat = [] \<or> length dat \<ge> 24 then is_ub (fst (z85_encode api dat w))
    else \<exists>s. z85_encode api dat w = (Inr s, w) \<and> length s = length dat * 5 div 4
         \<and> z85_decode api s w = (Inr dat, w)"
proof -
  obtain s where s: "zmq_z85_encode api dat w = (Some s, w)" "length s = length dat * 5 div 4"
    "CHR 0x00 \<notin> set s" "zmq_z85_decode api s w = (Some dat, w)"
    using assms unfolding z85_ok_def by metis
  obtain k where k: "length dat = 4 * k" using assms(2) by (metis mod_0_imp_dvd dvdE)
  have len: "length s = 5 * k" using s(2) k by simp
  consider "dat = []" | "k \<ge> 6" | "dat \<noteq> []" "1 \<le> k" "k \<le> 5"
    using k by (cases "k = 0"; cases "k \<ge> 6") auto
  then show ?thesis
  proof cases
    case 1
    with s len k show ?thesis
      by (simp add: z85_encode_def bnd_def call_def pop_nuls.simps)
  next
    case 2
    have "4 * k * 6 div 5 + 1 < 5 * k"
    proof -
      have "4 * k * 6 div 5 * 5 \<le> 4 * k * 6" by (rule div_times_less_eq_dividend)
      then show ?thesis using 2 by linarith
    qed
    then have "length s > length dat * 6 div 5 + 1" "length dat \<ge> 24" using len k 2 by simp_all
    with s show ?thesis
      by (simp add: z85_encode_def bnd_def call_def)
  next
    case 3
    then have "k = 1 \<or> k = 2 \<or> k = 3 \<or> k = 4 \<or> k = 5" by auto
    then have fit: "\<not> length s > length dat * 6 div 5 + 1" "length s * 4 div 5 = length dat" using len k by auto
    have ne: "s \<noteq> []" using 3 len by auto
    have e: "z85_encode api dat w = (Inr s, w)"
      using s(1) fit(1) pop_nuls_replicate [OF s(3) ne] by (simp add: z85_encode_def bnd_def call_def Let_def)
    have "z85_decode api s w = (Inr dat, w)"
      using s(4) fit(2) c_string_id [OF s(3)] by (simp add: z85_decode_def bnd_def call_def Let_def)
    with e s(2) 3 k show ?thesis by auto
  qed
qed

theorem z85_encode_buffer_witness:
  "is_ub (fst (z85_encode list_misc_api (replicate 32 0) lib_start))
   \<and> (\<exists>s. z85_encode list_misc_api (replicate 4 0) lib_start = (Inr s, lib_start) \<and> length s = 5
        \<and> z85_decode list_misc_api s lib_start = (Inr (replicate 4 0), lib_start))"
proof -
  have ok: "z85_ok list_misc_api (replicate (4 * k) 0) lib_start" for k
    by (simp add: z85_ok_def list_misc_api_simps)
  from z85_encode_buffer [OF ok [of 8]] z85_encode_buffer [OF ok [of 1]] show ?thesis by simp
qed

end
