(* ===== verification/ZmqPoller.thy ===== *)
theory ZmqPoller
  imports ZmqMisc "HOL-Library.AList"
begin

text \<open>
  The draft pollers: \<open>poller_t\<close> (\<open>zmq.hpp\<close>), \<open>poller_ref_t\<close> and \<open>active_poller_t\<close>
  (\<open>zmq_addon.hpp\<close>). A user-data pointer is a natural number, 0 for null. The active poller owns its
  handlers through shared pointers: \<open>ap_heap\<close> is what lies at each address, and an address is alive
  while \<open>handlers\<close> or \<open>poller_handlers\<close> holds it; calling a handler that is not alive is undefined
  behaviour. Handlers are an abstract type with a parameter \<open>invoke\<close> that runs one on the poller.
\<close>

section \<open>\<open>poller_t\<close>\<close>

type_synonym event_flags = "16 word"

definition event_or :: "event_flags \<Rightarrow> event_flags \<Rightarrow> event_flags" where
  "event_or a b = enum_bit_or a b"

definition event_and :: "event_flags \<Rightarrow> event_flags \<Rightarrow> event_flags" where
  "event_and a b = enum_bit_and a b"

definition event_xor :: "event_flags \<Rightarrow> event_flags \<Rightarrow> event_flags" where
  "event_xor a b = enum_bit_xor a b"

definition event_not :: "event_flags \<Rightarrow> event_flags" where
  "event_not a = enum_bit_not a"

record poller_event =
  pe_socket :: socket_ref
  pe_fd :: int
  pe_user_data :: nat
  pe_events :: event_flags

record ('m, 'w) poller_api = "('m, 'w) misc_api" +
  zmq_poller_new :: "'w \<Rightarrow> ptr \<times> 'w"
  zmq_poller_destroy :: "ptr \<Rightarrow> 'w \<Rightarrow> int \<times> 'w"
  zmq_poller_add :: "ptr \<Rightarrow> ptr \<Rightarrow> nat \<Rightarrow> event_flags \<Rightarrow> 'w \<Rightarrow> int \<times> 'w"
  zmq_poller_add_fd :: "ptr \<Rightarrow> int \<Rightarrow> nat \<Rightarrow> event_flags \<Rightarrow> 'w \<Rightarrow> int \<times> 'w"
  zmq_poller_remove :: "ptr \<Rightarrow> ptr \<Rightarrow> 'w \<Rightarrow> int \<times> 'w"
  zmq_poller_remove_fd :: "ptr \<Rightarrow> int \<Rightarrow> 'w \<Rightarrow> int \<times> 'w"
  zmq_poller_modify :: "ptr \<Rightarrow> ptr \<Rightarrow> event_flags \<Rightarrow> 'w \<Rightarrow> int \<times> 'w"
  zmq_poller_modify_fd :: "ptr \<Rightarrow> int \<Rightarrow> event_flags \<Rightarrow> 'w \<Rightarrow> int \<times> 'w"
  zmq_poller_wait_all :: "ptr \<Rightarrow> int \<Rightarrow> int \<Rightarrow> 'w \<Rightarrow> (int \<times> poller_event list) \<times> 'w"
  zmq_poller_size :: "ptr \<Rightarrow> 'w \<Rightarrow> int \<times> 'w"
  hash_int :: "int \<Rightarrow> 64 word"

definition poller_ctor :: "('m, 'w, 'x) poller_api_scheme \<Rightarrow> ('w, ptr) comp" where
  "poller_ctor api = bnd (call (zmq_poller_new api)) (\<lambda>p. if p = 0 then throw_error api else ret p)"

text \<open>The deleter of the \<open>unique_ptr\<close>, which runs it on a non-null pointer only.\<close>

definition destroy_poller :: "('m, 'w, 'x) poller_api_scheme \<Rightarrow> ptr \<Rightarrow> ('w, unit) comp" where
  "destroy_poller api p =
     (if p = 0 then ret ()
      else bnd (call (zmq_poller_destroy api p)) (\<lambda>rc. zmq_assert (rc = 0)))"

definition poller_add_impl ::
  "('m, 'w, 'x) poller_api_scheme \<Rightarrow> ptr \<Rightarrow> socket_ref \<Rightarrow> event_flags \<Rightarrow> nat \<Rightarrow> ('w, unit) comp" where
  "poller_add_impl api p socket events user_data =
     check_zero api (zmq_poller_add api p (sock_handle socket) user_data events)"

definition poller_add_impl_fd ::
  "('m, 'w, 'x) poller_api_scheme \<Rightarrow> ptr \<Rightarrow> int \<Rightarrow> event_flags \<Rightarrow> nat \<Rightarrow> ('w, unit) comp" where
  "poller_add_impl_fd api p fd events user_data =
     check_zero api (zmq_poller_add_fd api p fd user_data events)"

definition poller_add ::
  "('m, 'w, 'x) poller_api_scheme \<Rightarrow> ptr \<Rightarrow> socket_ref \<Rightarrow> event_flags \<Rightarrow> nat \<Rightarrow> ('w, unit) comp" where
  "poller_add api p socket events user_data = poller_add_impl api p socket events user_data"

definition poller_add_no_data ::
  "('m, 'w, 'x) poller_api_scheme \<Rightarrow> ptr \<Rightarrow> socket_ref \<Rightarrow> event_flags \<Rightarrow> ('w, unit) comp" where
  "poller_add_no_data api p socket events = poller_add_impl api p socket events 0"

definition poller_add_fd ::
  "('m, 'w, 'x) poller_api_scheme \<Rightarrow> ptr \<Rightarrow> int \<Rightarrow> event_flags \<Rightarrow> nat \<Rightarrow> ('w, unit) comp" where
  "poller_add_fd api p fd events user_data = poller_add_impl_fd api p fd events user_data"

definition poller_add_fd_no_data ::
  "('m, 'w, 'x) poller_api_scheme \<Rightarrow> ptr \<Rightarrow> int \<Rightarrow> event_flags \<Rightarrow> ('w, unit) comp" where
  "poller_add_fd_no_data api p fd events = poller_add_impl_fd api p fd events 0"

definition poller_remove :: "('m, 'w, 'x) poller_api_scheme \<Rightarrow> ptr \<Rightarrow> socket_ref \<Rightarrow> ('w, unit) comp" where
  "poller_remove api p socket = check_zero api (zmq_poller_remove api p (sock_handle socket))"

definition poller_remove_fd :: "('m, 'w, 'x) poller_api_scheme \<Rightarrow> ptr \<Rightarrow> int \<Rightarrow> ('w, unit) comp" where
  "poller_remove_fd api p fd = check_zero api (zmq_poller_remove_fd api p fd)"

definition poller_modify ::
  "('m, 'w, 'x) poller_api_scheme \<Rightarrow> ptr \<Rightarrow> socket_ref \<Rightarrow> event_flags \<Rightarrow> ('w, unit) comp" where
  "poller_modify api p socket events = check_zero api (zmq_poller_modify api p (sock_handle socket) events)"

definition poller_modify_fd ::
  "('m, 'w, 'x) poller_api_scheme \<Rightarrow> ptr \<Rightarrow> int \<Rightarrow> event_flags \<Rightarrow> ('w, unit) comp" where
  "poller_modify_fd api p fd events = check_zero api (zmq_poller_modify_fd api p fd events)"

text \<open>The count and the events written, for a sequence of \<open>n\<close> events.\<close>

definition poller_wait_all ::
  "('m, 'w, 'x) poller_api_scheme \<Rightarrow> ptr \<Rightarrow> nat \<Rightarrow> 64 word \<Rightarrow> ('w, nat \<times> poller_event list) comp" where
  "poller_wait_all api p n timeout =
     bnd (call (zmq_poller_wait_all api p (sint (of_nat n :: 32 word)) (sint timeout))) (\<lambda>(rc, evs).
     if rc > 0 then ret (nat rc, evs)
     else bnd (gets (zmq_errno api)) (\<lambda>errno.
          if errno = EAGAIN api then ret (0, evs) else throw_error api))"

definition poller_size :: "('m, 'w, 'x) poller_api_scheme \<Rightarrow> ptr \<Rightarrow> ('w, nat) comp" where
  "poller_size api p =
     bnd (call (zmq_poller_size api p)) (\<lambda>rc. bnd (zmq_assert (rc \<ge> 0)) (\<lambda>_. ret (nat (max rc 0))))"

section \<open>\<open>poller_ref_t\<close>\<close>

datatype ref_type = RT_SOCKET | RT_FD

record poller_ref =
  pr_type :: ref_type
  pr_socket :: socket_ref
  pr_fd :: int

definition poller_ref_of_socket :: "socket_ref \<Rightarrow> poller_ref" where
  "poller_ref_of_socket socket = \<lparr>pr_type = RT_SOCKET, pr_socket = socket, pr_fd = 0\<rparr>"

definition poller_ref_of_fd :: "int \<Rightarrow> poller_ref" where
  "poller_ref_of_fd fd = \<lparr>pr_type = RT_FD, pr_socket = socket_ref_null, pr_fd = fd\<rparr>"

definition poller_ref_default :: poller_ref where
  "poller_ref_default = poller_ref_of_socket socket_ref_null"

definition hash_combine :: "64 word \<Rightarrow> 64 word \<Rightarrow> 64 word" where
  "hash_combine seed hv = seed XOR (hv + 0x9e3779b9 + push_bit 6 seed + drop_bit 2 seed)"

definition poller_ref_hash :: "('m, 'w, 'x) poller_api_scheme \<Rightarrow> poller_ref \<Rightarrow> 64 word" where
  "poller_ref_hash api ref =
     (let h = 0;
          h = hash_combine h (hash_int api (case pr_type ref of RT_SOCKET \<Rightarrow> 0 | RT_FD \<Rightarrow> 1));
          h = hash_combine h (socket_ref_hash api (pr_socket ref))
      in hash_combine h (hash_int api (pr_fd ref)))"

definition poller_ref_eq :: "poller_ref \<Rightarrow> poller_ref \<Rightarrow> bool" where
  "poller_ref_eq ref other \<longleftrightarrow>
     pr_type ref = pr_type other \<and> socket_eq (pr_socket ref) (pr_socket other) \<and> pr_fd ref = pr_fd other"

definition poller_ref_std_hash :: "('m, 'w, 'x) poller_api_scheme \<Rightarrow> poller_ref \<Rightarrow> 64 word" where
  "poller_ref_std_hash api ref = poller_ref_hash api ref"

lemma poller_ref_eq_iff: "poller_ref_eq a b \<longleftrightarrow> a = b"
  by (cases a; cases b) (auto simp: poller_ref_eq_def socket_eq_def sock_handle_def)

section \<open>\<open>active_poller_t\<close>\<close>

record 'h active_poller =
  ap_need_rebuild :: bool
  ap_base :: ptr
  ap_handlers :: "(poller_ref \<times> nat) list"
  ap_events :: nat
  ap_poller_handlers :: "nat list"
  ap_heap :: "nat \<Rightarrow> 'h"
  ap_next :: nat

type_synonym ('h, 'w, 'a) ap_comp = "('h active_poller \<times> 'w, 'a) comp"

definition ap_ctor :: "('m, 'w, 'x) poller_api_scheme \<Rightarrow> 'h \<Rightarrow> ('w, 'h active_poller) comp" where
  "ap_ctor api some_handler = bnd (poller_ctor api) (\<lambda>p.
     ret \<lparr>ap_need_rebuild = False, ap_base = p, ap_handlers = [], ap_events = 0, ap_poller_handlers = [],
          ap_heap = (\<lambda>_. some_handler), ap_next = 1\<rparr>)"

text \<open>
  \<open>add\<close>: the handler is copied to a new shared object; \<open>emplace\<close> keeps an existing entry; when the
  base poller throws, the entry is erased again.
\<close>

definition ap_add_with ::
  "('m, 'w, 'x) poller_api_scheme \<Rightarrow> string \<Rightarrow> poller_ref \<Rightarrow> (ptr \<Rightarrow> nat \<Rightarrow> ('w, unit) comp) \<Rightarrow> 'h option
     \<Rightarrow> ('h, 'w, unit) ap_comp" where
  "ap_add_with api msg ref base_add handler =
     (case handler of
        None \<Rightarrow> throw (InvalidArgument msg)
      | Some h \<Rightarrow>
          bnd get_this (\<lambda>ap.
          let addr = ap_next ap; ap1 = ap\<lparr>ap_next := addr + 1, ap_heap := (ap_heap ap)(addr := h)\<rparr> in
          if map_of (ap_handlers ap) ref \<noteq> None then
            bnd (put_this ap1) (\<lambda>_. throw (ErrorT (error_num (error_t_of (EINVAL api)))))
          else
            (\<lambda>(_, w). case base_add (ap_base ap) addr w of
               (Inl e, w') \<Rightarrow> (Inl e, (ap1\<lparr>ap_handlers := AList.delete ref ((ref, addr) # ap_handlers ap)\<rparr>, w'))
             | (Inr _, w') \<Rightarrow>
                 (Inr (), (ap1\<lparr>ap_handlers := (ref, addr) # ap_handlers ap, ap_need_rebuild := True\<rparr>, w')))))"

definition ap_add_socket ::
  "('m, 'w, 'x) poller_api_scheme \<Rightarrow> socket_ref \<Rightarrow> event_flags \<Rightarrow> 'h option \<Rightarrow> ('h, 'w, unit) ap_comp" where
  "ap_add_socket api socket events handler =
     ap_add_with api ''null handler in active_poller_t::add (socket)'' (poller_ref_of_socket socket)
       (\<lambda>p addr. poller_add api p socket events addr) handler"

definition ap_add_fd ::
  "('m, 'w, 'x) poller_api_scheme \<Rightarrow> int \<Rightarrow> event_flags \<Rightarrow> 'h option \<Rightarrow> ('h, 'w, unit) ap_comp" where
  "ap_add_fd api fd events handler =
     ap_add_with api ''null handler in active_poller_t::add (fd)'' (poller_ref_of_fd fd)
       (\<lambda>p addr. poller_add_fd api p fd events addr) handler"

definition ap_erase :: "poller_ref \<Rightarrow> ('h, 'w, unit) ap_comp" where
  "ap_erase ref = bnd get_this (\<lambda>ap.
     put_this (ap\<lparr>ap_handlers := AList.delete ref (ap_handlers ap), ap_need_rebuild := True\<rparr>))"

definition ap_remove_socket ::
  "('m, 'w, 'x) poller_api_scheme \<Rightarrow> socket_ref \<Rightarrow> ('h, 'w, unit) ap_comp" where
  "ap_remove_socket api socket =
     bnd get_this (\<lambda>ap.
     bnd (on_lib (poller_remove api (ap_base ap) socket)) (\<lambda>_. ap_erase (poller_ref_of_socket socket)))"

definition ap_remove_fd :: "('m, 'w, 'x) poller_api_scheme \<Rightarrow> int \<Rightarrow> ('h, 'w, unit) ap_comp" where
  "ap_remove_fd api fd =
     bnd get_this (\<lambda>ap.
     bnd (on_lib (poller_remove_fd api (ap_base ap) fd)) (\<lambda>_. ap_erase (poller_ref_of_fd fd)))"

definition ap_modify_socket ::
  "('m, 'w, 'x) poller_api_scheme \<Rightarrow> socket_ref \<Rightarrow> event_flags \<Rightarrow> ('h, 'w, unit) ap_comp" where
  "ap_modify_socket api socket events =
     bnd get_this (\<lambda>ap. on_lib (poller_modify api (ap_base ap) socket events))"

definition ap_modify_fd ::
  "('m, 'w, 'x) poller_api_scheme \<Rightarrow> int \<Rightarrow> event_flags \<Rightarrow> ('h, 'w, unit) ap_comp" where
  "ap_modify_fd api fd events =
     bnd get_this (\<lambda>ap. on_lib (poller_modify_fd api (ap_base ap) fd events))"

definition ap_alive :: "'h active_poller \<Rightarrow> nat \<Rightarrow> bool" where
  "ap_alive ap addr \<longleftrightarrow> addr \<in> snd ` set (ap_handlers ap) \<union> set (ap_poller_handlers ap)"

definition ap_rebuild :: "'h active_poller \<Rightarrow> 'h active_poller" where
  "ap_rebuild ap =
     (if ap_need_rebuild ap
      then ap\<lparr>ap_events := length (ap_handlers ap), ap_poller_handlers := map snd (ap_handlers ap),
              ap_need_rebuild := False\<rparr>
      else ap)"

fun ap_dispatch ::
  "('h \<Rightarrow> event_flags \<Rightarrow> ('h, 'w, unit) ap_comp) \<Rightarrow> poller_event list \<Rightarrow> ('h, 'w, unit) ap_comp" where
  "ap_dispatch invoke [] = ret ()"
| "ap_dispatch invoke (ev # evs) =
     bnd (zmq_assert (pe_user_data ev \<noteq> 0)) (\<lambda>_.
     bnd get_this (\<lambda>ap.
     if \<not> ap_alive ap (pe_user_data ev) then throw (UB ''dangling handler'')
     else bnd (invoke (ap_heap ap (pe_user_data ev)) (pe_events ev)) (\<lambda>_. ap_dispatch invoke evs)))"

definition ap_wait ::
  "('m, 'w, 'x) poller_api_scheme \<Rightarrow> ('h \<Rightarrow> event_flags \<Rightarrow> ('h, 'w, unit) ap_comp) \<Rightarrow> 64 word
     \<Rightarrow> ('h, 'w, nat) ap_comp" where
  "ap_wait api invoke timeout =
     bnd get_this (\<lambda>ap.
     bnd (put_this (ap_rebuild ap)) (\<lambda>_.
     bnd get_this (\<lambda>ap.
     bnd (on_lib (poller_wait_all api (ap_base ap) (ap_events ap) timeout)) (\<lambda>(count, evs).
     bnd (ap_dispatch invoke (take count evs)) (\<lambda>_. ret count)))))"

definition ap_empty :: "'h active_poller \<Rightarrow> bool" where
  "ap_empty ap \<longleftrightarrow> ap_handlers ap = []"

definition ap_size :: "'h active_poller \<Rightarrow> nat" where
  "ap_size ap = length (ap_handlers ap)"

section \<open>Handlers and registrations\<close>

text \<open>What a client, or a handler while it runs, does with the poller between waits.\<close>

datatype 'h ap_cmd =
    Add_socket socket_ref event_flags "'h option"
  | Add_fd int event_flags "'h option"
  | Remove_socket socket_ref
  | Remove_fd int
  | Modify_socket socket_ref event_flags
  | Modify_fd int event_flags

fun ap_do :: "('m, 'w, 'x) poller_api_scheme \<Rightarrow> 'h ap_cmd \<Rightarrow> ('h, 'w, unit) ap_comp" where
  "ap_do api (Add_socket s ev h) = ap_add_socket api s ev h"
| "ap_do api (Add_fd fd ev h) = ap_add_fd api fd ev h"
| "ap_do api (Remove_socket s) = ap_remove_socket api s"
| "ap_do api (Remove_fd fd) = ap_remove_fd api fd"
| "ap_do api (Modify_socket s ev) = ap_modify_socket api s ev"
| "ap_do api (Modify_fd fd ev) = ap_modify_fd api fd ev"

fun ap_script :: "('m, 'w, 'x) poller_api_scheme \<Rightarrow> 'h ap_cmd list \<Rightarrow> ('h, 'w, unit) ap_comp" where
  "ap_script api [] = ret ()"
| "ap_script api (c # cs) = bnd (ap_do api c) (\<lambda>_. ap_script api cs)"

text \<open>
  libzmq's poller \<open>p\<close> keeps a registry \<open>reg\<close> from sockets and descriptors to user data: a successful
  call registers or removes one, a failed call changes nothing, and waiting reports only user data
  that is registered.
\<close>

definition reg_after :: "int \<Rightarrow> 'r \<Rightarrow> 'r \<Rightarrow> 'r" where
  "reg_after rc done same = (if rc = 0 then done else same)"

definition poller_lib ::
  "('m, 'w, 'x) poller_api_scheme \<Rightarrow> ptr \<Rightarrow> ('w \<Rightarrow> poller_ref \<rightharpoonup> nat) \<Rightarrow> bool" where
  "poller_lib api p reg \<longleftrightarrow>
     (\<forall>(s :: socket_ref) ud ev w rc w'. zmq_poller_add api p (sock_handle s) ud ev w = (rc, w') \<longrightarrow>
        reg w' = reg_after rc ((reg w)(poller_ref_of_socket s \<mapsto> ud)) (reg w))
   \<and> (\<forall>fd ud ev w rc w'. zmq_poller_add_fd api p fd ud ev w = (rc, w') \<longrightarrow>
        reg w' = reg_after rc ((reg w)(poller_ref_of_fd fd \<mapsto> ud)) (reg w))
   \<and> (\<forall>(s :: socket_ref) w rc w'. zmq_poller_remove api p (sock_handle s) w = (rc, w') \<longrightarrow>
        reg w' = reg_after rc ((reg w)(poller_ref_of_socket s := None)) (reg w))
   \<and> (\<forall>fd w rc w'. zmq_poller_remove_fd api p fd w = (rc, w') \<longrightarrow>
        reg w' = reg_after rc ((reg w)(poller_ref_of_fd fd := None)) (reg w))
   \<and> (\<forall>(s :: socket_ref) ev w rc w'. zmq_poller_modify api p (sock_handle s) ev w = (rc, w') \<longrightarrow> reg w' = reg w)
   \<and> (\<forall>fd ev w rc w'. zmq_poller_modify_fd api p fd ev w = (rc, w') \<longrightarrow> reg w' = reg w)
   \<and> (\<forall>n t w rc evs w'. zmq_poller_wait_all api p n t w = ((rc, evs), w') \<longrightarrow>
        reg w' = reg w \<and> (\<forall>ev \<in> set (take (nat rc) evs). pe_user_data ev \<in> ran (reg w)))"

text \<open>
  The invariant: the handlers of the poller are exactly the registrations of libzmq, at non-null
  addresses, and unless a rebuild is due each of them is also held for the next dispatch.
\<close>

definition ap_inv :: "ptr \<Rightarrow> ('w \<Rightarrow> poller_ref \<rightharpoonup> nat) \<Rightarrow> 'h active_poller \<times> 'w \<Rightarrow> bool" where
  "ap_inv p reg st = (case st of (ap, w) \<Rightarrow>
     ap_base ap = p \<and> map_of (ap_handlers ap) = reg w \<and> distinct (map fst (ap_handlers ap))
     \<and> 0 < ap_next ap \<and> (\<forall>a \<in> snd ` set (ap_handlers ap). 0 < a)
     \<and> (\<not> ap_need_rebuild ap \<longrightarrow> snd ` set (ap_handlers ap) \<subseteq> set (ap_poller_handlers ap)))"

definition ok_result :: "'a res \<Rightarrow> bool" where
  "ok_result r \<longleftrightarrow> (case r of Inr _ \<Rightarrow> True | Inl (ErrorT _) \<Rightarrow> True | Inl (InvalidArgument _) \<Rightarrow> True | _ \<Rightarrow> False)"

lemma ok_result_simps [simp]:
  "ok_result (Inr x)" "ok_result (Inl (ErrorT e))" "ok_result (Inl (InvalidArgument m))"
  by (simp_all add: ok_result_def)

lemma delete_absent: "map_of xs k = None \<Longrightarrow> AList.delete k xs = xs"
  by (induction xs) (auto split: if_splits)

text \<open>A base call that registers \<open>ref\<close> when it succeeds and changes nothing when it throws.\<close>

lemma ap_add_with_inv:
  assumes inv: "ap_inv p reg (ap, w)"
    and base: "\<And>addr r w'. base_add p addr w = (r, w') \<Longrightarrow>
      (r = Inr () \<and> reg w' = (reg w)(ref \<mapsto> addr)) \<or> ((\<exists>e. r = Inl (ErrorT e)) \<and> reg w' = reg w)"
    and run: "ap_add_with api msg ref base_add handler (ap, w) = (r, (ap', w'))"
  shows "ap_inv p reg (ap', w') \<and> ok_result r \<and> ap_poller_handlers ap' = ap_poller_handlers ap"
proof (cases "handler = None \<or> map_of (ap_handlers ap) ref \<noteq> None")
  case True
  with inv run show ?thesis
    by (auto simp: ap_add_with_def ap_inv_def bnd_def Let_def image_subset_iff split: option.splits) force+
next
  case False
  then obtain h where h: "handler = Some h" and new: "map_of (ap_handlers ap) ref = None" by auto
  obtain r1 w1 where b: "base_add p (ap_next ap) w = (r1, w1)" by (metis surj_pair)
  have p: "ap_base ap = p" using inv by (simp add: ap_inv_def)
  let ?ap1 = "ap\<lparr>ap_next := ap_next ap + 1, ap_heap := (ap_heap ap)(ap_next ap := h)\<rparr>"
  have absent: "ref \<notin> fst ` set (ap_handlers ap)" using new by (simp add: map_of_eq_None_iff)
  from base [OF b] consider
      "r1 = Inr ()" "reg w1 = (reg w)(ref \<mapsto> ap_next ap)"
    | e where "r1 = Inl (ErrorT e)" "reg w1 = reg w" by blast
  then show ?thesis
  proof cases
    case 1
    with run h new b p have "r = Inr ()" "w' = w1"
      "ap' = ?ap1\<lparr>ap_handlers := (ref, ap_next ap) # ap_handlers ap, ap_need_rebuild := True\<rparr>"
      by (simp_all add: ap_add_with_def bnd_def Let_def)
    with inv 1 absent show ?thesis by (simp add: ap_inv_def)
  next
    case (2 e)
    with run h new b p have "r = Inl (ErrorT e)" "w' = w1" "ap' = ?ap1"
      by (simp_all add: ap_add_with_def bnd_def Let_def delete_absent)
    with inv 2 show ?thesis by (simp add: ap_inv_def)
  qed
qed

lemma ap_erase_inv:
  assumes "ap_inv p reg (ap, w)" "reg w' = (reg w)(ref := None)"
    and "ap_erase ref (ap, w') = (r, (ap', w''))"
  shows "ap_inv p reg (ap', w'') \<and> r = Inr () \<and> ap_poller_handlers ap' = ap_poller_handlers ap"
proof -
  have "set (AList.delete ref (ap_handlers ap)) \<subseteq> set (ap_handlers ap)"
    by (auto simp: AList.delete_eq)
  with assms show ?thesis
    by (auto simp: ap_erase_def bnd_def ap_inv_def AList.delete_conv' AList.distinct_delete)+
qed

lemma poller_libD:
  assumes "poller_lib api p reg"
  shows "zmq_poller_add api p (sock_handle s) ud ev w = (rc, w') \<Longrightarrow>
        reg w' = reg_after rc ((reg w)(poller_ref_of_socket s \<mapsto> ud)) (reg w)"
    and "zmq_poller_add_fd api p fd ud ev w = (rc, w') \<Longrightarrow>
        reg w' = reg_after rc ((reg w)(poller_ref_of_fd fd \<mapsto> ud)) (reg w)"
    and "zmq_poller_remove api p (sock_handle s) w = (rc, w') \<Longrightarrow>
        reg w' = reg_after rc ((reg w)(poller_ref_of_socket s := None)) (reg w)"
    and "zmq_poller_remove_fd api p fd w = (rc, w') \<Longrightarrow>
        reg w' = reg_after rc ((reg w)(poller_ref_of_fd fd := None)) (reg w)"
    and "zmq_poller_modify api p (sock_handle s) ev w = (rc, w') \<Longrightarrow> reg w' = reg w"
    and "zmq_poller_modify_fd api p fd ev w = (rc, w') \<Longrightarrow> reg w' = reg w"
    and "zmq_poller_wait_all api p n t w = ((rc, evs), w') \<Longrightarrow>
        reg w' = reg w \<and> (\<forall>ev \<in> set (take (nat rc) evs). pe_user_data ev \<in> ran (reg w))"
  using assms unfolding poller_lib_def by metis+

lemma ap_remove_inv:
  assumes inv: "ap_inv p reg (ap, w)"
    and base: "\<And>rc w'. f w = (rc, w') \<Longrightarrow> reg w' = reg_after rc ((reg w)(ref := None)) (reg w)"
    and run: "bnd (on_lib (check_zero api f)) (\<lambda>_. ap_erase ref) (ap, w) = (r, (ap', w'))"
  shows "ap_inv p reg (ap', w') \<and> ok_result r \<and> ap_poller_handlers ap' = ap_poller_handlers ap"
proof -
  obtain r1 w1 where c: "check_zero api f w = (r1, w1)" by (metis surj_pair)
  from check_zero_cases [OF this] obtain rc where rc: "f w = (rc, w1)"
    "if rc = 0 then r1 = Inr () else r1 = Inl (ErrorT (zmq_errno api w1))" by blast
  show ?thesis
  proof (cases "rc = 0")
    case True
    with base [OF rc(1)] have "reg w1 = (reg w)(ref := None)" by (simp add: reg_after_def)
    moreover from True rc c run have "ap_erase ref (ap, w1) = (r, (ap', w'))"
      by (simp add: bnd_def on_lib_def)
    ultimately show ?thesis using ap_erase_inv [OF inv] by fastforce
  next
    case False
    with base [OF rc(1)] rc c run inv show ?thesis
      by (auto simp: bnd_def on_lib_def reg_after_def ap_inv_def)
  qed
qed

lemma ap_modify_inv:
  assumes inv: "ap_inv p reg (ap, w)" and base: "\<And>rc w'. f w = (rc, w') \<Longrightarrow> reg w' = reg w"
    and run: "on_lib (check_zero api f) (ap, w) = (r, (ap', w'))"
  shows "ap_inv p reg (ap', w') \<and> ok_result r \<and> ap_poller_handlers ap' = ap_poller_handlers ap"
proof -
  obtain r1 w1 where c: "check_zero api f w = (r1, w1)" by (metis surj_pair)
  from check_zero_cases [OF this] obtain rc where rc: "f w = (rc, w1)"
    "if rc = 0 then r1 = Inr () else r1 = Inl (ErrorT (zmq_errno api w1))" by blast
  with base [OF rc(1)] c run inv show ?thesis
    by (auto simp: on_lib_def ap_inv_def split: if_splits)
qed

lemma ap_do_inv:
  assumes lib: "poller_lib api p reg" and inv: "ap_inv p reg (ap, w)"
    and run: "ap_do api c (ap, w) = (r, (ap', w'))"
  shows "ap_inv p reg (ap', w') \<and> ok_result r \<and> ap_poller_handlers ap' = ap_poller_handlers ap"
proof (cases c)
  case (Add_socket s ev h)
  show ?thesis
  proof (rule ap_add_with_inv [OF inv])
    fix addr r w' assume "poller_add api p s ev addr w = (r, w')"
    from check_zero_cases [OF this [unfolded poller_add_def poller_add_impl_def]] poller_libD(1) [OF lib]
    show "(r = Inr () \<and> reg w' = (reg w)(poller_ref_of_socket s \<mapsto> addr))
        \<or> ((\<exists>e. r = Inl (ErrorT e)) \<and> reg w' = reg w)"
      by (auto simp: reg_after_def split: if_splits)
  qed (use run Add_socket in \<open>simp add: ap_add_socket_def\<close>)
next
  case (Add_fd fd ev h)
  show ?thesis
  proof (rule ap_add_with_inv [OF inv])
    fix addr r w' assume "poller_add_fd api p fd ev addr w = (r, w')"
    from check_zero_cases [OF this [unfolded poller_add_fd_def poller_add_impl_fd_def]] poller_libD(2) [OF lib]
    show "(r = Inr () \<and> reg w' = (reg w)(poller_ref_of_fd fd \<mapsto> addr))
        \<or> ((\<exists>e. r = Inl (ErrorT e)) \<and> reg w' = reg w)"
      by (auto simp: reg_after_def split: if_splits)
  qed (use run Add_fd in \<open>simp add: ap_add_fd_def\<close>)
next
  case (Remove_socket s)
  have "ap_base ap = p" using inv by (simp add: ap_inv_def)
  with ap_remove_inv [OF inv poller_libD(3) [OF lib]] run Remove_socket show ?thesis
    by (simp add: ap_remove_socket_def poller_remove_def bnd_step_Inr)
next
  case (Remove_fd fd)
  have "ap_base ap = p" using inv by (simp add: ap_inv_def)
  with ap_remove_inv [OF inv poller_libD(4) [OF lib]] run Remove_fd show ?thesis
    by (simp add: ap_remove_fd_def poller_remove_fd_def bnd_step_Inr)
next
  case (Modify_socket s ev)
  have "ap_base ap = p" using inv by (simp add: ap_inv_def)
  with ap_modify_inv [OF inv poller_libD(5) [OF lib]] run Modify_socket show ?thesis
    by (simp add: ap_modify_socket_def poller_modify_def bnd_step_Inr)
next
  case (Modify_fd fd ev)
  have "ap_base ap = p" using inv by (simp add: ap_inv_def)
  with ap_modify_inv [OF inv poller_libD(6) [OF lib]] run Modify_fd show ?thesis
    by (simp add: ap_modify_fd_def poller_modify_fd_def bnd_step_Inr)
qed

lemma ap_script_inv:
  assumes "poller_lib api p reg"
  shows "ap_inv p reg (ap, w) \<Longrightarrow> ap_script api cs (ap, w) = (r, (ap', w')) \<Longrightarrow>
    ap_inv p reg (ap', w') \<and> ok_result r \<and> ap_poller_handlers ap' = ap_poller_handlers ap"
proof (induction cs arbitrary: ap w)
  case (Cons c cs)
  obtain r1 ap1 w1 where c: "ap_do api c (ap, w) = (r1, (ap1, w1))" by (metis surj_pair)
  from ap_do_inv [OF assms Cons.prems(1) c]
  have 1: "ap_inv p reg (ap1, w1)" "ok_result r1" "ap_poller_handlers ap1 = ap_poller_handlers ap" by auto
  show ?case
  proof (cases r1)
    case (Inl e)
    with Cons.prems(2) c 1 show ?thesis by (auto simp: bnd_def ok_result_def split: exn.splits)
  next
    case (Inr u)
    with Cons.prems(2) c have "ap_script api cs (ap1, w1) = (r, (ap', w'))" by (simp add: bnd_def)
    from Cons.IH [OF 1(1) this] 1(3) show ?thesis by simp
  qed
qed auto

lemma ap_dispatch_inv:
  assumes "poller_lib api p reg" "\<And>h ev. invoke h ev = ap_script api (script h ev)"
  shows "ap_inv p reg (ap, w) \<Longrightarrow> \<forall>ev \<in> set evs. pe_user_data ev \<in> set (ap_poller_handlers ap) \<and> 0 < pe_user_data ev \<Longrightarrow>
    ap_dispatch invoke evs (ap, w) = (r, (ap', w')) \<Longrightarrow> ap_inv p reg (ap', w') \<and> ok_result r"
proof (induction evs arbitrary: ap w)
  case (Cons ev evs)
  obtain r1 ap1 w1 where c: "ap_script api (script (ap_heap ap (pe_user_data ev)) (pe_events ev)) (ap, w)
      = (r1, (ap1, w1))" by (metis surj_pair)
  from ap_script_inv [OF assms(1) Cons.prems(1) c]
  have 1: "ap_inv p reg (ap1, w1)" "ok_result r1" "ap_poller_handlers ap1 = ap_poller_handlers ap" by auto
  from c have c: "invoke (ap_heap ap (pe_user_data ev)) (pe_events ev) (ap, w) = (r1, (ap1, w1))"
    by (simp only: assms(2))
  have alive: "ap_alive ap (pe_user_data ev)" "pe_user_data ev \<noteq> 0"
    using Cons.prems(2) by (auto simp: ap_alive_def)
  show ?case
  proof (cases r1)
    case (Inl e)
    with Cons.prems(3) c 1 alive show ?thesis
      by (auto simp: bnd_def ok_result_def split: exn.splits)
  next
    case (Inr u)
    with Cons.prems(3) c alive have "ap_dispatch invoke evs (ap1, w1) = (r, (ap', w'))"
      by (simp add: bnd_def)
    with Cons.IH [OF 1(1)] Cons.prems(2) 1(3) show ?thesis by simp
  qed
qed auto

lemma ap_rebuild_inv:
  "ap_inv p reg (ap, w) \<Longrightarrow> ap_inv p reg (ap_rebuild ap, w) \<and> \<not> ap_need_rebuild (ap_rebuild ap)"
  by (auto simp: ap_inv_def ap_rebuild_def)

lemma ap_inv_registered:
  assumes "ap_inv p reg (ap, w)" "\<not> ap_need_rebuild ap" "ud \<in> ran (reg w)"
  shows "ud \<in> set (ap_poller_handlers ap) \<and> 0 < ud"
proof -
  have "ran (reg w) = snd ` set (ap_handlers ap)"
    using assms(1) ran_distinct [of "ap_handlers ap"] by (auto simp: ap_inv_def)
  with assms show ?thesis by (fastforce simp: ap_inv_def)
qed

lemma poller_wait_all_cases:
  assumes "poller_wait_all api p n t w = (r, w')"
  shows "\<exists>rc evs. zmq_poller_wait_all api p (sint (of_nat n :: 32 word)) (sint t) w = ((rc, evs), w')
    \<and> (r = Inr (nat rc, evs) \<or> r = Inl (ErrorT (zmq_errno api w')))"
proof -
  obtain rc evs w1 where "zmq_poller_wait_all api p (sint (of_nat n :: 32 word)) (sint t) w = ((rc, evs), w1)"
    by (metis surj_pair)
  with assms show ?thesis
    by (cases "rc > 0"; cases "zmq_errno api w1 = EAGAIN api")
      (auto simp: poller_wait_all_def bnd_def call_def)
qed

lemma ap_wait_inv:
  assumes lib: "poller_lib api p reg" "\<And>h ev. invoke h ev = ap_script api (script h ev)"
    and inv: "ap_inv p reg (ap, w)" and run: "ap_wait api invoke t (ap, w) = (r, (ap', w'))"
  shows "ap_inv p reg (ap', w') \<and> ok_result r"
proof -
  let ?ap = "ap_rebuild ap"
  have inv1: "ap_inv p reg (?ap, w)" "\<not> ap_need_rebuild ?ap" using ap_rebuild_inv [OF inv] by auto
  then have p: "ap_base ?ap = p" by (simp add: ap_inv_def)
  obtain r1 w1 where wt: "poller_wait_all api p (ap_events ?ap) t w = (r1, w1)" by (metis surj_pair)
  from poller_wait_all_cases [OF this] obtain rc evs where z:
    "zmq_poller_wait_all api p (sint (of_nat (ap_events ?ap) :: 32 word)) (sint t) w = ((rc, evs), w1)"
    "r1 = Inr (nat rc, evs) \<or> r1 = Inl (ErrorT (zmq_errno api w1))" by blast
  from poller_libD(7) [OF lib(1) z(1)]
  have reg: "reg w1 = reg w" "\<forall>ev \<in> set (take (nat rc) evs). pe_user_data ev \<in> ran (reg w)" by auto
  have inv2: "ap_inv p reg (?ap, w1)" using inv1(1) reg(1) by (simp add: ap_inv_def)
  have live: "\<forall>ev \<in> set (take (nat rc) evs). pe_user_data ev \<in> set (ap_poller_handlers ?ap) \<and> 0 < pe_user_data ev"
    using ap_inv_registered [OF inv1] reg(2) by blast
  obtain r2 ap2 w2 where d: "ap_dispatch invoke (take (nat rc) evs) (?ap, w1) = (r2, (ap2, w2))" by (metis surj_pair)
  from ap_dispatch_inv [OF lib inv2 live d] have i2: "ap_inv p reg (ap2, w2)" "ok_result r2" by auto
  from z(2) show ?thesis
  proof
    assume "r1 = Inl (ErrorT (zmq_errno api w1))"
    with run wt p inv2 show ?thesis by (auto simp: ap_wait_def bnd_def on_lib_def)
  next
    assume "r1 = Inr (nat rc, evs)"
    with run wt p d have "(r, (ap', w')) = (case r2 of Inl e \<Rightarrow> (Inl e, (ap2, w2)) | Inr _ \<Rightarrow> (Inr (nat rc), (ap2, w2)))"
      by (simp add: ap_wait_def bnd_def on_lib_def split: sum.splits)
    with i2 show ?thesis by (auto simp: ok_result_def split: sum.splits exn.splits)
  qed
qed

text \<open>A client's steps: commands and waits.\<close>

datatype 'h ap_step = Cmd "'h ap_cmd" | Wait "64 word"

fun ap_step_do ::
  "('m, 'w, 'x) poller_api_scheme \<Rightarrow> ('h \<Rightarrow> event_flags \<Rightarrow> ('h, 'w, unit) ap_comp) \<Rightarrow> 'h ap_step
     \<Rightarrow> 'h active_poller \<times> 'w \<Rightarrow> bool \<times> 'h active_poller \<times> 'w" where
  "ap_step_do api invoke (Cmd c) st = (case ap_do api c st of (r, st') \<Rightarrow> (ok_result r, st'))"
| "ap_step_do api invoke (Wait t) st = (case ap_wait api invoke t st of (r, st') \<Rightarrow> (ok_result r, st'))"

fun ap_run ::
  "('m, 'w, 'x) poller_api_scheme \<Rightarrow> ('h \<Rightarrow> event_flags \<Rightarrow> ('h, 'w, unit) ap_comp) \<Rightarrow> 'h ap_step list
     \<Rightarrow> 'h active_poller \<times> 'w \<Rightarrow> bool \<times> 'h active_poller \<times> 'w" where
  "ap_run api invoke [] st = (True, st)"
| "ap_run api invoke (s # steps) st =
     (case ap_step_do api invoke s st of (ok, st') \<Rightarrow>
      case ap_run api invoke steps st' of (b, st'') \<Rightarrow> (ok \<and> b, st''))"

lemma ap_step_inv:
  assumes lib: "poller_lib api p reg" "\<And>h ev. invoke h ev = ap_script api (script h ev)"
    and inv: "ap_inv p reg st" and run: "ap_step_do api invoke s st = (ok, st')"
  shows "ap_inv p reg st' \<and> ok"
proof (cases s)
  case (Cmd c)
  obtain ap w where st: "st = (ap, w)" by (cases st)
  obtain r ap' w' where d: "ap_do api c (ap, w) = (r, (ap', w'))" by (metis surj_pair)
  from ap_do_inv [OF lib(1) inv [unfolded st] d] d run Cmd st show ?thesis by simp
next
  case (Wait t)
  obtain ap w where st: "st = (ap, w)" by (cases st)
  obtain r ap' w' where d: "ap_wait api invoke t (ap, w) = (r, (ap', w'))" by (metis surj_pair)
  from ap_wait_inv [OF lib inv [unfolded st] d] d run Wait st show ?thesis by simp
qed

lemma ap_run_inv:
  assumes "poller_lib api p reg" "\<And>h ev. invoke h ev = ap_script api (script h ev)"
  shows "ap_inv p reg st \<Longrightarrow> ap_run api invoke steps st = (b, st') \<Longrightarrow> ap_inv p reg st' \<and> b"
proof (induction steps arbitrary: st b)
  case (Cons s steps)
  obtain ok st1 where s: "ap_step_do api invoke s st = (ok, st1)" by (metis surj_pair)
  obtain b1 st2 where r: "ap_run api invoke steps st1 = (b1, st2)" by (metis surj_pair)
  from ap_step_inv [OF assms Cons.prems(1) s] have "ap_inv p reg st1" "ok" by auto
  with s r Cons.prems(2) Cons.IH [of st1 b1] show ?case
    by auto
qed simp

text \<open>
  C29. Whatever sequence of additions, removals, modifications and waits a client performs, and
  whatever additions, removals and modifications the handlers perform while a wait runs them, the
  active poller keeps one handler for every registration of libzmq and no other (a failed addition is
  rolled back, a failed removal removes nothing); no call fails an assertion and no wait calls a
  handler that has been freed, even one removed by another handler of the same wait.
\<close>

theorem active_poller_safe:
  assumes "poller_lib api p reg" "\<And>h ev. invoke h ev = ap_script api (script h ev)"
    and "zmq_poller_new api w = (p, w0)" "p \<noteq> 0" "reg w0 = Map.empty"
    and "ap_ctor api some_handler w = (Inr ap0, w0')" "ap_run api invoke steps (ap0, w0') = (ok, (ap, w'))"
  shows "ok \<and> map_of (ap_handlers ap) = reg w' \<and> distinct (map fst (ap_handlers ap))"
proof -
  have "ap_inv p reg (ap0, w0')"
    using assms(3-6) by (auto simp: ap_ctor_def poller_ctor_def bnd_def call_def ap_inv_def)
  from ap_run_inv [OF assms(1,2) this assms(7)] show ?thesis by (simp add: ap_inv_def)
qed

text \<open>One poller over lists: waiting reports the socket 1 when it is registered.\<close>

definition list_poller_api :: "(lmsg, lib_state) poller_api" where
  "list_poller_api = misc_api.extend list_misc_api
     (poller_api.fields (\<lambda>w. (1, w)) (\<lambda>p w. (0, w))
       (\<lambda>p s ud ev w. (0, w\<lparr>lib_reg := (lib_reg w)(Inl s \<mapsto> ud)\<rparr>))
       (\<lambda>p fd ud ev w. (0, w\<lparr>lib_reg := (lib_reg w)(Inr fd \<mapsto> ud)\<rparr>))
       (\<lambda>p s w. (0, w\<lparr>lib_reg := (lib_reg w)(Inl s := None)\<rparr>))
       (\<lambda>p fd w. (0, w\<lparr>lib_reg := (lib_reg w)(Inr fd := None)\<rparr>))
       (\<lambda>p s ev w. (0, w)) (\<lambda>p fd ev w. (0, w))
       (\<lambda>p n t w. case lib_reg w (Inl 1) of
           None \<Rightarrow> ((- 1, []), w\<lparr>lib_errno := 11\<rparr>)
         | Some ud \<Rightarrow> ((1, [\<lparr>pe_socket = \<lparr>sb_handle = 1\<rparr>, pe_fd = 0, pe_user_data = ud, pe_events = 1\<rparr>]), w))
       (\<lambda>p w. (0, w)) (\<lambda>i. of_int i))"

lemmas list_poller_api_simps = list_misc_api_simps list_poller_api_def poller_api.defs

definition list_registry :: "lib_state \<Rightarrow> poller_ref \<rightharpoonup> nat" where
  "list_registry w ref =
     (case pr_type ref of
        RT_SOCKET \<Rightarrow> if pr_fd ref = 0 then lib_reg w (Inl (sb_handle (pr_socket ref))) else None
      | RT_FD \<Rightarrow> if sb_handle (pr_socket ref) = 0 then lib_reg w (Inr (pr_fd ref)) else None)"

lemma list_registry_update:
  "list_registry (w\<lparr>lib_reg := (lib_reg w)(Inl (sock_handle s) := v)\<rparr>)
     = (list_registry w)(poller_ref_of_socket s := v)"
  "list_registry (w\<lparr>lib_reg := (lib_reg w)(Inr fd := v)\<rparr>) = (list_registry w)(poller_ref_of_fd fd := v)"
  by (auto simp: list_registry_def poller_ref_of_socket_def poller_ref_of_fd_def sock_handle_def
      socket_ref_null_def socket_base_default_def fun_eq_iff split: ref_type.splits)

lemma list_poller_lib: "poller_lib list_poller_api p list_registry"
proof -
  have errno: "list_registry (w\<lparr>lib_errno := e\<rparr>) = list_registry w" for w e
    by (simp add: list_registry_def fun_eq_iff split: ref_type.splits)
  have reported: "ud \<in> ran (list_registry w)" if "lib_reg w (Inl 1) = Some ud" for w ud
    using that by (auto simp: list_registry_def ran_def
        intro!: exI [of _ "\<lparr>pr_type = RT_SOCKET, pr_socket = \<lparr>sb_handle = 1\<rparr>, pr_fd = 0\<rparr>"])
  show ?thesis
    unfolding poller_lib_def reg_after_def
    by (intro conjI allI impI)
      (auto simp: list_poller_api_simps list_registry_update errno reported split: option.splits)
qed

text \<open>A socket whose handler removes it, while a wait runs the handler.\<close>

theorem active_poller_safe_witness:
  "\<exists>ap0 w0. ap_ctor list_poller_api () lib_start = (Inr ap0, w0)
    \<and> (\<exists>ap w'. ap_run list_poller_api (\<lambda>h ev. ap_script list_poller_api [Remove_socket \<lparr>sb_handle = 1\<rparr>])
          [Cmd (Add_socket \<lparr>sb_handle = 1\<rparr> 1 (Some ())), Wait 0] (ap0, w0) = (True, (ap, w'))
        \<and> map_of (ap_handlers ap) = list_registry w')"
proof -
  let ?invoke = "\<lambda>h ev. ap_script list_poller_api [Remove_socket \<lparr>sb_handle = 1\<rparr> :: unit ap_cmd]"
  obtain ap0 w0 where c: "ap_ctor list_poller_api () lib_start = (Inr ap0, w0)"
    by (simp add: ap_ctor_def poller_ctor_def bnd_def call_def list_poller_api_simps)
  obtain ok ap w' where r: "ap_run list_poller_api ?invoke
      [Cmd (Add_socket \<lparr>sb_handle = 1\<rparr> 1 (Some ())), Wait 0] (ap0, w0) = (ok, (ap, w'))"
    by (metis surj_pair)
  have n: "zmq_poller_new list_poller_api lib_start = (1, lib_start)" "(1 :: ptr) \<noteq> 0"
    by (simp_all add: list_poller_api_simps)
  have e: "list_registry lib_start = Map.empty"
    by (simp add: list_registry_def lib_start_def fun_eq_iff split: ref_type.splits)
  have "ok \<and> map_of (ap_handlers ap) = list_registry w'"
    using active_poller_safe [OF list_poller_lib refl n e c r] by simp
  with c r show ?thesis
    by (intro exI [of _ ap0] exI [of _ w0] conjI exI [of _ ap] exI [of _ w']) simp_all
qed

end
