(* ===== verification/ZmqOptional.thy ===== *)
theory ZmqOptional
  imports Prelude
begin

text \<open>
  \<open>detail::trivial_optional\<close> of \<open>zmq.hpp\<close>: the results of sending and receiving where the compiler has no
  \<open>std::optional\<close>. It is an implementation of \<open>std::optional\<close>, which the other theories use.
\<close>

record 'a trivial_optional =
  opt_value :: 'a
  opt_has_value :: bool

text \<open>The default constructor value-initialises the member (\<open>init\<close>).\<close>

definition optional_default :: "'a \<Rightarrow> 'a trivial_optional" where
  "optional_default init = \<lparr>opt_value = init, opt_has_value = False\<rparr>"

definition optional_of :: "'a \<Rightarrow> 'a trivial_optional" where
  "optional_of v = \<lparr>opt_value = v, opt_has_value = True\<rparr>"

text \<open>\<open>operator->\<close> and \<open>operator*\<close> assert, \<open>value()\<close> throws.\<close>

definition optional_arrow :: "'a trivial_optional \<Rightarrow> 'a res" where
  "optional_arrow opt = (if opt_has_value opt then Inr (opt_value opt) else Inl (AssertFail ''assert''))"

definition optional_deref :: "'a trivial_optional \<Rightarrow> 'a res" where
  "optional_deref opt = (if opt_has_value opt then Inr (opt_value opt) else Inl (AssertFail ''assert''))"

definition optional_value :: "'a trivial_optional \<Rightarrow> 'a res" where
  "optional_value opt = (if \<not> opt_has_value opt then Inl StdException else Inr (opt_value opt))"

definition optional_bool :: "'a trivial_optional \<Rightarrow> bool" where
  "optional_bool opt = opt_has_value opt"

definition optional_has_value :: "'a trivial_optional \<Rightarrow> bool" where
  "optional_has_value opt = opt_has_value opt"

text \<open>The abstract value. Writing through \<open>*opt\<close> or \<open>value()\<close> updates the member.\<close>

definition optional_abs :: "'a trivial_optional \<Rightarrow> 'a option" where
  "optional_abs opt = (if opt_has_value opt then Some (opt_value opt) else None)"

definition optional_write :: "'a \<Rightarrow> 'a trivial_optional \<Rightarrow> 'a trivial_optional res" where
  "optional_write v opt = rbind (optional_value opt) (\<lambda>_. Inr (opt\<lparr>opt_value := v\<rparr>))"

text \<open>
  Refinement of \<open>std::optional\<close>: seen through the abstraction, the constructors give \<open>nullopt\<close> and the
  value, both tests say whether there is a value, each access gives it when it is there, and without one
  \<open>value()\<close> throws and the operators fail their assertion (never an uninitialised value); writing
  replaces the value.
\<close>

theorem trivial_optional_refines:
  "optional_abs (optional_default init) = None \<and> optional_abs (optional_of v) = Some v
   \<and> (case optional_abs opt of
        None \<Rightarrow> \<not> optional_has_value opt \<and> \<not> optional_bool opt \<and> optional_value opt = Inl StdException
          \<and> optional_deref opt = Inl (AssertFail ''assert'') \<and> optional_arrow opt = Inl (AssertFail ''assert'')
          \<and> optional_write v opt = Inl StdException
      | Some x \<Rightarrow> optional_has_value opt \<and> optional_bool opt \<and> optional_value opt = Inr x
          \<and> optional_deref opt = Inr x \<and> optional_arrow opt = Inr x
          \<and> (case optional_write v opt of Inl _ \<Rightarrow> False | Inr opt' \<Rightarrow> optional_abs opt' = Some v))"
  by (auto simp: optional_abs_def optional_default_def optional_of_def optional_has_value_def optional_bool_def
      optional_value_def optional_deref_def optional_arrow_def optional_write_def)

end
