(* ===== verification/Ownership.thy ===== *)
theory Ownership
  imports ZmqSocket "HOL-Library.Multiset"
begin

text \<open>
  Objects that own a libzmq handle. \<open>context_t\<close> and \<open>socket_t\<close> share one contract: moving an
  object hands its handle over and leaves the source null, swapping exchanges the handles. The
  locale \<open>owner\<close> states it and derives that no sequence of moves and swaps loses or duplicates a
  handle; both classes are instances. On top of it, programs over sockets never close a handle
  twice and never leak one.
\<close>

section \<open>The contract\<close>

definition one_handle :: "ptr \<Rightarrow> ptr multiset" where
  "one_handle h = (if h = 0 then {#} else {#h#})"

definition handles_of :: "('o \<Rightarrow> ptr) \<Rightarrow> 'o list \<Rightarrow> ptr multiset" where
  "handles_of hdl objs = filter_mset (\<lambda>h. h \<noteq> 0) (mset (map hdl objs))"

lemma one_handle_simps [simp]:
  "one_handle 0 = {#}"
  "h \<noteq> 0 \<Longrightarrow> one_handle h = {#h#}"
  by (simp_all add: one_handle_def)

lemma handles_of_simps [simp]:
  "handles_of hdl [] = {#}"
  "handles_of hdl (x # objs) = one_handle (hdl x) + handles_of hdl objs"
  "handles_of hdl (objs @ objs') = handles_of hdl objs + handles_of hdl objs'"
  by (simp_all add: handles_of_def one_handle_def)

lemma handles_of_split:
  "i < length objs \<Longrightarrow>
     handles_of hdl objs = one_handle (hdl (objs ! i)) + handles_of hdl (take i objs @ drop (Suc i) objs)"
  by (subst id_take_nth_drop, assumption) simp

lemma handles_of_update:
  "i < length objs \<Longrightarrow>
     handles_of hdl (objs[i := x]) = one_handle (hdl x) + handles_of hdl (take i objs @ drop (Suc i) objs)"
  by (simp add: upd_conv_take_nth_drop)

lemma handles_of_exchange:
  assumes "i < length objs" "hdl x = hdl (objs ! i)"
  shows "handles_of hdl (objs[i := x]) = handles_of hdl objs"
  using assms by (simp add: handles_of_update handles_of_split [of i objs])

datatype own_step = Move_out nat | Swap_with nat nat

locale owner =
  fixes hdl :: "'o \<Rightarrow> ptr"
    and mv :: "'o \<Rightarrow> 'o \<times> 'o"
    and sw :: "'o \<times> 'o \<Rightarrow> 'o \<times> 'o"
  assumes mv_new: "hdl (fst (mv x)) = hdl x"
    and mv_old: "hdl (snd (mv x)) = 0"
    and sw_fst: "hdl (fst (sw (x, y))) = hdl y"
    and sw_snd: "hdl (snd (sw (x, y))) = hdl x"
begin

fun own_do :: "own_step \<Rightarrow> 'o list \<Rightarrow> 'o list" where
  "own_do (Move_out i) objs =
     (if i < length objs then objs[i := snd (mv (objs ! i))] @ [fst (mv (objs ! i))] else objs)"
| "own_do (Swap_with i j) objs =
     (if i < length objs \<and> j < length objs \<and> i \<noteq> j
      then objs[i := fst (sw (objs ! i, objs ! j)), j := snd (sw (objs ! i, objs ! j))] else objs)"

lemma move_handles:
  "i < length objs \<Longrightarrow>
     handles_of hdl (objs[i := snd (mv (objs ! i))] @ [fst (mv (objs ! i))]) = handles_of hdl objs"
  by (simp add: handles_of_update handles_of_split [of i objs] mv_new mv_old)

lemma swap_handles:
  assumes "i < length objs" "j < length objs" "i \<noteq> j"
  shows "handles_of hdl (objs[i := fst (sw (objs ! i, objs ! j)), j := snd (sw (objs ! i, objs ! j))])
    = handles_of hdl objs"
proof -
  have "mset (map hdl (objs[i := fst (sw (objs ! i, objs ! j)), j := snd (sw (objs ! i, objs ! j))]))
      = mset ((map hdl objs)[i := map hdl objs ! j, j := map hdl objs ! i])"
    using assms by (simp add: map_update sw_fst sw_snd)
  also have "\<dots> = mset (map hdl objs)"
    using assms by (intro mset_swap) simp_all
  finally show ?thesis by (simp add: handles_of_def)
qed

lemma own_do_handles: "handles_of hdl (own_do st objs) = handles_of hdl objs"
  by (cases st) (simp_all add: move_handles swap_handles del: handles_of_simps)

lemma own_run_handles: "handles_of hdl (fold own_do sts objs) = handles_of hdl objs"
  by (induction sts arbitrary: objs) (simp_all add: own_do_handles)

end

interpretation ctx_own: owner ctx_ptr context_move_ctor context_swap
  by unfold_locales (simp_all add: context_move_ctor_def context_swap_def)

interpretation sock_own: owner sb_handle socket_t_move_ctor socket_t_swap
  by unfold_locales (simp_all add: socket_t_move_ctor_def socket_t_swap_def)

section \<open>Programs over sockets\<close>

text \<open>
  What a program can do with its sockets: create one on a context, move it to a new object, swap
  two, close one (or run its destructor), move-assign one to another.
\<close>

datatype sock_cmd = Create socket_type | Move nat | Swap nat nat | Close nat | Assign nat nat

fun sock_do ::
  "('m, 'w, 'x) sock_api_scheme \<Rightarrow> context_t \<Rightarrow> sock_cmd \<Rightarrow> socket_t list \<times> 'w \<Rightarrow> unit res \<times> (socket_t list \<times> 'w)" where
  "sock_do api ctx (Create t) (objs, w) =
     (case socket_t_ctor api ctx t w of
        (Inl e, w') \<Rightarrow> (Inl e, (objs, w'))
      | (Inr s, w') \<Rightarrow> (Inr (), (objs @ [s], w')))"
| "sock_do api ctx (Move i) (objs, w) =
     (Inr (), (if i < length objs
        then objs[i := snd (socket_t_move_ctor (objs ! i))] @ [fst (socket_t_move_ctor (objs ! i))]
        else objs, w))"
| "sock_do api ctx (Swap i j) (objs, w) =
     (Inr (), (if i < length objs \<and> j < length objs \<and> i \<noteq> j
        then objs[i := fst (socket_t_swap (objs ! i, objs ! j)), j := snd (socket_t_swap (objs ! i, objs ! j))]
        else objs, w))"
| "sock_do api ctx (Close i) (objs, w) =
     (if i < length objs then
        (case socket_t_close api (objs ! i, w) of (r, (s, w')) \<Rightarrow> (r, (objs[i := s], w')))
      else (Inr (), (objs, w)))"
| "sock_do api ctx (Assign i j) (objs, w) =
     (if i < length objs \<and> j < length objs \<and> i \<noteq> j then
        (case socket_t_move_assign api ((objs ! i, objs ! j), w) of
           (r, ((a, b), w')) \<Rightarrow> (r, (objs[i := a, j := b], w')))
      else (Inr (), (objs, w)))"

text \<open>Running a list of commands; an exception goes to the caller, who goes on.\<close>

fun sock_run ::
  "('m, 'w, 'x) sock_api_scheme \<Rightarrow> context_t \<Rightarrow> sock_cmd list \<Rightarrow> socket_t list \<times> 'w
     \<Rightarrow> unit res list \<times> (socket_t list \<times> 'w)" where
  "sock_run api ctx [] st = ([], st)"
| "sock_run api ctx (c # cs) st =
     (case sock_do api ctx c st of (r, st') \<Rightarrow>
      (case sock_run api ctx cs st' of (rs, st'') \<Rightarrow> (r # rs, st'')))"

text \<open>
  The library's side: \<open>opn\<close> is its set of open sockets. \<open>zmq_socket\<close> returns null or a new open
  socket, \<open>zmq_close\<close> succeeds on an open one and closes it.
\<close>

definition socket_lib :: "('m, 'w, 'x) sock_api_scheme \<Rightarrow> ('w \<Rightarrow> ptr set) \<Rightarrow> bool" where
  "socket_lib api opn \<longleftrightarrow>
     (\<forall>c t w h w'. zmq_socket api c t w = (h, w') \<longrightarrow>
        (if h = 0 then opn w' = opn w else h \<notin> opn w \<and> opn w' = insert h (opn w)))
   \<and> (\<forall>h w. h \<in> opn w \<longrightarrow> fst (zmq_close api h w) = 0 \<and> opn (snd (zmq_close api h w)) = opn w - {h})
   \<and> (\<forall>w. finite (opn w))"

definition owns_all :: "('w \<Rightarrow> ptr set) \<Rightarrow> socket_t list \<times> 'w \<Rightarrow> bool" where
  "owns_all opn st = (handles_of sb_handle (fst st) = mset_set (opn (snd st)))"

lemma owns_all_open:
  assumes "owns_all opn (objs, w)" "i < length objs" "sb_handle (objs ! i) \<noteq> 0"
    and "socket_lib api opn"
  shows "sb_handle (objs ! i) \<in> opn w"
proof -
  have "sb_handle (objs ! i) \<in># handles_of sb_handle objs"
    using assms(2,3) handles_of_split [of i objs sb_handle] by simp
  with assms(1,4) show ?thesis
    by (simp add: owns_all_def socket_lib_def)
qed

lemma socket_create_owns:
  assumes "socket_lib api opn" "owns_all opn (objs, w)" "socket_t_ctor api ctx t w = (r, w')"
  shows "(\<exists>s. r = Inr s \<and> owns_all opn (objs @ [s], w'))
    \<or> (\<exists>e. r = Inl (ErrorT e) \<and> owns_all opn (objs, w'))"
proof -
  obtain h w1 where z: "zmq_socket api (context_handle ctx) (socktype_num api t) w = (h, w1)"
    by (metis surj_pair)
  have lib: "if h = 0 then opn w1 = opn w else h \<notin> opn w \<and> opn w1 = insert h (opn w)"
    using assms(1) z unfolding socket_lib_def by metis
  have "finite (opn w)" using assms(1) by (simp add: socket_lib_def)
  with assms(2,3) z lib show ?thesis
    by (auto simp: socket_t_ctor_def socket_t_int_def bnd_def call_def owns_all_def split: if_splits)
qed

lemma socket_close_owns:
  assumes lib: "socket_lib api opn" and own: "owns_all opn (objs, w)" and i: "i < length objs"
    and run: "socket_t_close api (objs ! i, w) = (r, (s, w'))"
  shows "r = Inr () \<and> sb_handle s = 0 \<and> owns_all opn (objs[i := s], w')"
proof (cases "sb_handle (objs ! i) = 0")
  case True
  with run own i show ?thesis
    by (auto simp: socket_t_close_def bnd_def)
next
  case False
  let ?h = "sb_handle (objs ! i)"
  have "?h \<in> opn w" by (rule owns_all_open [OF own i False lib])
  moreover obtain rc w1 where z: "zmq_close api ?h w = (rc, w1)" by (metis surj_pair)
  ultimately have c: "rc = 0" "opn w1 = opn w - {?h}" "finite (opn w)" "?h \<in> opn w"
    using lib unfolding socket_lib_def by (metis fst_conv snd_conv)+
  from run False z c(1) have s: "r = Inr ()" "sb_handle s = 0" "w' = w1"
    by (auto simp: socket_t_close_def bnd_def on_lib_def call_def)
  have "add_mset ?h (handles_of sb_handle (objs[i := s])) = handles_of sb_handle objs"
    using i False s by (simp add: handles_of_update handles_of_split [of i objs])
  also have "\<dots> = add_mset ?h (mset_set (opn w - {?h}))"
    using own c by (simp add: owns_all_def mset_set.remove)
  finally show ?thesis using s c by (simp add: owns_all_def)
qed

lemma sock_do_owns:
  assumes lib: "socket_lib api opn" and own: "owns_all opn st"
    and run: "sock_do api ctx c st = (r, st')"
  shows "owns_all opn st' \<and> (r = Inr () \<or> (\<exists>t e. c = Create t \<and> r = Inl (ErrorT e)))"
proof -
  obtain objs w where st: "st = (objs, w)" by (cases st)
  show ?thesis
  proof (cases c)
    case (Create t)
    with run st socket_create_owns [OF lib] own show ?thesis
      by (fastforce split: prod.splits sum.splits)
  next
    case (Move i)
    with run st own show ?thesis
      by (auto simp: owns_all_def sock_own.move_handles simp del: handles_of_simps split: if_splits)
  next
    case (Swap i j)
    with run st own show ?thesis
      by (auto simp: owns_all_def sock_own.swap_handles simp del: handles_of_simps split: if_splits)
  next
    case (Close i)
    with run st own show ?thesis
      by (auto split: if_splits prod.splits dest: socket_close_owns [OF lib])
  next
    case (Assign i j)
    show ?thesis
    proof (cases "i < length objs \<and> j < length objs \<and> i \<noteq> j")
      case True
      obtain r1 s w1 where cl: "socket_t_close api (objs ! i, w) = (r1, (s, w1))" by (metis surj_pair)
      with True st own lib have c: "r1 = Inr ()" "owns_all opn (objs[i := s], w1)"
        using socket_close_owns [of api opn objs w i] by auto
      let ?o = "objs[i := s]"
      from True c have "owns_all opn
          (?o[i := fst (socket_t_swap (?o ! i, ?o ! j)), j := snd (socket_t_swap (?o ! i, ?o ! j))], w1)"
        using sock_own.swap_handles [of i ?o j] by (simp add: owns_all_def del: nth_list_update)
      with True Assign run st cl c(1) show ?thesis
        by (auto simp: socket_t_move_assign_def split: prod.splits)
    qed (use Assign run st own in auto)
  qed
qed

lemma sock_run_Cons:
  "sock_run api ctx (c # cs) st = (rs, st'') \<longleftrightarrow>
     (\<exists>r st' rs'. sock_do api ctx c st = (r, st') \<and> sock_run api ctx cs st' = (rs', st'') \<and> rs = r # rs')"
  by (auto split: prod.splits)

lemma sock_run_owns:
  assumes "socket_lib api opn" "owns_all opn st" "sock_run api ctx cs st = (rs, st')"
  shows "owns_all opn st' \<and> (\<forall>r \<in> set rs. r = Inr () \<or> (\<exists>e. r = Inl (ErrorT e)))"
  using assms(2,3)
proof (induction cs arbitrary: st rs)
  case (Cons c cs)
  then obtain r st1 rs' where s: "sock_do api ctx c st = (r, st1)"
    "sock_run api ctx cs st1 = (rs', st')" "rs = r # rs'"
    by (auto simp only: sock_run_Cons)
  from sock_do_owns [OF assms(1) Cons.prems(1) s(1)] Cons.IH [OF _ s(2)] s(3) show ?case
    by auto
qed simp

text \<open>The destructors of all sockets.\<close>

lemma sock_run_close_all:
  assumes "socket_lib api opn" "owns_all opn (objs, w)"
    and "sock_run api ctx (map Close is) (objs, w) = (rs, (objs', w'))"
  shows "length objs' = length objs \<and> owns_all opn (objs', w') \<and> set rs \<subseteq> {Inr ()}
    \<and> (\<forall>i < length objs. i \<in> set is \<or> sb_handle (objs ! i) = 0 \<longrightarrow> sb_handle (objs' ! i) = 0)"
  using assms(2,3)
proof (induction "is" arbitrary: objs w rs)
  case (Cons i "is")
  then obtain r objs1 w1 rs' where s: "sock_do api ctx (Close i) (objs, w) = (r, (objs1, w1))"
    "sock_run api ctx (map Close is) (objs1, w1) = (rs', (objs', w'))" "rs = r # rs'"
    by (auto simp only: sock_run_Cons list.map)
  have o1: "owns_all opn (objs1, w1)" using sock_do_owns [OF assms(1) Cons.prems(1) s(1)] by simp
  have "r = Inr () \<and> length objs1 = length objs
      \<and> (\<forall>k < length objs. k = i \<or> sb_handle (objs ! k) = 0 \<longrightarrow> sb_handle (objs1 ! k) = 0)"
  proof (cases "i < length objs")
    case True
    then obtain s' where "socket_t_close api (objs ! i, w) = (r, (s', w1))" "objs1 = objs[i := s']"
      using s(1) by (auto split: prod.splits)
    with socket_close_owns [OF assms(1) Cons.prems(1) True] True show ?thesis
      by (auto simp: nth_list_update)
  qed (use s(1) in auto)
  with Cons.IH [OF o1 s(2)] s(3) show ?case by auto
qed simp

lemma all_null: "(\<And>i. i < length objs \<Longrightarrow> hdl (objs ! i) = 0) \<Longrightarrow> handles_of hdl objs = {#}"
proof (induction objs)
  case (Cons x objs)
  from Cons.prems [of 0] Cons.prems [of "Suc i" for i] Cons.IH show ?case by force
qed simp

text \<open>
  C30. No socket is closed twice and none leaks. Starting without sockets, run any sequence of
  creations, moves, swaps, closes and assignments: the only exception is a failed creation (no
  assertion fails), the handles held by the objects are at every end exactly the open sockets of
  the library, each held once, and the destructors of the objects then close all of them.
\<close>

theorem sockets_never_leak:
  assumes "socket_lib api opn" "opn w = {}"
    and "sock_run api ctx cs ([], w) = (rs, (objs, w1))"
    and "sock_run api ctx (map Close [0..<length objs]) (objs, w1) = (rs', (objs', w2))"
  shows "(\<forall>r \<in> set rs. r = Inr () \<or> (\<exists>e. r = Inl (ErrorT e)))
    \<and> handles_of sb_handle objs = mset_set (opn w1) \<and> set rs' \<subseteq> {Inr ()} \<and> opn w2 = {}"
proof -
  have "owns_all opn ([], w)" using assms(2) by (simp add: owns_all_def)
  from sock_run_owns [OF assms(1) this assms(3)]
  have o: "owns_all opn (objs, w1)" "\<forall>r \<in> set rs. r = Inr () \<or> (\<exists>e. r = Inl (ErrorT e))" by auto
  from sock_run_close_all [OF assms(1) o(1) assms(4)]
  have c: "owns_all opn (objs', w2)" "set rs' \<subseteq> {Inr ()}" "handles_of sb_handle objs' = {#}"
    by (auto intro: all_null)
  from c(1,3) have "mset_set (opn w2) = {#}" by (simp add: owns_all_def)
  then have "opn w2 = {}" using assms(1) by (simp add: socket_lib_def mset_set_empty_iff)
  with o c show ?thesis by (simp add: owns_all_def)
qed

lemma list_socket_lib: "socket_lib list_sock_api lib_open"
  by (auto simp: socket_lib_def list_sock_api_simps lib_socket_def lib_close_def Let_def
      split: if_splits)

text \<open>Two sockets on one context: the first is moved to a third object, which the second takes.\<close>

theorem sockets_never_leak_witness:
  "\<exists>rs objs w1 rs' objs' w2.
     sock_run list_sock_api \<lparr>ctx_ptr = 1\<rparr> [Create Sock_push, Create Sock_sub, Move 0, Assign 1 2] ([], lib_start)
       = (rs, (objs, w1)) \<and> handles_of sb_handle objs = {#1#}
   \<and> sock_run list_sock_api \<lparr>ctx_ptr = 1\<rparr> (map Close [0..<length objs]) (objs, w1) = (rs', (objs', w2))
   \<and> set rs' \<subseteq> {Inr ()} \<and> lib_open w2 = {}"
proof -
  let ?cs = "[Create Sock_push, Create Sock_sub, Move 0, Assign 1 2]"
  obtain rs objs w1 where a:
    "sock_run list_sock_api \<lparr>ctx_ptr = 1\<rparr> ?cs ([], lib_start) = (rs, (objs, w1))" by (metis surj_pair)
  obtain rs' objs' w2 where b:
    "sock_run list_sock_api \<lparr>ctx_ptr = 1\<rparr> (map Close [0..<length objs]) (objs, w1) = (rs', (objs', w2))"
    by (metis surj_pair)
  have h: "handles_of sb_handle objs = {#1#}"
    using a by (auto simp: lib_start_def list_sock_api_simps socket_t_ctor_def socket_t_int_def bnd_def
        call_def lib_socket_def lib_close_def socket_t_move_ctor_def socket_t_move_assign_def
        socket_t_close_def socket_t_swap_def on_lib_def numeral_eq_Suc context_handle_def put_this_def)
  have "lib_open lib_start = {}" by (simp add: lib_start_def)
  from sockets_never_leak [OF list_socket_lib this a b] a b h show ?thesis by blast
qed

end
