(* ===== verification/DotEnv.thy ===== *)
theory DotEnv
  imports Prelude
begin

text \<open>
  The configuration code that both C++ programs carry (\<open>GetEnv\<close> and \<open>LoadDotEnv\<close> of
  \<open>robots/internal/bot/main.cpp\<close>, repeated in \<open>analytics/cmd/analytics/main.cpp\<close>): the process
  environment is a map from names to values, the file system a map from paths to contents.
\<close>

section \<open>The environment and its C interface\<close>

type_synonym env = "string \<rightharpoonup> string"
type_synonym files = "string \<rightharpoonup> string"

text \<open>
  POSIX \<open>setenv(name, value, overwrite)\<close>: an empty name, or one with \<open>=\<close>, is refused
  (EINVAL); an existing variable is kept when \<open>overwrite\<close> is 0.
\<close>

definition setenv :: "string \<Rightarrow> string \<Rightarrow> bool \<Rightarrow> env \<Rightarrow> env" where
  "setenv name val overwrite e =
     (if name = [] \<or> CHR ''='' \<in> set name then e
      else if e name \<noteq> None \<and> \<not> overwrite then e
      else e(name \<mapsto> val))"

definition GetEnv :: "env \<Rightarrow> string \<Rightarrow> string \<Rightarrow> string" where
  "GetEnv e key fallback =
     (case e key of
        None \<Rightarrow> fallback
      | Some v \<Rightarrow> (if v \<noteq> [] then v else fallback))"

section \<open>Reading a file line by line\<close>

text \<open>\<open>std::getline\<close> until the stream fails: a last line without newline counts.\<close>

fun getlines_acc :: "string \<Rightarrow> string \<Rightarrow> string list" where
  "getlines_acc acc [] = (if acc = [] then [] else [rev acc])"
| "getlines_acc acc (c # cs) =
     (if c = CHR 0x0A then rev acc # getlines_acc [] cs else getlines_acc (c # acc) cs)"

definition getlines :: "string \<Rightarrow> string list" where
  "getlines s = getlines_acc [] s"

text \<open>\<open>line.find('=')\<close> with the two \<open>substr\<close> calls: the text before and after the first \<open>=\<close>.\<close>

fun split_eq :: "string \<Rightarrow> (string \<times> string) option" where
  "split_eq [] = None"
| "split_eq (c # cs) =
     (if c = CHR ''='' then Some ([], cs) else map_option (\<lambda>(k, v). (c # k, v)) (split_eq cs))"

text \<open>One iteration of the loop of \<open>LoadDotEnv\<close>.\<close>

definition load_line :: "string \<Rightarrow> env \<Rightarrow> env" where
  "load_line line e =
     (if line = [] \<or> hd line = CHR ''#'' then e
      else case split_eq line of
             None \<Rightarrow> e
           | Some (key, value) \<Rightarrow>
               (if key \<noteq> [] then setenv (c_string key) (c_string value) False e else e))"

definition LoadDotEnv :: "files \<Rightarrow> string \<Rightarrow> env \<Rightarrow> env" where
  "LoadDotEnv fs path e =
     (case fs path of
        None \<Rightarrow> e
      | Some content \<Rightarrow> fold load_line (getlines content) e)"

section \<open>What the loader computes\<close>

text \<open>The assignment a line stands for, if any.\<close>

definition line_entry :: "string \<Rightarrow> (string \<times> string) option" where
  "line_entry line =
     (if line = [] \<or> hd line = CHR ''#'' then None
      else case split_eq line of
             None \<Rightarrow> None
           | Some (key, value) \<Rightarrow>
               (if c_string key = [] then None else Some (c_string key, c_string value)))"

definition entries :: "string \<Rightarrow> (string \<times> string) list" where
  "entries content = List.map_filter line_entry (getlines content)"

lemma split_eq_key: "split_eq s = Some (k, v) \<Longrightarrow> CHR ''='' \<notin> set k \<and> s = k @ CHR ''='' # v"
  by (induction s arbitrary: k v) (auto split: if_splits)

lemma split_eq_append: "CHR ''='' \<notin> set k \<Longrightarrow> split_eq (k @ CHR ''='' # v) = Some (k, v)"
  by (induction k) auto

lemma c_string_Nil [simp]: "c_string [] = []"
  by (simp add: c_string_def)

lemma load_line_entry:
  "load_line line e = (case line_entry line of None \<Rightarrow> e | Some (k, v) \<Rightarrow> map_of [(k, v)] ++ e)"
proof (cases "split_eq line")
  case None
  then show ?thesis by (simp add: load_line_def line_entry_def)
next
  case (Some kv)
  obtain k v where kv: "kv = (k, v)" by (cases kv)
  with Some have "CHR ''='' \<notin> set (c_string k)"
    using split_eq_key [of line k v] set_c_string [of k] by auto
  with Some kv show ?thesis
    by (auto simp: load_line_def line_entry_def setenv_def fun_eq_iff map_add_def
        split: option.splits)
qed

text \<open>
  Loading a list of lines keeps what is set and takes the first assignment of every other name:
  it is the environment laid over the file's entries.
\<close>

lemma fold_load_line:
  "fold load_line ls e = map_of (List.map_filter line_entry ls) ++ e"
proof (induction ls arbitrary: e)
  case Nil
  then show ?case by (simp add: List.map_filter_def)
next
  case (Cons l ls)
  show ?case
  proof (cases "line_entry l")
    case None
    then show ?thesis
      by (simp add: Cons load_line_entry [of l] List.map_filter_simps)
  next
    case (Some kv)
    then show ?thesis
      by (cases kv) (simp add: Cons load_line_entry [of l] List.map_filter_simps fun_eq_iff map_add_def
          split: option.splits)
  qed
qed

text \<open>
  C38. \<open>LoadDotEnv\<close> is exact: afterwards a variable has the value it had before, if it had one,
  and otherwise the value of its first assignment in the file (comments, blank lines, lines
  without \<open>=\<close> and empty names assign nothing); a file that cannot be opened changes nothing.
\<close>

theorem LoadDotEnv_exact:
  "LoadDotEnv fs path e = (case fs path of None \<Rightarrow> e | Some content \<Rightarrow> map_of (entries content) ++ e)"
  by (simp add: LoadDotEnv_def entries_def fold_load_line split: option.splits)


section \<open>Consequences: precedence, repetition, fallbacks\<close>

text \<open>
  Precedence: loading two files in turn, as both \<open>main\<close> functions do, leaves the process
  environment on top, then the first file, then the second.
\<close>

lemma LoadDotEnv_precedence:
  "LoadDotEnv fs p2 (LoadDotEnv fs p1 e) k =
     (case e k of
        Some v \<Rightarrow> Some v
      | None \<Rightarrow>
          (case (case fs p1 of None \<Rightarrow> None | Some c1 \<Rightarrow> map_of (entries c1) k) of
             Some v \<Rightarrow> Some v
           | None \<Rightarrow> (case fs p2 of None \<Rightarrow> None | Some c2 \<Rightarrow> map_of (entries c2) k)))"
  by (cases "fs p1"; cases "fs p2")
     (simp_all add: LoadDotEnv_def fold_load_line entries_def map_add_def split: option.splits)

text \<open>
  Loading a file again changes nothing, whatever was loaded in between.
\<close>

lemma LoadDotEnv_idempotent:
  "LoadDotEnv fs p (LoadDotEnv fs q (LoadDotEnv fs p e)) = LoadDotEnv fs q (LoadDotEnv fs p e)"
  by (cases "fs p"; cases "fs q")
     (auto simp: LoadDotEnv_def fold_load_line fun_eq_iff map_add_def split: option.splits)

text \<open>
  The other direction, from assignments to a file: a rendered list of assignments is read back.
\<close>

definition render_entries :: "(string \<times> string) list \<Rightarrow> string" where
  "render_entries es = concat (map (\<lambda>(k, v). k @ CHR ''='' # v @ [CHR 0x0A]) es)"

definition plain_entry :: "string \<times> string \<Rightarrow> bool" where
  "plain_entry = (\<lambda>(k, v). k \<noteq> [] \<and> hd k \<noteq> CHR ''#'' \<and> CHR ''='' \<notin> set k
     \<and> CHR 0x0A \<notin> set k \<and> CHR 0x00 \<notin> set k \<and> CHR 0x0A \<notin> set v \<and> CHR 0x00 \<notin> set v)"

lemma getlines_acc_line:
  "CHR 0x0A \<notin> set l \<Longrightarrow> getlines_acc acc (l @ CHR 0x0A # rest) = (rev acc @ l) # getlines_acc [] rest"
  by (induction l arbitrary: acc) auto

lemma getlines_line: "CHR 0x0A \<notin> set l \<Longrightarrow> getlines (l @ CHR 0x0A # rest) = l # getlines rest"
  by (simp add: getlines_def getlines_acc_line)

lemma line_entry_plain: "plain_entry (k, v) \<Longrightarrow> line_entry (k @ CHR ''='' # v) = Some (k, v)"
  by (auto simp: line_entry_def plain_entry_def split_eq_append c_string_id)

lemma entries_render:
  assumes "list_all plain_entry es"
  shows "entries (render_entries es) = es"
  using assms
proof (induction es)
  case Nil
  then show ?case by (simp add: render_entries_def entries_def getlines_def List.map_filter_simps)
next
  case (Cons kv es)
  obtain k v where kv: "kv = (k, v)" by (cases kv)
  with Cons.prems have plain: "plain_entry (k, v)" and nl: "CHR 0x0A \<notin> set (k @ CHR ''='' # v)"
    by (auto simp: plain_entry_def)
  have "getlines (render_entries (kv # es)) = (k @ CHR ''='' # v) # getlines (render_entries es)"
    using getlines_line [OF nl, of "render_entries es"] by (simp add: render_entries_def kv)
  with Cons plain show ?case
    by (simp add: entries_def List.map_filter_simps line_entry_plain kv)
qed

text \<open>
  Round trip: when a file holds assignments written one per line, loading it sets exactly these
  (the first one of each name) and leaves what the environment had.
\<close>

theorem LoadDotEnv_roundtrip:
  assumes "list_all plain_entry es" "fs path = Some (render_entries es)"
  shows "LoadDotEnv fs path e = map_of es ++ e"
  using entries_render [OF assms(1)] assms(2) by (simp add: LoadDotEnv_def fold_load_line entries_def)

theorem LoadDotEnv_roundtrip_witness:
  "LoadDotEnv [''.env'' \<mapsto> render_entries [(''A'', ''1=2''), (''B'', [])]] ''.env'' [''A'' \<mapsto> ''0''] =
     map_of [(''A'', ''1=2''), (''B'', [])] ++ [''A'' \<mapsto> ''0'']"
  by (rule LoadDotEnv_roundtrip) (simp_all add: plain_entry_def)

lemma GetEnv_empty_fallback: "GetEnv e key fallback = [] \<Longrightarrow> fallback = []"
  by (auto simp: GetEnv_def split: option.splits if_splits)

end
