(* ===== verification/Programs.thy ===== *)
theory Programs
  imports ZmqMultipart DotEnv
begin

text \<open>
  What the two C++ programs share: their state (an output trace next to the state of the library),
  opening the subscribing socket, and receiving one message. The trace lists what the outside sees,
  in order: lines on the two streams, sleeps, and, from the programs, calls and file writes.
\<close>

datatype 'r event =
    Out string          \<comment> \<open>a line on \<open>std::cout\<close>\<close>
  | Err string          \<comment> \<open>a line on \<open>std::cerr\<close>\<close>
  | Sleep nat           \<comment> \<open>\<open>std::this_thread::sleep_for\<close>, in milliseconds\<close>
  | Rpc 'r              \<comment> \<open>a remote call\<close>

type_synonym ('r, 'w, 'a) prog = "('r event list \<times> 'w, 'a) comp"

definition emit :: "'r event \<Rightarrow> ('r, 'w, unit) prog" where
  "emit ev = modify (\<lambda>(tr, w). (tr @ [ev], w))"

lemma emit_apply [simp]: "emit ev (tr, w) = (Inr (), (tr @ [ev], w))"
  by (simp add: emit_def)

text \<open>\<open>zmq::context_t context(1)\<close>, the \<open>sub\<close> socket, its connection, and the subscription to all topics.\<close>

definition open_subscriber ::
  "('m, 'w, 'x) sock_api_scheme \<Rightarrow> string \<Rightarrow> ('w, context_t \<times> socket_t) comp" where
  "open_subscriber api addr =
     bnd (context_threads api 1 (ZMQ_MAX_SOCKETS_DFLT api)) (\<lambda>context.
     bnd (socket_t_ctor api context Sock_sub) (\<lambda>subscriber.
     bnd (sock_connect api subscriber addr) (\<lambda>_.
     bnd (sock_set_cstr api subscriber AO_subscribe []) (\<lambda>_.
     ret (context, subscriber)))))"

text \<open>\<open>zmq::message_t msg; auto res = subscriber.recv(msg, zmq::recv_flags::none);\<close>\<close>

definition recv_message ::
  "('m, 'w, 'x) sock_api_scheme \<Rightarrow> 's socket_base_scheme \<Rightarrow> ('w, nat option \<times> 'm) comp" where
  "recv_message api s w =
     (case message_default api w of
        (Inl e, w1) \<Rightarrow> (Inl e, w1)
      | (Inr msg, w1) \<Rightarrow>
          (case sock_recv api s recv_flags_none (msg, w1) of
             (Inl e, (_, w2)) \<Rightarrow> (Inl e, w2)
           | (Inr res, (msg', w2)) \<Rightarrow> (Inr (res, msg'), w2)))"

text \<open>With libzmq as documented, receiving ends in a message, in nothing, or in an \<open>error_t\<close>.\<close>

lemma recv_message_outcome:
  assumes "msg_api_ok api" "recv_lib api"
  shows "(\<exists>n msg w'. recv_message api s w = (Inr (Some n, msg), w') \<and> message_size api msg = n)
     \<or> (\<exists>msg w'. recv_message api s w = (Inr (None, msg), w') \<and> zmq_errno api w' = EAGAIN api)
     \<or> (\<exists>w'. recv_message api s w = (Inl (ErrorT (zmq_errno api w')), w'))"
proof -
  obtain rc0 m0 w0 where i: "zmq_msg_init api w = ((rc0, m0), w0)" by (metis surj_pair)
  with msg_initD [OF assms(1) i] have d: "message_default api w = (Inr m0, w0)"
    by (simp add: message_default_def bnd_def call_def)
  obtain rc m' w' where z: "zmq_msg_recv api (sb_handle s) m0 recv_flags_none w0 = ((rc, m'), w')"
    and r: "sock_recv api s recv_flags_none (m0, w0) =
         (if 0 \<le> rc then (Inr (Some (nat rc)), (m', w'))
          else if zmq_errno api w' = EAGAIN api then (Inr None, (m', w'))
          else (Inl (ErrorT (zmq_errno api w')), (m', w')))"
    using recv_msg_outcome [OF assms(2), of s m0 recv_flags_none w0] by blast
  have "0 \<le> rc \<Longrightarrow> zmq_msg_size api m' = nat rc" using recv_libD(2) [OF assms(2) z] .
  with d r show ?thesis by (auto simp: recv_message_def message_size_def)
qed

text \<open>A message that waits in the queue is received.\<close>

lemma recv_message_queue:
  assumes "inbound api (sb_handle s) inq" "msg_api_ok api" "inq w = (bs, mo) # rest"
  shows "\<exists>msg w'. recv_message api s w = (Inr (Some (length bs), msg), w')
    \<and> message_data api msg = bs \<and> inq w' = rest"
proof -
  obtain m w1 where d: "message_default api w = (Inr m, w1)" "inq w1 = inq w"
    using inbound_default [OF assms(1,2)] by blast
  with assms(3) have "inq w1 = (bs, mo) # rest" by simp
  from inbound_recv [OF assms(1,2) this, of recv_flags_none m] d(1) show ?thesis
    by (auto simp: recv_message_def)
qed

end
