(* ===== verification/Flatbuffers.thy ===== *)
theory Flatbuffers
  imports Prelude
begin

text \<open>
  The part of the FlatBuffers runtime that the generated headers and the programs use. The library
  is not in the repository: its functions are the fields of a record. \<open>'b\<close> is the memory of a
  received message, \<open>'v\<close> a verifier, \<open>'f\<close> a \<open>FlatBufferBuilder\<close>; tables, strings and vectors are
  positions in the memory, a null pointer is \<open>None\<close>, and reading outside the memory is undefined
  behaviour. A \<open>double\<close> is its 64-bit pattern.
\<close>

section \<open>The runtime\<close>

record ('b, 'v, 'f) fb_runtime =
  GetRoot :: "'b \<Rightarrow> nat res"
  GetSizePrefixedRoot :: "'b \<Rightarrow> nat res"
  GetPointer :: "'b \<Rightarrow> nat \<Rightarrow> nat \<Rightarrow> nat option res"
  GetField32 :: "'b \<Rightarrow> nat \<Rightarrow> nat \<Rightarrow> 32 word \<Rightarrow> 32 word res"
  GetField64 :: "'b \<Rightarrow> nat \<Rightarrow> nat \<Rightarrow> 64 word \<Rightarrow> 64 word res"
  StringStr :: "'b \<Rightarrow> nat \<Rightarrow> string res"
  VectorTables :: "'b \<Rightarrow> nat \<Rightarrow> nat list res"
  VerifyTableStart :: "'b \<Rightarrow> nat \<Rightarrow> ('v, bool) comp"
  VerifyOffset :: "'b \<Rightarrow> nat \<Rightarrow> nat \<Rightarrow> ('v, bool) comp"
  VerifyField :: "'b \<Rightarrow> nat \<Rightarrow> nat \<Rightarrow> nat \<Rightarrow> ('v, bool) comp"
  VerifyString :: "'b \<Rightarrow> nat option \<Rightarrow> ('v, bool) comp"
  VerifyVector :: "'b \<Rightarrow> nat option \<Rightarrow> ('v, bool) comp"
  VerifyVectorOfTables :: "'b \<Rightarrow> (nat \<Rightarrow> ('v, bool) comp) \<Rightarrow> nat option \<Rightarrow> ('v, bool) comp"
  VerifyEndTable :: "('v, bool) comp"
  VerifyBuffer :: "'b \<Rightarrow> (nat \<Rightarrow> ('v, bool) comp) \<Rightarrow> ('v, bool) comp"
  VerifySizePrefixedBuffer :: "'b \<Rightarrow> (nat \<Rightarrow> ('v, bool) comp) \<Rightarrow> ('v, bool) comp"
  StartTable :: "'f \<Rightarrow> nat \<times> 'f"
  AddOffset :: "nat \<Rightarrow> nat \<Rightarrow> 'f \<Rightarrow> 'f"
  AddElement32 :: "nat \<Rightarrow> 32 word \<Rightarrow> 32 word \<Rightarrow> 'f \<Rightarrow> 'f"
  AddElement64 :: "nat \<Rightarrow> 64 word \<Rightarrow> 64 word \<Rightarrow> 'f \<Rightarrow> 'f"
  AddElementDouble :: "nat \<Rightarrow> 64 word \<Rightarrow> 64 word \<Rightarrow> 'f \<Rightarrow> 'f"
  EndTable :: "nat \<Rightarrow> 'f \<Rightarrow> nat \<times> 'f"
  CreateString :: "string \<Rightarrow> 'f \<Rightarrow> nat \<times> 'f"
  CreateVector :: "nat list \<Rightarrow> 'f \<Rightarrow> nat \<times> 'f"
  FinishRoot :: "nat \<Rightarrow> 'f \<Rightarrow> 'f"
  FinishSizePrefixed :: "nat \<Rightarrow> 'f \<Rightarrow> 'f"
  GetBuffer :: "'f \<Rightarrow> 'b"

text \<open>\<open>==\<close> on doubles: a NaN differs from everything, and the two zeros are equal.\<close>

definition double_nan :: "64 word \<Rightarrow> bool" where
  "double_nan x \<longleftrightarrow> 0x7FF0000000000000 < x AND 0x7FFFFFFFFFFFFFFF"

definition double_eq :: "64 word \<Rightarrow> 64 word \<Rightarrow> bool" where
  "double_eq x y \<longleftrightarrow> \<not> double_nan x \<and> \<not> double_nan y
     \<and> (x = y \<or> x AND 0x7FFFFFFFFFFFFFFF = 0 \<and> y AND 0x7FFFFFFFFFFFFFFF = 0)"

text \<open>The \<open>&&\<close> of the generated \<open>Verify\<close> functions.\<close>

definition vand :: "('v, bool) comp \<Rightarrow> ('v, bool) comp \<Rightarrow> ('v, bool) comp" where
  "vand f g = bnd f (\<lambda>b. if b then g else ret False)"

definition accepts :: "('v, bool) comp \<Rightarrow> bool" where
  "accepts f \<longleftrightarrow> (\<exists>v v'. f v = (Inr True, v'))"

lemma accepts_vand: "accepts (vand f g) \<Longrightarrow> accepts f \<and> accepts g"
  by (fastforce simp: accepts_def vand_def bnd_Inr_iff split: if_splits)

lemma accepts_lift [simp]: "accepts (bnd (lift_res r) f) \<longleftrightarrow> (\<exists>x. r = Inr x \<and> accepts (f x))"
  by (cases r) (auto simp: accepts_def bnd_def)

text \<open>A string argument of type \<open>const char *\<close>: null gives the null offset.\<close>

definition create_string_opt :: "('b, 'v, 'f) fb_runtime \<Rightarrow> string option \<Rightarrow> 'f \<Rightarrow> nat \<times> 'f" where
  "create_string_opt rt s f = (case s of None \<Rightarrow> (0, f) | Some s \<Rightarrow> CreateString rt (c_string s) f)"

text \<open>\<open>p->str()\<close> on a pointer that may be null.\<close>

definition string_of_ptr :: "('b, 'v, 'f) fb_runtime \<Rightarrow> 'b \<Rightarrow> nat option \<Rightarrow> string res" where
  "string_of_ptr rt buf p = rbind (deref p) (StringStr rt buf)"

section \<open>What verification guarantees\<close>

text \<open>
  The promise of the verifier, per function: once the start of a table is verified, a verified offset
  or field can be read; a verified string or vector can be read; the tables of a verified vector and
  the root of a verified buffer have passed the table's own \<open>Verify\<close>.
\<close>

definition verifier_ok :: "('b, 'v, 'f) fb_runtime \<Rightarrow> 'b \<Rightarrow> bool" where
  "verifier_ok rt buf \<longleftrightarrow>
     (\<forall>t f. accepts (VerifyTableStart rt buf t) \<longrightarrow> accepts (VerifyOffset rt buf t f) \<longrightarrow>
        (\<exists>p. GetPointer rt buf t f = Inr p))
   \<and> (\<forall>t f d. accepts (VerifyTableStart rt buf t) \<longrightarrow> accepts (VerifyField rt buf t f 4) \<longrightarrow>
        (\<exists>x. GetField32 rt buf t f d = Inr x))
   \<and> (\<forall>t f d. accepts (VerifyTableStart rt buf t) \<longrightarrow> accepts (VerifyField rt buf t f 8) \<longrightarrow>
        (\<exists>x. GetField64 rt buf t f d = Inr x))
   \<and> (\<forall>p. accepts (VerifyString rt buf (Some p)) \<longrightarrow> (\<exists>s. StringStr rt buf p = Inr s))
   \<and> (\<forall>p. accepts (VerifyVector rt buf (Some p)) \<longrightarrow> (\<exists>ts. VectorTables rt buf p = Inr ts))
   \<and> (\<forall>elem p ts t. accepts (VerifyVectorOfTables rt buf elem (Some p)) \<longrightarrow>
        VectorTables rt buf p = Inr ts \<longrightarrow> t \<in> set ts \<longrightarrow> accepts (elem t))
   \<and> (\<forall>elem. accepts (VerifyBuffer rt buf elem) \<longrightarrow> (\<exists>t. GetRoot rt buf = Inr t \<and> accepts (elem t)))"

lemma verifier_okD:
  assumes "verifier_ok rt buf"
  shows "accepts (VerifyTableStart rt buf t) \<Longrightarrow> accepts (VerifyOffset rt buf t f) \<Longrightarrow>
      \<exists>p. GetPointer rt buf t f = Inr p"
    and "accepts (VerifyTableStart rt buf t) \<Longrightarrow> accepts (VerifyField rt buf t f 4) \<Longrightarrow>
      \<exists>x. GetField32 rt buf t f d = Inr x"
    and "accepts (VerifyTableStart rt buf t) \<Longrightarrow> accepts (VerifyField rt buf t f 8) \<Longrightarrow>
      \<exists>y. GetField64 rt buf t f d' = Inr y"
    and "accepts (VerifyString rt buf (Some q)) \<Longrightarrow> \<exists>s. StringStr rt buf q = Inr s"
    and "accepts (VerifyVector rt buf (Some q)) \<Longrightarrow> \<exists>ts. VectorTables rt buf q = Inr ts"
    and "accepts (VerifyVectorOfTables rt buf elem (Some q)) \<Longrightarrow> VectorTables rt buf q = Inr ts \<Longrightarrow> t \<in> set ts \<Longrightarrow>
      accepts (elem t)"
    and "accepts (VerifyBuffer rt buf elem) \<Longrightarrow> \<exists>t. GetRoot rt buf = Inr t \<and> accepts (elem t)"
  using assms unfolding verifier_ok_def by metis+

section \<open>What building guarantees\<close>

text \<open>
  The objects of a builder, as the documentation describes them: \<open>obj f\<close> gives the strings, vectors
  and tables created so far by their offset (never 0, never changed by later calls). A table under
  construction collects fields; an offset of 0 and an element equal to its default (for a double, in the
  sense of \<open>==\<close>) are not stored.
  Reading the finished buffer, every object is found behind a position of its own (\<open>at f offset\<close>).
\<close>

datatype fb_value = FOffset nat | F32 "32 word" | F64 "64 word"

datatype fb_object = FString string | FVector "nat list" | FTable "nat \<rightharpoonup> fb_value"

type_synonym fb_objects = "nat \<rightharpoonup> fb_object"

record ('b, 'f) fb_ghost =
  fb_obj :: "'f \<Rightarrow> fb_objects"
  fb_open :: "'f \<Rightarrow> nat \<rightharpoonup> fb_value"
  fb_at :: "'b \<Rightarrow> nat \<Rightarrow> nat"

definition store_field :: "(nat \<rightharpoonup> fb_value) \<Rightarrow> nat \<Rightarrow> fb_value \<Rightarrow> fb_value \<Rightarrow> nat \<rightharpoonup> fb_value" where
  "store_field tab fld v dflt = (if v = dflt then tab else tab(fld \<mapsto> v))"

definition builder_ok :: "('b, 'v, 'f) fb_runtime \<Rightarrow> ('b, 'f) fb_ghost \<Rightarrow> bool" where
  "builder_ok rt g \<longleftrightarrow>
     (\<forall>s f p f'. CreateString rt s f = (p, f') \<longrightarrow>
        p \<noteq> 0 \<and> fb_obj g f p = None \<and> fb_obj g f' = (fb_obj g f)(p \<mapsto> FString s))
   \<and> (\<forall>ts f p f'. CreateVector rt ts f = (p, f') \<longrightarrow>
        p \<noteq> 0 \<and> fb_obj g f p = None \<and> fb_obj g f' = (fb_obj g f)(p \<mapsto> FVector ts))
   \<and> (\<forall>f p f'. StartTable rt f = (p, f') \<longrightarrow> fb_obj g f' = fb_obj g f \<and> fb_open g f' = Map.empty)
   \<and> (\<forall>fld p f. fb_obj g (AddOffset rt fld p f) = fb_obj g f
        \<and> fb_open g (AddOffset rt fld p f) = store_field (fb_open g f) fld (FOffset p) (FOffset 0))
   \<and> (\<forall>fld v d f. fb_obj g (AddElement32 rt fld v d f) = fb_obj g f
        \<and> fb_open g (AddElement32 rt fld v d f) = store_field (fb_open g f) fld (F32 v) (F32 d))
   \<and> (\<forall>fld v d f. fb_obj g (AddElement64 rt fld v d f) = fb_obj g f
        \<and> fb_open g (AddElement64 rt fld v d f) = store_field (fb_open g f) fld (F64 v) (F64 d))
   \<and> (\<forall>fld v d f. fb_obj g (AddElementDouble rt fld v d f) = fb_obj g f
        \<and> fb_open g (AddElementDouble rt fld v d f) =
            (if double_eq v d then fb_open g f else (fb_open g f)(fld \<mapsto> F64 v)))
   \<and> (\<forall>s f p f'. EndTable rt s f = (p, f') \<longrightarrow>
        p \<noteq> 0 \<and> fb_obj g f p = None \<and> fb_obj g f' = (fb_obj g f)(p \<mapsto> FTable (fb_open g f)))"

text \<open>The reading functions on a finished buffer.\<close>

definition reads :: "('b, 'v, 'f) fb_runtime \<Rightarrow> ('b, 'g) fb_ghost \<Rightarrow> fb_objects \<Rightarrow> 'b \<Rightarrow> bool" where
  "reads rt g obj buf \<longleftrightarrow>
     (\<forall>p s. obj p = Some (FString s) \<longrightarrow> StringStr rt buf (fb_at g buf p) = Inr s)
   \<and> (\<forall>p ts. obj p = Some (FVector ts) \<longrightarrow> VectorTables rt buf (fb_at g buf p) = Inr (map (fb_at g buf) ts))
   \<and> (\<forall>p tab fld. obj p = Some (FTable tab) \<longrightarrow>
        (tab fld = None \<longrightarrow> GetPointer rt buf (fb_at g buf p) fld = Inr None)
      \<and> (\<forall>q. tab fld = Some (FOffset q) \<longrightarrow> GetPointer rt buf (fb_at g buf p) fld = Inr (Some (fb_at g buf q)))
      \<and> (\<forall>d. tab fld = None \<longrightarrow> GetField32 rt buf (fb_at g buf p) fld d = Inr d)
      \<and> (\<forall>x d. tab fld = Some (F32 x) \<longrightarrow> GetField32 rt buf (fb_at g buf p) fld d = Inr x)
      \<and> (\<forall>d. tab fld = None \<longrightarrow> GetField64 rt buf (fb_at g buf p) fld d = Inr d)
      \<and> (\<forall>x d. tab fld = Some (F64 x) \<longrightarrow> GetField64 rt buf (fb_at g buf p) fld d = Inr x))"

definition finish_ok :: "('b, 'v, 'f) fb_runtime \<Rightarrow> ('b, 'f) fb_ghost \<Rightarrow> bool" where
  "finish_ok rt g \<longleftrightarrow>
     (\<forall>f root. let buf = GetBuffer rt (FinishRoot rt root f) in
        reads rt g (fb_obj g f) buf \<and> GetRoot rt buf = Inr (fb_at g buf root))"

lemma builder_okD:
  assumes "builder_ok rt g"
  shows "CreateString rt s f = (p, f') \<Longrightarrow>
        p \<noteq> 0 \<and> fb_obj g f p = None \<and> fb_obj g f' = (fb_obj g f)(p \<mapsto> FString s)"
    and "CreateVector rt ts f = (p, f') \<Longrightarrow>
        p \<noteq> 0 \<and> fb_obj g f p = None \<and> fb_obj g f' = (fb_obj g f)(p \<mapsto> FVector ts)"
    and "StartTable rt f = (p, f') \<Longrightarrow> fb_obj g f' = fb_obj g f \<and> fb_open g f' = Map.empty"
    and "fb_obj g (AddOffset rt fld p f) = fb_obj g f
        \<and> fb_open g (AddOffset rt fld p f) = store_field (fb_open g f) fld (FOffset p) (FOffset 0)"
    and "fb_obj g (AddElement32 rt fld v d f) = fb_obj g f
        \<and> fb_open g (AddElement32 rt fld v d f) = store_field (fb_open g f) fld (F32 v) (F32 d)"
    and "fb_obj g (AddElement64 rt fld v' d' f) = fb_obj g f
        \<and> fb_open g (AddElement64 rt fld v' d' f) = store_field (fb_open g f) fld (F64 v') (F64 d')"
    and "EndTable rt n f = (p, f') \<Longrightarrow>
        p \<noteq> 0 \<and> fb_obj g f p = None \<and> fb_obj g f' = (fb_obj g f)(p \<mapsto> FTable (fb_open g f))"
    and "fb_obj g (AddElementDouble rt fld v' d' f) = fb_obj g f
        \<and> fb_open g (AddElementDouble rt fld v' d' f) =
            (if double_eq v' d' then fb_open g f else (fb_open g f)(fld \<mapsto> F64 v'))"
  using assms unfolding builder_ok_def by metis+

lemma readsD:
  assumes "reads rt g obj buf"
  shows "obj p = Some (FString s) \<Longrightarrow> StringStr rt buf (fb_at g buf p) = Inr s"
    and "obj p = Some (FVector ts) \<Longrightarrow> VectorTables rt buf (fb_at g buf p) = Inr (map (fb_at g buf) ts)"
    and "obj p = Some (FTable tab) \<Longrightarrow> tab fld = None \<Longrightarrow> GetPointer rt buf (fb_at g buf p) fld = Inr None"
    and "obj p = Some (FTable tab) \<Longrightarrow> tab fld = Some (FOffset q) \<Longrightarrow>
        GetPointer rt buf (fb_at g buf p) fld = Inr (Some (fb_at g buf q))"
    and "obj p = Some (FTable tab) \<Longrightarrow> tab fld = None \<Longrightarrow> GetField32 rt buf (fb_at g buf p) fld d = Inr d"
    and "obj p = Some (FTable tab) \<Longrightarrow> tab fld = Some (F32 x) \<Longrightarrow> GetField32 rt buf (fb_at g buf p) fld d = Inr x"
    and "obj p = Some (FTable tab) \<Longrightarrow> tab fld = None \<Longrightarrow> GetField64 rt buf (fb_at g buf p) fld d' = Inr d'"
    and "obj p = Some (FTable tab) \<Longrightarrow> tab fld = Some (F64 y) \<Longrightarrow> GetField64 rt buf (fb_at g buf p) fld d' = Inr y"
  using assms unfolding reads_def by metis+

text \<open>Reading never forgets: objects created earlier are still there.\<close>

definition keeps :: "fb_objects \<Rightarrow> fb_objects \<Rightarrow> bool" where
  "keeps obj obj' \<longleftrightarrow> (\<forall>p x. obj p = Some x \<longrightarrow> obj' p = Some x)"

lemma keeps_refl [simp]: "keeps obj obj"
  by (simp add: keeps_def)

lemma keeps_trans [trans]: "keeps a b \<Longrightarrow> keeps b c \<Longrightarrow> keeps a c"
  by (simp add: keeps_def)

lemma keeps_update: "obj p = None \<Longrightarrow> keeps obj (obj(p \<mapsto> x))"
  by (simp add: keeps_def)

text \<open>An optional string: behind the offset 0 there is nothing.\<close>

definition is_string :: "fb_objects \<Rightarrow> nat \<Rightarrow> string option \<Rightarrow> bool" where
  "is_string obj p s \<longleftrightarrow> (case s of None \<Rightarrow> p = 0 | Some s \<Rightarrow> p \<noteq> 0 \<and> obj p = Some (FString s))"

lemma is_string_keeps: "is_string obj p s \<Longrightarrow> keeps obj obj' \<Longrightarrow> is_string obj' p s"
  by (auto simp: is_string_def keeps_def split: option.splits)

lemma create_string_opt_ok:
  assumes "builder_ok rt g" "create_string_opt rt s f = (p, f')"
  shows "is_string (fb_obj g f') p (map_option c_string s) \<and> keeps (fb_obj g f) (fb_obj g f')"
proof (cases s)
  case None
  with assms(2) show ?thesis by (simp add: create_string_opt_def is_string_def)
next
  case (Some t)
  with assms(2) have "CreateString rt (c_string t) f = (p, f')" by (simp add: create_string_opt_def)
  from builder_okD(1) [OF assms(1) this] Some show ?thesis
    by (auto simp: is_string_def intro: keeps_update)
qed

text \<open>The string behind a pointer that may be null, and the offset field that leads there.\<close>

definition read_opt :: "('b, 'v, 'f) fb_runtime \<Rightarrow> 'b \<Rightarrow> nat option \<Rightarrow> string option res" where
  "read_opt rt buf p =
     (case p of None \<Rightarrow> Inr None | Some q \<Rightarrow> rbind (StringStr rt buf q) (\<lambda>s. Inr (Some s)))"

lemma read_opt_ptr:
  "read_opt rt buf p = Inr x \<Longrightarrow>
     string_of_ptr rt buf p = (case x of None \<Rightarrow> Inl (UB ''null'') | Some s \<Rightarrow> Inr s)"
  by (cases p) (auto simp: read_opt_def string_of_ptr_def rbind_Inr_iff)

lemma verified_string:
  assumes "verifier_ok rt buf" "accepts (VerifyString rt buf p)"
  shows "\<exists>s. read_opt rt buf p = Inr s"
  using assms verifier_okD(4) [OF assms(1)] by (cases p) (fastforce simp: read_opt_def)+

definition offset_field :: "nat \<Rightarrow> fb_value option" where
  "offset_field p = (if p = 0 then None else Some (FOffset p))"

lemma reads_read_opt:
  assumes "reads rt g obj buf" "obj t = Some (FTable tab)" "is_string obj p s" "tab fld = offset_field p"
  shows "rbind (GetPointer rt buf (fb_at g buf t) fld) (read_opt rt buf) = Inr s"
  using assms readsD(1,3,4) [OF assms(1)]
  by (auto simp: is_string_def offset_field_def read_opt_def split: option.splits)

section \<open>A runtime over lists\<close>

text \<open>
  An implementation for the examples: a buffer is viewed as the list of its objects (position \<open>p\<close> is
  the \<open>p\<close>-th one, counted from 1) and its root; a builder appends to such a list. The fields of a table
  are an association list.
\<close>

datatype lb_object = LString string | LVector "nat list" | LTable "(nat \<times> fb_value) list"

fun lb_abs :: "lb_object \<Rightarrow> fb_object" where
  "lb_abs (LString s) = FString s"
| "lb_abs (LVector ts) = FVector ts"
| "lb_abs (LTable tab) = FTable (map_of tab)"

record list_builder =
  lb_objs :: "lb_object list"
  lb_open :: "(nat \<times> fb_value) list"
  lb_root :: nat

definition lb_start :: list_builder where
  "lb_start = \<lparr>lb_objs = [], lb_open = [], lb_root = 0\<rparr>"

definition objs_map :: "lb_object list \<Rightarrow> fb_objects" where
  "objs_map objs p = (if 0 < p \<and> p \<le> length objs then Some (lb_abs (objs ! (p - 1))) else None)"

definition lb_new :: "lb_object \<Rightarrow> list_builder \<Rightarrow> nat \<times> list_builder" where
  "lb_new x f = (Suc (length (lb_objs f)), f\<lparr>lb_objs := lb_objs f @ [x]\<rparr>)"

definition lb_store :: "(nat \<times> fb_value) list \<Rightarrow> nat \<Rightarrow> fb_value \<Rightarrow> fb_value \<Rightarrow> (nat \<times> fb_value) list" where
  "lb_store tab fld v dflt = (if v = dflt then tab else (fld, v) # tab)"

definition ob_field :: "lb_object list \<Rightarrow> nat \<Rightarrow> nat \<Rightarrow> fb_value option res" where
  "ob_field objs t fld =
     (case objs_map objs t of Some (FTable tab) \<Rightarrow> Inr (tab fld) | _ \<Rightarrow> Inl (UB ''table''))"

definition ob_pointer :: "lb_object list \<Rightarrow> nat \<Rightarrow> nat \<Rightarrow> nat option res" where
  "ob_pointer objs t fld = rbind (ob_field objs t fld) (\<lambda>v. case v of
     None \<Rightarrow> Inr None | Some (FOffset q) \<Rightarrow> Inr (Some q) | _ \<Rightarrow> Inl (UB ''offset''))"

definition ob_f32 :: "lb_object list \<Rightarrow> nat \<Rightarrow> nat \<Rightarrow> 32 word \<Rightarrow> 32 word res" where
  "ob_f32 objs t fld d = rbind (ob_field objs t fld) (\<lambda>v. case v of
     None \<Rightarrow> Inr d | Some (F32 x) \<Rightarrow> Inr x | _ \<Rightarrow> Inl (UB ''field''))"

definition ob_f64 :: "lb_object list \<Rightarrow> nat \<Rightarrow> nat \<Rightarrow> 64 word \<Rightarrow> 64 word res" where
  "ob_f64 objs t fld d = rbind (ob_field objs t fld) (\<lambda>v. case v of
     None \<Rightarrow> Inr d | Some (F64 x) \<Rightarrow> Inr x | _ \<Rightarrow> Inl (UB ''field''))"

definition ob_string :: "lb_object list \<Rightarrow> nat \<Rightarrow> string res" where
  "ob_string objs p = (case objs_map objs p of Some (FString s) \<Rightarrow> Inr s | _ \<Rightarrow> Inl (UB ''string''))"

definition ob_vector :: "lb_object list \<Rightarrow> nat \<Rightarrow> nat list res" where
  "ob_vector objs p = (case objs_map objs p of Some (FVector ts) \<Rightarrow> Inr ts | _ \<Rightarrow> Inl (UB ''vector''))"

definition is_Inr :: "'a res \<Rightarrow> bool" where
  "is_Inr r = (case r of Inr _ \<Rightarrow> True | Inl _ \<Rightarrow> False)"

lemma is_Inr_simps [simp]: "is_Inr (Inr x)" "\<not> is_Inr (Inl e)"
  by (simp_all add: is_Inr_def)

lemma is_InrD: "is_Inr r \<Longrightarrow> \<exists>x. r = Inr x"
  by (cases r) auto

fun all_tables :: "(nat \<Rightarrow> ('v, bool) comp) \<Rightarrow> nat list \<Rightarrow> ('v, bool) comp" where
  "all_tables elem [] = ret True"
| "all_tables elem (t # ts) = vand (elem t) (all_tables elem ts)"

definition list_runtime ::
  "('b \<Rightarrow> lb_object list \<times> nat) \<Rightarrow> (list_builder \<Rightarrow> 'b) \<Rightarrow> ('b, unit, list_builder) fb_runtime" where
  "list_runtime view buffer =
    \<lparr>GetRoot = (\<lambda>b. Inr (snd (view b))),
     GetSizePrefixedRoot = (\<lambda>b. Inr (snd (view b))),
     GetPointer = (\<lambda>b. ob_pointer (fst (view b))),
     GetField32 = (\<lambda>b. ob_f32 (fst (view b))),
     GetField64 = (\<lambda>b. ob_f64 (fst (view b))),
     StringStr = (\<lambda>b. ob_string (fst (view b))),
     VectorTables = (\<lambda>b. ob_vector (fst (view b))),
     VerifyTableStart = (\<lambda>b t. ret (is_Inr (ob_field (fst (view b)) t 0))),
     VerifyOffset = (\<lambda>b t fld. ret (is_Inr (ob_pointer (fst (view b)) t fld))),
     VerifyField = (\<lambda>b t fld n. ret (if n = 4 then is_Inr (ob_f32 (fst (view b)) t fld 0)
                                    else is_Inr (ob_f64 (fst (view b)) t fld 0))),
     VerifyString = (\<lambda>b p. ret (case p of None \<Rightarrow> True | Some p \<Rightarrow> is_Inr (ob_string (fst (view b)) p))),
     VerifyVector = (\<lambda>b p. ret (case p of None \<Rightarrow> True | Some p \<Rightarrow> is_Inr (ob_vector (fst (view b)) p))),
     VerifyVectorOfTables = (\<lambda>b elem p. case p of None \<Rightarrow> ret True
        | Some p \<Rightarrow> (case ob_vector (fst (view b)) p of Inl _ \<Rightarrow> ret False | Inr ts \<Rightarrow> all_tables elem ts)),
     VerifyEndTable = ret True,
     VerifyBuffer = (\<lambda>b elem. elem (snd (view b))),
     VerifySizePrefixedBuffer = (\<lambda>b elem. elem (snd (view b))),
     StartTable = (\<lambda>f. (0, f\<lparr>lb_open := []\<rparr>)),
     AddOffset = (\<lambda>fld p f. f\<lparr>lb_open := lb_store (lb_open f) fld (FOffset p) (FOffset 0)\<rparr>),
     AddElement32 = (\<lambda>fld v d f. f\<lparr>lb_open := lb_store (lb_open f) fld (F32 v) (F32 d)\<rparr>),
     AddElement64 = (\<lambda>fld v d f. f\<lparr>lb_open := lb_store (lb_open f) fld (F64 v) (F64 d)\<rparr>),
     AddElementDouble = (\<lambda>fld v d f. if double_eq v d then f else f\<lparr>lb_open := (fld, F64 v) # lb_open f\<rparr>),
     EndTable = (\<lambda>n f. lb_new (LTable (lb_open f)) f),
     CreateString = (\<lambda>s. lb_new (LString s)),
     CreateVector = (\<lambda>ts. lb_new (LVector ts)),
     FinishRoot = (\<lambda>root f. f\<lparr>lb_root := root\<rparr>),
     FinishSizePrefixed = (\<lambda>root f. f\<lparr>lb_root := root\<rparr>),
     GetBuffer = buffer\<rparr>"

lemma list_verifier_ok: "verifier_ok (list_runtime view buffer) buf"
proof -
  have ret: "accepts (ret b) \<longleftrightarrow> b" for b :: bool
    by (simp add: accepts_def)
  have all: "accepts (all_tables elem ts) \<Longrightarrow> t \<in> set ts \<Longrightarrow> accepts (elem t)"
    for elem :: "nat \<Rightarrow> (unit, bool) comp" and ts t
    by (induction ts) (auto dest: accepts_vand)
  have f32: "is_Inr (ob_f32 objs t fld 0) \<Longrightarrow> \<exists>x. ob_f32 objs t fld d = Inr x" for objs t fld d
    by (auto simp: ob_f32_def rbind_def is_Inr_def split: sum.splits option.splits fb_value.splits)
  have f64: "is_Inr (ob_f64 objs t fld 0) \<Longrightarrow> \<exists>x. ob_f64 objs t fld d = Inr x" for objs t fld d
    by (auto simp: ob_f64_def rbind_def is_Inr_def split: sum.splits option.splits fb_value.splits)
  show ?thesis
    unfolding verifier_ok_def list_runtime_def
    by (auto simp: ret dest: is_InrD f32 f64 split: sum.splits intro: all)
qed

definition list_ghost :: "('b \<Rightarrow> lb_object list \<times> nat) \<Rightarrow> ('b, list_builder) fb_ghost" where
  "list_ghost view = \<lparr>fb_obj = (\<lambda>f. objs_map (lb_objs f)), fb_open = (\<lambda>f. map_of (lb_open f)), fb_at = (\<lambda>b p. p)\<rparr>"

lemma objs_map_new: "objs_map (objs @ [x]) = (objs_map objs)(Suc (length objs) \<mapsto> lb_abs x)"
  by (auto simp: objs_map_def fun_eq_iff nth_append)

lemma list_builder_ok: "builder_ok (list_runtime view buffer) (list_ghost view)"
  unfolding builder_ok_def list_runtime_def list_ghost_def
  by (auto simp: lb_new_def objs_map_new lb_store_def store_field_def) (auto simp: objs_map_def)

lemma list_finish_ok:
  assumes "\<And>f. view (buffer f) = (lb_objs f, lb_root f)"
  shows "finish_ok (list_runtime view buffer) (list_ghost view)"
  unfolding finish_ok_def list_runtime_def list_ghost_def reads_def Let_def
  using assms by (auto simp: ob_pointer_def ob_f32_def ob_f64_def ob_field_def ob_string_def ob_vector_def)

end
