(* ===== verification/OrderFbs.thy ===== *)
theory OrderFbs
  imports Flatbuffers
begin

text \<open>
  The generated header \<open>order_generated.h\<close> of the robots: the tables \<open>Item\<close> and \<open>OrderBroadcast\<close>
  with their accessors, \<open>Verify\<close> functions, builders and \<open>Create...\<close> functions. A table is its
  position in the buffer, a builder the position \<open>start_\<close>.
\<close>

section \<open>\<open>Item\<close>\<close>

definition ITEM_VT_SKU :: nat where "ITEM_VT_SKU = 4"
definition ITEM_VT_QUANTITY :: nat where "ITEM_VT_QUANTITY = 6"
definition ITEM_VT_AISLE :: nat where "ITEM_VT_AISLE = 8"

lemmas item_vt = ITEM_VT_SKU_def ITEM_VT_QUANTITY_def ITEM_VT_AISLE_def

definition item_sku :: "('b, 'v, 'f) fb_runtime \<Rightarrow> 'b \<Rightarrow> nat \<Rightarrow> nat option res" where
  "item_sku rt buf t = GetPointer rt buf t ITEM_VT_SKU"

definition item_quantity :: "('b, 'v, 'f) fb_runtime \<Rightarrow> 'b \<Rightarrow> nat \<Rightarrow> 32 word res" where
  "item_quantity rt buf t = GetField32 rt buf t ITEM_VT_QUANTITY 0"

definition item_aisle :: "('b, 'v, 'f) fb_runtime \<Rightarrow> 'b \<Rightarrow> nat \<Rightarrow> nat option res" where
  "item_aisle rt buf t = GetPointer rt buf t ITEM_VT_AISLE"

definition item_verify :: "('b, 'v, 'f) fb_runtime \<Rightarrow> 'b \<Rightarrow> nat \<Rightarrow> ('v, bool) comp" where
  "item_verify rt buf t =
     vand (VerifyTableStart rt buf t)
    (vand (VerifyOffset rt buf t ITEM_VT_SKU)
    (vand (bnd (lift_res (item_sku rt buf t)) (VerifyString rt buf))
    (vand (VerifyField rt buf t ITEM_VT_QUANTITY 4)
    (vand (VerifyOffset rt buf t ITEM_VT_AISLE)
    (vand (bnd (lift_res (item_aisle rt buf t)) (VerifyString rt buf))
          (VerifyEndTable rt))))))"

definition item_builder :: "('b, 'v, 'f) fb_runtime \<Rightarrow> 'f \<Rightarrow> nat \<times> 'f" where
  "item_builder rt fbb = StartTable rt fbb"

definition item_add_sku :: "('b, 'v, 'f) fb_runtime \<Rightarrow> nat \<Rightarrow> 'f \<Rightarrow> 'f" where
  "item_add_sku rt sku fbb = AddOffset rt ITEM_VT_SKU sku fbb"

definition item_add_quantity :: "('b, 'v, 'f) fb_runtime \<Rightarrow> 32 word \<Rightarrow> 'f \<Rightarrow> 'f" where
  "item_add_quantity rt quantity fbb = AddElement32 rt ITEM_VT_QUANTITY quantity 0 fbb"

definition item_add_aisle :: "('b, 'v, 'f) fb_runtime \<Rightarrow> nat \<Rightarrow> 'f \<Rightarrow> 'f" where
  "item_add_aisle rt aisle fbb = AddOffset rt ITEM_VT_AISLE aisle fbb"

definition item_finish :: "('b, 'v, 'f) fb_runtime \<Rightarrow> nat \<Rightarrow> 'f \<Rightarrow> nat \<times> 'f" where
  "item_finish rt start fbb = EndTable rt start fbb"

definition CreateItem :: "('b, 'v, 'f) fb_runtime \<Rightarrow> nat \<Rightarrow> 32 word \<Rightarrow> nat \<Rightarrow> 'f \<Rightarrow> nat \<times> 'f" where
  "CreateItem rt sku quantity aisle fbb =
     (case item_builder rt fbb of (start, fbb) \<Rightarrow>
      item_finish rt start
        (item_add_sku rt sku (item_add_quantity rt quantity (item_add_aisle rt aisle fbb))))"

definition CreateItemDirect ::
  "('b, 'v, 'f) fb_runtime \<Rightarrow> string option \<Rightarrow> 32 word \<Rightarrow> string option \<Rightarrow> 'f \<Rightarrow> nat \<times> 'f" where
  "CreateItemDirect rt sku quantity aisle fbb =
     (case create_string_opt rt sku fbb of (sku', fbb) \<Rightarrow>
      case create_string_opt rt aisle fbb of (aisle', fbb) \<Rightarrow>
      CreateItem rt sku' quantity aisle' fbb)"

section \<open>\<open>OrderBroadcast\<close>\<close>

definition ORDER_VT_ORDER_ID :: nat where "ORDER_VT_ORDER_ID = 4"
definition ORDER_VT_ORDER_TYPE :: nat where "ORDER_VT_ORDER_TYPE = 6"
definition ORDER_VT_ITEMS :: nat where "ORDER_VT_ITEMS = 8"

lemmas order_vt = ORDER_VT_ORDER_ID_def ORDER_VT_ORDER_TYPE_def ORDER_VT_ITEMS_def

definition order_order_id :: "('b, 'v, 'f) fb_runtime \<Rightarrow> 'b \<Rightarrow> nat \<Rightarrow> nat option res" where
  "order_order_id rt buf t = GetPointer rt buf t ORDER_VT_ORDER_ID"

definition order_order_type :: "('b, 'v, 'f) fb_runtime \<Rightarrow> 'b \<Rightarrow> nat \<Rightarrow> nat option res" where
  "order_order_type rt buf t = GetPointer rt buf t ORDER_VT_ORDER_TYPE"

definition order_items :: "('b, 'v, 'f) fb_runtime \<Rightarrow> 'b \<Rightarrow> nat \<Rightarrow> nat option res" where
  "order_items rt buf t = GetPointer rt buf t ORDER_VT_ITEMS"

definition order_verify :: "('b, 'v, 'f) fb_runtime \<Rightarrow> 'b \<Rightarrow> nat \<Rightarrow> ('v, bool) comp" where
  "order_verify rt buf t =
     vand (VerifyTableStart rt buf t)
    (vand (VerifyOffset rt buf t ORDER_VT_ORDER_ID)
    (vand (bnd (lift_res (order_order_id rt buf t)) (VerifyString rt buf))
    (vand (VerifyOffset rt buf t ORDER_VT_ORDER_TYPE)
    (vand (bnd (lift_res (order_order_type rt buf t)) (VerifyString rt buf))
    (vand (VerifyOffset rt buf t ORDER_VT_ITEMS)
    (vand (bnd (lift_res (order_items rt buf t)) (VerifyVector rt buf))
    (vand (bnd (lift_res (order_items rt buf t)) (VerifyVectorOfTables rt buf (item_verify rt buf)))
          (VerifyEndTable rt))))))))"

definition order_builder :: "('b, 'v, 'f) fb_runtime \<Rightarrow> 'f \<Rightarrow> nat \<times> 'f" where
  "order_builder rt fbb = StartTable rt fbb"

definition order_add_order_id :: "('b, 'v, 'f) fb_runtime \<Rightarrow> nat \<Rightarrow> 'f \<Rightarrow> 'f" where
  "order_add_order_id rt order_id fbb = AddOffset rt ORDER_VT_ORDER_ID order_id fbb"

definition order_add_order_type :: "('b, 'v, 'f) fb_runtime \<Rightarrow> nat \<Rightarrow> 'f \<Rightarrow> 'f" where
  "order_add_order_type rt order_type fbb = AddOffset rt ORDER_VT_ORDER_TYPE order_type fbb"

definition order_add_items :: "('b, 'v, 'f) fb_runtime \<Rightarrow> nat \<Rightarrow> 'f \<Rightarrow> 'f" where
  "order_add_items rt items fbb = AddOffset rt ORDER_VT_ITEMS items fbb"

definition order_finish :: "('b, 'v, 'f) fb_runtime \<Rightarrow> nat \<Rightarrow> 'f \<Rightarrow> nat \<times> 'f" where
  "order_finish rt start fbb = EndTable rt start fbb"

definition CreateOrderBroadcast :: "('b, 'v, 'f) fb_runtime \<Rightarrow> nat \<Rightarrow> nat \<Rightarrow> nat \<Rightarrow> 'f \<Rightarrow> nat \<times> 'f" where
  "CreateOrderBroadcast rt order_id order_type items fbb =
     (case order_builder rt fbb of (start, fbb) \<Rightarrow>
      order_finish rt start
        (order_add_order_id rt order_id (order_add_order_type rt order_type (order_add_items rt items fbb))))"

definition create_items_opt :: "('b, 'v, 'f) fb_runtime \<Rightarrow> nat list option \<Rightarrow> 'f \<Rightarrow> nat \<times> 'f" where
  "create_items_opt rt items fbb = (case items of None \<Rightarrow> (0, fbb) | Some ts \<Rightarrow> CreateVector rt ts fbb)"

definition CreateOrderBroadcastDirect ::
  "('b, 'v, 'f) fb_runtime \<Rightarrow> string option \<Rightarrow> string option \<Rightarrow> nat list option \<Rightarrow> 'f \<Rightarrow> nat \<times> 'f" where
  "CreateOrderBroadcastDirect rt order_id order_type items fbb =
     (case create_string_opt rt order_id fbb of (order_id', fbb) \<Rightarrow>
      case create_string_opt rt order_type fbb of (order_type', fbb) \<Rightarrow>
      case create_items_opt rt items fbb of (items', fbb) \<Rightarrow>
      CreateOrderBroadcast rt order_id' order_type' items' fbb)"

section \<open>Buffers\<close>

definition GetOrderBroadcast :: "('b, 'v, 'f) fb_runtime \<Rightarrow> 'b \<Rightarrow> nat res" where
  "GetOrderBroadcast rt buf = GetRoot rt buf"

definition GetSizePrefixedOrderBroadcast :: "('b, 'v, 'f) fb_runtime \<Rightarrow> 'b \<Rightarrow> nat res" where
  "GetSizePrefixedOrderBroadcast rt buf = GetSizePrefixedRoot rt buf"

definition VerifyOrderBroadcastBuffer :: "('b, 'v, 'f) fb_runtime \<Rightarrow> 'b \<Rightarrow> ('v, bool) comp" where
  "VerifyOrderBroadcastBuffer rt buf = VerifyBuffer rt buf (order_verify rt buf)"

definition VerifySizePrefixedOrderBroadcastBuffer :: "('b, 'v, 'f) fb_runtime \<Rightarrow> 'b \<Rightarrow> ('v, bool) comp" where
  "VerifySizePrefixedOrderBroadcastBuffer rt buf = VerifySizePrefixedBuffer rt buf (order_verify rt buf)"

definition FinishOrderBroadcastBuffer :: "('b, 'v, 'f) fb_runtime \<Rightarrow> nat \<Rightarrow> 'f \<Rightarrow> 'f" where
  "FinishOrderBroadcastBuffer rt root fbb = FinishRoot rt root fbb"

definition FinishSizePrefixedOrderBroadcastBuffer :: "('b, 'v, 'f) fb_runtime \<Rightarrow> nat \<Rightarrow> 'f \<Rightarrow> 'f" where
  "FinishSizePrefixedOrderBroadcastBuffer rt root fbb = FinishSizePrefixed rt root fbb"

section \<open>Verified buffers\<close>

text \<open>Every accessor of an item, with \<open>str()\<close> on the strings that are there.\<close>

definition item_read :: "('b, 'v, 'f) fb_runtime \<Rightarrow> 'b \<Rightarrow> nat \<Rightarrow> (string option \<times> 32 word \<times> string option) res" where
  "item_read rt buf t =
     rbind (item_sku rt buf t) (\<lambda>sku.
     rbind (read_opt rt buf sku) (\<lambda>sku.
     rbind (item_quantity rt buf t) (\<lambda>quantity.
     rbind (item_aisle rt buf t) (\<lambda>aisle.
     rbind (read_opt rt buf aisle) (\<lambda>aisle.
     Inr (sku, quantity, aisle))))))"

fun items_read :: "('b, 'v, 'f) fb_runtime \<Rightarrow> 'b \<Rightarrow> nat list \<Rightarrow> (string option \<times> 32 word \<times> string option) list res" where
  "items_read rt buf [] = Inr []"
| "items_read rt buf (t # ts) =
     rbind (item_read rt buf t) (\<lambda>x. rbind (items_read rt buf ts) (\<lambda>xs. Inr (x # xs)))"

text \<open>The whole content of a message: every accessor of the header, on every item.\<close>

type_synonym order_content =
  "string option \<times> string option \<times> (string option \<times> 32 word \<times> string option) list option"

definition order_read :: "('b, 'v, 'f) fb_runtime \<Rightarrow> 'b \<Rightarrow> order_content res" where
  "order_read rt buf =
     rbind (GetOrderBroadcast rt buf) (\<lambda>t.
     rbind (order_order_id rt buf t) (\<lambda>oid.
     rbind (read_opt rt buf oid) (\<lambda>oid.
     rbind (order_order_type rt buf t) (\<lambda>typ.
     rbind (read_opt rt buf typ) (\<lambda>typ.
     rbind (order_items rt buf t) (\<lambda>items.
     rbind (case items of None \<Rightarrow> Inr None
            | Some p \<Rightarrow> rbind (VectorTables rt buf p) (\<lambda>ts. rbind (items_read rt buf ts) (\<lambda>xs. Inr (Some xs)))) (\<lambda>items.
     Inr (oid, typ, items))))))))"

lemma item_verified:
  assumes ok: "verifier_ok rt buf" and v: "accepts (item_verify rt buf t)"
  shows "\<exists>x. item_read rt buf t = Inr x"
proof -
  from v have "accepts (VerifyTableStart rt buf t)" "accepts (VerifyField rt buf t ITEM_VT_QUANTITY 4)"
    by (auto simp: item_verify_def dest!: accepts_vand)
  from verifier_okD(2) [OF ok this] obtain q where q: "item_quantity rt buf t = Inr q"
    by (auto simp: item_quantity_def)
  from v obtain sku aisle where "item_sku rt buf t = Inr sku" "accepts (VerifyString rt buf sku)"
    "item_aisle rt buf t = Inr aisle" "accepts (VerifyString rt buf aisle)"
    by (auto simp: item_verify_def dest!: accepts_vand)
  with q show ?thesis
    using verified_string [OF ok, of sku] verified_string [OF ok, of aisle]
    by (auto simp: item_read_def)
qed

lemma items_verified:
  "verifier_ok rt buf \<Longrightarrow> (\<And>t. t \<in> set ts \<Longrightarrow> accepts (item_verify rt buf t)) \<Longrightarrow> \<exists>xs. items_read rt buf ts = Inr xs"
proof (induction ts)
  case (Cons t ts)
  then obtain x xs where "item_read rt buf t = Inr x" "items_read rt buf ts = Inr xs"
    using item_verified by fastforce
  then show ?case by simp
qed simp

text \<open>
  C22. \<open>Verify\<close> covers every accessor. On a buffer that \<open>VerifyOrderBroadcastBuffer\<close> accepts, the root, each
  field of the order and each field of each item can be read without leaving the buffer: nothing the
  generated code exposes is unchecked, and what is left to a reader is only a null field.
\<close>

theorem verified_order_readable:
  assumes "verifier_ok rt buf" "accepts (VerifyOrderBroadcastBuffer rt buf)"
  shows "\<exists>c. order_read rt buf = Inr c"
proof -
  obtain t where t: "GetOrderBroadcast rt buf = Inr t" "accepts (order_verify rt buf t)"
    using verifier_okD(7) [OF assms(1)] assms(2)
    by (auto simp: VerifyOrderBroadcastBuffer_def GetOrderBroadcast_def)
  from t(2) obtain oid ty items where f:
    "order_order_id rt buf t = Inr oid" "accepts (VerifyString rt buf oid)"
    "order_order_type rt buf t = Inr ty" "accepts (VerifyString rt buf ty)"
    "order_items rt buf t = Inr items" "accepts (VerifyVector rt buf items)"
    "accepts (VerifyVectorOfTables rt buf (item_verify rt buf) items)"
    by (auto simp: order_verify_def dest!: accepts_vand)
  obtain oid' ty' where s: "read_opt rt buf oid = Inr oid'" "read_opt rt buf ty = Inr ty'"
    using verified_string [OF assms(1) f(2)] verified_string [OF assms(1) f(4)] by blast
  have "\<exists>xs. (case items of None \<Rightarrow> Inr None
      | Some p \<Rightarrow> rbind (VectorTables rt buf p) (\<lambda>ts. rbind (items_read rt buf ts) (\<lambda>xs. Inr (Some xs)))) = Inr xs"
  proof (cases items)
    case (Some p)
    with f(6) verifier_okD(5) [OF assms(1)] obtain ts where ts: "VectorTables rt buf p = Inr ts" by blast
    with f(7) Some verifier_okD(6) [OF assms(1)] have "\<And>t. t \<in> set ts \<Longrightarrow> accepts (item_verify rt buf t)" by blast
    then obtain xs where "items_read rt buf ts = Inr xs"
      using items_verified [OF assms(1), of ts] by blast
    with ts Some show ?thesis by simp
  qed simp
  with t(1) f(1,3,5) s show ?thesis by (auto simp: order_read_def)
qed

section \<open>Building and reading back\<close>

text \<open>What a reader sees of an item or an order given to the \<open>Create...Direct\<close> functions.\<close>

definition seen_item :: "string option \<times> 32 word \<times> string option \<Rightarrow> string option \<times> 32 word \<times> string option" where
  "seen_item = (\<lambda>(sku, quantity, aisle). (map_option c_string sku, quantity, map_option c_string aisle))"

text \<open>A sender: all items, then the order, then the finished buffer.\<close>

fun create_items ::
  "('b, 'v, 'f) fb_runtime \<Rightarrow> (string option \<times> 32 word \<times> string option) list \<Rightarrow> 'f \<Rightarrow> nat list \<times> 'f" where
  "create_items rt [] f = ([], f)"
| "create_items rt ((sku, quantity, aisle) # items) f =
     (case CreateItemDirect rt sku quantity aisle f of (t, f1) \<Rightarrow>
      case create_items rt items f1 of (ts, f2) \<Rightarrow> (t # ts, f2))"

definition send_order ::
  "('b, 'v, 'f) fb_runtime \<Rightarrow> string option \<Rightarrow> string option
     \<Rightarrow> (string option \<times> 32 word \<times> string option) list \<Rightarrow> 'f \<Rightarrow> 'b" where
  "send_order rt order_id order_type items f =
     (case create_items rt items f of (ts, f1) \<Rightarrow>
      case CreateOrderBroadcastDirect rt order_id order_type (Some ts) f1 of (root, f2) \<Rightarrow>
      GetBuffer rt (FinishOrderBroadcastBuffer rt root f2))"

definition is_item :: "fb_objects \<Rightarrow> nat \<Rightarrow> string option \<times> 32 word \<times> string option \<Rightarrow> bool" where
  "is_item obj t x \<longleftrightarrow> (case x of (sku, quantity, aisle) \<Rightarrow>
     (\<exists>tab p q. t \<noteq> 0 \<and> obj t = Some (FTable tab) \<and> is_string obj p sku \<and> is_string obj q aisle
        \<and> tab ITEM_VT_SKU = offset_field p \<and> tab ITEM_VT_AISLE = offset_field q
        \<and> tab ITEM_VT_QUANTITY = (if quantity = 0 then None else Some (F32 quantity))))"

lemma is_item_keeps: "is_item obj t x \<Longrightarrow> keeps obj obj' \<Longrightarrow> is_item obj' t x"
  by (cases x) (fastforce simp: is_item_def keeps_def intro: is_string_keeps [unfolded keeps_def])

lemma CreateItem_ok:
  assumes ok: "builder_ok rt g" and run: "CreateItem rt p quantity q f = (t, f')"
    and str: "is_string (fb_obj g f) p sku" "is_string (fb_obj g f) q aisle"
  shows "is_item (fb_obj g f') t (sku, quantity, aisle) \<and> keeps (fb_obj g f) (fb_obj g f')"
proof -
  obtain start f0 where s: "StartTable rt f = (start, f0)" by (metis surj_pair)
  let ?f = "item_add_sku rt p (item_add_quantity rt quantity (item_add_aisle rt q f0))"
  have e: "EndTable rt start ?f = (t, f')"
    using run s by (simp add: CreateItem_def item_builder_def item_finish_def)
  note add = builder_okD(4,5) [OF ok] builder_okD(3) [OF ok s]
  have o: "fb_obj g ?f = fb_obj g f"
    by (simp add: item_add_sku_def item_add_quantity_def item_add_aisle_def add)
  have tab: "fb_open g ?f ITEM_VT_SKU = offset_field p" "fb_open g ?f ITEM_VT_AISLE = offset_field q"
    "fb_open g ?f ITEM_VT_QUANTITY = (if quantity = 0 then None else Some (F32 quantity))"
    by (simp_all add: item_add_sku_def item_add_quantity_def item_add_aisle_def add store_field_def
        item_vt offset_field_def)
  from builder_okD(7) [OF ok e] have n: "t \<noteq> 0" "fb_obj g f t = None"
    "fb_obj g f' = (fb_obj g f)(t \<mapsto> FTable (fb_open g ?f))" by (simp_all add: o)
  then have k: "keeps (fb_obj g f) (fb_obj g f')" by (simp add: keeps_update)
  have "fb_obj g f' t = Some (FTable (fb_open g ?f))" using n(3) by simp
  with n(1) tab k is_string_keeps [OF str(1) k] is_string_keeps [OF str(2) k] show ?thesis
    unfolding is_item_def prod.case by blast
qed

lemma CreateItemDirect_ok:
  assumes ok: "builder_ok rt g" and run: "CreateItemDirect rt sku quantity aisle f = (t, f')"
  shows "is_item (fb_obj g f') t (seen_item (sku, quantity, aisle)) \<and> keeps (fb_obj g f) (fb_obj g f')"
proof -
  obtain p f1 where 1: "create_string_opt rt sku f = (p, f1)" by (metis surj_pair)
  obtain q f2 where 2: "create_string_opt rt aisle f1 = (q, f2)" by (metis surj_pair)
  from run 1 2 have c: "CreateItem rt p quantity q f2 = (t, f')" by (simp add: CreateItemDirect_def)
  from create_string_opt_ok [OF ok 1] create_string_opt_ok [OF ok 2]
  have "is_string (fb_obj g f2) p (map_option c_string sku)" "is_string (fb_obj g f2) q (map_option c_string aisle)" "keeps (fb_obj g f) (fb_obj g f2)"
    by (auto intro: is_string_keeps keeps_trans)
  with CreateItem_ok [OF ok c] show ?thesis by (auto simp: seen_item_def intro: keeps_trans)
qed

lemma create_items_ok:
  assumes "builder_ok rt g"
  shows "create_items rt items f = (ts, f') \<Longrightarrow>
    list_all2 (is_item (fb_obj g f')) ts (map seen_item items) \<and> keeps (fb_obj g f) (fb_obj g f')"
proof (induction items arbitrary: f ts)
  case (Cons x items)
  obtain sku quantity aisle where x: "x = (sku, quantity, aisle)" by (cases x)
  obtain t f1 where 1: "CreateItemDirect rt sku quantity aisle f = (t, f1)" by (metis surj_pair)
  obtain us f2 where 2: "create_items rt items f1 = (us, f2)" by (metis surj_pair)
  from Cons.prems x 1 2 have r: "ts = t # us" "f' = f2" by auto
  from Cons.IH [OF 2 [folded r(2)]] CreateItemDirect_ok [OF assms 1] x r show ?case
    by (auto intro: is_item_keeps keeps_trans)
qed auto

lemma reads_item:
  assumes r: "reads rt g obj buf" and i: "is_item obj t x"
  shows "item_read rt buf (fb_at g buf t) = Inr x"
proof -
  obtain sku quantity aisle where x: "x = (sku, quantity, aisle)" by (cases x)
  with i obtain tab p q where t: "obj t = Some (FTable tab)" "is_string obj p sku" "is_string obj q aisle"
    "tab ITEM_VT_SKU = offset_field p" "tab ITEM_VT_AISLE = offset_field q"
    "tab ITEM_VT_QUANTITY = (if quantity = 0 then None else Some (F32 quantity))"
    by (auto simp: is_item_def)
  have "item_quantity rt buf (fb_at g buf t) = Inr quantity"
    using readsD(5,6) [OF r t(1)] t(6) by (auto simp: item_quantity_def split: if_splits)
  with reads_read_opt [OF r t(1,2,4)] reads_read_opt [OF r t(1,3,5)] x show ?thesis
    by (auto simp: item_read_def item_sku_def item_aisle_def rbind_Inr_iff)
qed

lemma reads_items:
  "reads rt g obj buf \<Longrightarrow> list_all2 (is_item obj) ts items \<Longrightarrow>
     items_read rt buf (map (fb_at g buf) ts) = Inr items"
  by (induction ts arbitrary: items) (auto simp: list_all2_Cons1 reads_item)

text \<open>A finished order, whoever built it.\<close>

lemma reads_order:
  assumes r: "reads rt g obj buf" "GetRoot rt buf = Inr (fb_at g buf root)" "obj root = Some (FTable tab)"
    and s: "is_string obj p order_id" "is_string obj q order_type" "list_all2 (is_item obj) ts items"
    and v: "obj v = Some (FVector ts)"
    and tab: "tab ORDER_VT_ORDER_ID = offset_field p" "tab ORDER_VT_ORDER_TYPE = offset_field q"
      "tab ORDER_VT_ITEMS = Some (FOffset v)"
  shows "order_read rt buf = Inr (order_id, order_type, Some items)"
  using readsD(2) [OF r(1) v] reads_items [OF r(1) s(3)] readsD(4) [OF r(1,3) tab(3)]
    reads_read_opt [OF r(1,3) s(1) tab(1)] reads_read_opt [OF r(1,3) s(2) tab(2)] r(2)
  by (auto simp: order_read_def GetOrderBroadcast_def order_order_id_def order_order_type_def
      order_items_def rbind_Inr_iff)

lemma order_read_send:
  assumes "builder_ok rt g" "finish_ok rt g"
  shows "order_read rt (send_order rt order_id order_type items f) =
    Inr (map_option c_string order_id, map_option c_string order_type, Some (map seen_item items))"
proof -
  obtain ts f1 where 1: "create_items rt items f = (ts, f1)" by (metis surj_pair)
  obtain p f2 where 2: "create_string_opt rt order_id f1 = (p, f2)" by (metis surj_pair)
  obtain q f3 where 3: "create_string_opt rt order_type f2 = (q, f3)" by (metis surj_pair)
  obtain v f4 where 4: "CreateVector rt ts f3 = (v, f4)" by (metis surj_pair)
  obtain start f5 where 5: "StartTable rt f4 = (start, f5)" by (metis surj_pair)
  let ?f = "order_add_order_id rt p (order_add_order_type rt q (order_add_items rt v f5))"
  obtain root f6 where 6: "EndTable rt start ?f = (root, f6)" by (metis surj_pair)
  let ?buf = "GetBuffer rt (FinishRoot rt root f6)"
  have send: "send_order rt order_id order_type items f = ?buf"
    using 1 2 3 4 5 6
    by (simp add: send_order_def CreateOrderBroadcastDirect_def create_items_opt_def CreateOrderBroadcast_def
        order_builder_def order_finish_def FinishOrderBroadcastBuffer_def)
  note add = builder_okD(4) [OF assms(1)] builder_okD(3) [OF assms(1) 5]
  have o5: "fb_obj g ?f = fb_obj g f4"
    by (simp add: order_add_order_id_def order_add_order_type_def order_add_items_def add)
  from builder_okD(2) [OF assms(1) 4]
  have v: "v \<noteq> 0" "fb_obj g f4 v = Some (FVector ts)" "keeps (fb_obj g f3) (fb_obj g f4)"
    by (auto simp: keeps_update)
  from builder_okD(7) [OF assms(1) 6]
  have root: "fb_obj g f6 root = Some (FTable (fb_open g ?f))" "keeps (fb_obj g f4) (fb_obj g f6)"
    by (auto simp: o5 keeps_update)
  have tab: "fb_open g ?f ORDER_VT_ORDER_ID = offset_field p" "fb_open g ?f ORDER_VT_ORDER_TYPE = offset_field q"
    "fb_open g ?f ORDER_VT_ITEMS = Some (FOffset v)"
    using v(1) by (simp_all add: order_add_order_id_def order_add_order_type_def order_add_items_def add
        store_field_def order_vt offset_field_def)
  from create_items_ok [OF assms(1) 1] create_string_opt_ok [OF assms(1) 2] create_string_opt_ok [OF assms(1) 3]
  have s: "is_string (fb_obj g f6) p (map_option c_string order_id)"
    "is_string (fb_obj g f6) q (map_option c_string order_type)"
    "list_all2 (is_item (fb_obj g f6)) ts (map seen_item items)"
    using v(3) root(2) by (auto intro: is_string_keeps is_item_keeps keeps_trans elim!: list.rel_mono_strong)
  have rd: "reads rt g (fb_obj g f6) ?buf" "GetRoot rt ?buf = Inr (fb_at g ?buf root)"
    using assms(2) by (auto simp: finish_ok_def Let_def)
  have "fb_obj g f6 v = Some (FVector ts)" using v(2) root(2) by (simp add: keeps_def)
  from reads_order [OF rd root(1) s this tab] show ?thesis unfolding send .
qed

text \<open>
  C21. A broadcast reads back as it was built: whatever the identifier, the type and the items (skus,
  quantities and aisles, each possibly null) given to \<open>CreateItemDirect\<close> and
  \<open>CreateOrderBroadcastDirect\<close>, every accessor on the finished buffer gives the value that was passed,
  in order; leaving out default values is not visible (a string stops at its first NUL).
\<close>

theorem order_roundtrip:
  assumes "builder_ok rt g" "finish_ok rt g"
  shows "order_read rt (send_order rt order_id order_type items f) =
    Inr (map_option c_string order_id, map_option c_string order_type, Some (map seen_item items))"
  by (rule order_read_send [OF assms])

text \<open>Both theorems on the runtime over lists: an order with a zero quantity and a null aisle.\<close>

definition plain_runtime :: "(lb_object list \<times> nat, unit, list_builder) fb_runtime" where
  "plain_runtime = list_runtime (\<lambda>b. b) (\<lambda>f. (lb_objs f, lb_root f))"

theorem order_roundtrip_witness:
  "order_read plain_runtime (send_order plain_runtime (Some ''o1'') (Some ''CUSTOMER'')
      [(Some ''milk'', 0, Some ''dairy''), (Some ''rice'', 2, None)] lb_start)
   = Inr (Some ''o1'', Some ''CUSTOMER'', Some [(Some ''milk'', 0, Some ''dairy''), (Some ''rice'', 2, None)])"
  unfolding plain_runtime_def
  by (subst order_roundtrip [OF list_builder_ok list_finish_ok])
    (simp_all add: c_string_def seen_item_def)

theorem verified_order_readable_witness:
  "\<exists>c. order_read plain_runtime ([LTable []], 1) = Inr c"
proof -
  have "accepts (VerifyOrderBroadcastBuffer plain_runtime ([LTable []], 1))"
    by (simp add: accepts_def VerifyOrderBroadcastBuffer_def order_verify_def plain_runtime_def list_runtime_def
        vand_def order_order_id_def order_order_type_def order_items_def ob_pointer_def ob_field_def objs_map_def
        bnd_def)
  then show ?thesis
    unfolding plain_runtime_def by (intro verified_order_readable list_verifier_ok)
qed

end
