(* ===== verification/Dictionary.thy ===== *)
theory Dictionary
  imports Prelude "HOL-Library.Char_ord" "HOL-Library.List_Lexorder"
begin

text \<open>
  Maps of the programs: the contract of an insert-or-assign map, what a sequence of assignments
  leaves in it, and \<open>std::map\<close> with string keys, kept as the list of its entries in the order of the
  keys (the order in which the program iterates over it).
\<close>

locale dictionary =
  fixes get :: "'m \<Rightarrow> 'k \<Rightarrow> 'v option"
    and put :: "'k \<Rightarrow> 'v \<Rightarrow> 'm \<Rightarrow> 'm"
    and nil :: 'm
  assumes get_nil: "get nil k = None"
    and get_put: "get (put k v m) k' = (if k' = k then Some v else get m k')"
begin

text \<open>After a sequence of assignments a key has its last value.\<close>

lemma get_fold_put:
  "get (fold (\<lambda>(k, v). put k v) kvs m) k' =
     (case map_of (rev kvs) k' of None \<Rightarrow> get m k' | Some v \<Rightarrow> Some v)"
proof (induction kvs arbitrary: m)
  case (Cons kv kvs)
  obtain k v where "kv = (k, v)" by (cases kv)
  with Cons show ?case
    by (auto simp: get_put map_add_def split: option.splits)
qed simp

lemma get_build: "get (fold (\<lambda>(k, v). put k v) kvs nil) k = map_of (rev kvs) k"
  by (simp add: get_fold_put get_nil split: option.splits)

lemma get_fold_put_distinct:
  "distinct (map fst kvs) \<Longrightarrow> get (fold (\<lambda>(k, v). put k v) kvs nil) k = map_of kvs k"
proof -
  assume d: "distinct (map fst kvs)"
  then have "map_of (rev kvs) = map_of kvs"
    by (subst map_of_inject_set) (simp_all add: rev_map [symmetric])
  then show ?thesis by (simp add: get_build)
qed

end

section \<open>\<open>std::map\<close>\<close>

type_synonym ('k, 'v) std_map = "('k \<times> 'v) list"

fun map_insert :: "'k::linorder \<Rightarrow> 'v \<Rightarrow> ('k, 'v) std_map \<Rightarrow> ('k, 'v) std_map" where
  "map_insert k v [] = [(k, v)]"
| "map_insert k v ((k', v') # m) =
     (if k = k' then (k, v) # m else if k < k' then (k, v) # (k', v') # m else (k', v') # map_insert k v m)"

lemma map_of_map_insert: "map_of (map_insert k v m) k' = (if k' = k then Some v else map_of m k')"
  by (induction m) auto

interpretation std_map: dictionary map_of map_insert "[]"
  by unfold_locales (simp_all add: map_of_map_insert)

text \<open>The map of a protobuf message, \<open>(*m)[k] = v\<close>, which has no order.\<close>

definition proto_put :: "'k \<Rightarrow> 'v \<Rightarrow> ('k \<rightharpoonup> 'v) \<Rightarrow> ('k \<rightharpoonup> 'v)" where
  "proto_put k v m = m(k \<mapsto> v)"

interpretation proto_map: dictionary "\<lambda>m. m" proto_put Map.empty
  by unfold_locales (auto simp: proto_put_def)

text \<open>Its keys stay strictly sorted.\<close>

definition std_map_ok :: "('k::linorder, 'v) std_map \<Rightarrow> bool" where
  "std_map_ok m \<longleftrightarrow> sorted_wrt (<) (map fst m)"

lemma set_map_insert: "set (map fst (map_insert k v m)) = insert k (set (map fst m))"
  by (induction k v m rule: map_insert.induct) (simp_all add: insert_commute)

lemma std_map_ok_insert: "std_map_ok m \<Longrightarrow> std_map_ok (map_insert k v m)"
proof (induction m)
  case (Cons x m)
  obtain k' v' where x: "x = (k', v')" by (cases x)
  from Cons.prems x have m: "std_map_ok m" "\<forall>y \<in> set (map fst m). k' < y"
    by (auto simp: std_map_ok_def)
  consider "k = k'" | "k < k'" | "k' < k" by fastforce
  then show ?case
  proof cases
    case 3
    then have "map_insert k v (x # m) = (k', v') # map_insert k v m" using x by auto
    with Cons.IH [OF m(1)] m(2) 3 show ?thesis
      by (simp add: std_map_ok_def set_map_insert [of k v m] del: set_map)
  qed (use m x in \<open>auto simp: std_map_ok_def\<close>)
qed (simp add: std_map_ok_def)

lemma std_map_ok_fold: "std_map_ok m \<Longrightarrow> std_map_ok (fold (\<lambda>(k, v). map_insert k v) kvs m)"
  by (induction kvs arbitrary: m) (auto simp: std_map_ok_insert)

lemma std_map_distinct: "std_map_ok m \<Longrightarrow> distinct (map fst m)"
  by (auto simp: std_map_ok_def strict_sorted_iff)

end
