(* ===== verification/RobotWorker.thy ===== *)
theory RobotWorker
  imports Programs OrderFbs Dictionary
begin

text \<open>
  The robot (\<open>robots/internal/bot/main.cpp\<close>): it subscribes to the order broadcasts, picks the items of
  its own aisle, five seconds each, and reports every order to the inventory service. The request of
  the generated protobuf code is a record whose \<open>processed_items\<close> is a map; the gRPC call is a
  parameter. Leaving \<open>Run\<close> by an exception ends the process, since \<open>main\<close> catches none.
\<close>

section \<open>The report\<close>

record report_request =
  rq_order_id :: string
  rq_order_type :: string
  rq_status :: string
  rq_processed_items :: "string \<rightharpoonup> 32 word"

definition empty_request :: report_request where
  "empty_request = \<lparr>rq_order_id = [], rq_order_type = [], rq_status = [], rq_processed_items = Map.empty\<rparr>"

record rpc_status =
  st_ok :: bool
  st_code :: int
  st_message :: string

text \<open>
  The environment of the robot: libzmq, the FlatBuffers runtime, and \<open>ReportJobStatus\<close> of a stub whose
  channel goes to an address.
\<close>

record ('m, 'w, 'v, 'f) robot_env =
  re_api :: "('m, 'w) sock_api"
  re_rt :: "(byte list, 'v, 'f) fb_runtime"
  re_rpc :: "string \<Rightarrow> report_request \<Rightarrow> 'w \<Rightarrow> rpc_status \<times> 'w"

type_synonym ('w, 'a) robot_prog = "(report_request, 'w, 'a) prog"

record robot_worker =
  stub :: string
  aisle_type :: string
  zmq_sub_addr :: string

definition RobotWorker_ctor :: "string \<Rightarrow> string \<Rightarrow> string \<Rightarrow> robot_worker" where
  "RobotWorker_ctor channel aisle zmqSubAddr = \<lparr>stub = channel, aisle_type = aisle, zmq_sub_addr = zmqSubAddr\<rparr>"

definition show_i32 :: "32 word \<Rightarrow> string" where
  "show_i32 q = show_int (sint q)"

text \<open>The loop over the items, in the order of the keys.\<close>

fun report_items ::
  "(string, 32 word) std_map \<Rightarrow> report_request \<Rightarrow> ('w, report_request) robot_prog" where
  "report_items [] request = ret request"
| "report_items ((sku, qty) # items) request =
     (let request = request\<lparr>rq_processed_items := proto_put sku qty (rq_processed_items request)\<rparr> in
      bnd (emit (Out (''[robot] report item sku='' @ sku @ '' qty='' @ show_i32 qty))) (\<lambda>_.
      report_items items request))"

definition ReportToInventory ::
  "('m, 'w, 'v, 'f) robot_env \<Rightarrow> robot_worker \<Rightarrow> string \<Rightarrow> string \<Rightarrow> bool \<Rightarrow> (string, 32 word) std_map
     \<Rightarrow> ('w, unit) robot_prog" where
  "ReportToInventory env robot order_id order_type worked items =
     (let request = empty_request\<lparr>rq_order_id := order_id, rq_order_type := order_type,
                                  rq_status := if worked then ''SUCCESS'' else ''NO_OP''\<rparr> in
      bnd (emit (Out (''[robot] reporting status order='' @ order_id @ '' type='' @ order_type
             @ '' status='' @ rq_status request))) (\<lambda>_.
      bnd (report_items items request) (\<lambda>request.
      bnd (emit (Rpc request)) (\<lambda>_.
      bnd (on_lib (call (re_rpc env (stub robot) request))) (\<lambda>status.
      if st_ok status then
        bnd (emit (Out (''Reported status for Order: '' @ order_id @ '' ('' @ rq_status request @ '')''))) (\<lambda>_.
        emit (Out (''[robot] grpc report success order='' @ order_id)))
      else
        bnd (emit (Err (''gRPC failed: '' @ st_message status))) (\<lambda>_.
        emit (Err (''[robot] grpc report failed order='' @ order_id @ '' code='' @ show_int (st_code status)
               @ '' message='' @ st_message status))))))))"

section \<open>One broadcast\<close>

text \<open>\<open>item->sku()->str()\<close> and the like, each as often as the code calls it.\<close>

definition item_sku_str :: "('m, 'w, 'v, 'f) robot_env \<Rightarrow> byte list \<Rightarrow> nat \<Rightarrow> string res" where
  "item_sku_str env buf t = rbind (item_sku (re_rt env) buf t) (string_of_ptr (re_rt env) buf)"

definition item_aisle_str :: "('m, 'w, 'v, 'f) robot_env \<Rightarrow> byte list \<Rightarrow> nat \<Rightarrow> string res" where
  "item_aisle_str env buf t = rbind (item_aisle (re_rt env) buf t) (string_of_ptr (re_rt env) buf)"

fun work_items ::
  "('m, 'w, 'v, 'f) robot_env \<Rightarrow> robot_worker \<Rightarrow> byte list \<Rightarrow> string \<Rightarrow> nat list
     \<Rightarrow> bool \<Rightarrow> (string, 32 word) std_map \<Rightarrow> ('w, bool \<times> (string, 32 word) std_map) robot_prog" where
  "work_items env robot buf order_id [] found_work processed_items = ret (found_work, processed_items)"
| "work_items env robot buf order_id (item # items) found_work processed_items =
     bnd (lift_res (item_sku_str env buf item)) (\<lambda>sku.
     bnd (lift_res (item_aisle_str env buf item)) (\<lambda>aisle.
     bnd (lift_res (item_quantity (re_rt env) buf item)) (\<lambda>quantity.
     bnd (emit (Out (''[robot] candidate item sku='' @ sku @ '' aisle='' @ aisle @ '' qty='' @ show_i32 quantity))) (\<lambda>_.
     if aisle = aisle_type robot then
       bnd (emit (Out (''Picking '' @ show_i32 quantity @ ''x '' @ sku))) (\<lambda>_.
       let processed_items = map_insert sku quantity processed_items in
       bnd (emit (Out (''[robot] start work sleep sku='' @ sku @ '' order='' @ order_id))) (\<lambda>_.
       bnd (emit (Sleep 5000)) (\<lambda>_.
       bnd (emit (Out (''[robot] finished work sku='' @ sku @ '' order='' @ order_id))) (\<lambda>_.
       work_items env robot buf order_id items True processed_items))))
     else work_items env robot buf order_id items found_work processed_items))))"

definition handle_broadcast ::
  "('m, 'w, 'v, 'f) robot_env \<Rightarrow> robot_worker \<Rightarrow> byte list \<Rightarrow> ('w, unit) robot_prog" where
  "handle_broadcast env robot buf =
     bnd (lift_res (GetOrderBroadcast (re_rt env) buf)) (\<lambda>broadcast.
     bnd (lift_res (rbind (order_order_type (re_rt env) buf broadcast) (string_of_ptr (re_rt env) buf))) (\<lambda>order_type.
     bnd (lift_res (rbind (order_order_id (re_rt env) buf broadcast) (string_of_ptr (re_rt env) buf))) (\<lambda>order_id.
     bnd (emit (Out (''Received '' @ order_type @ '' Job: '' @ order_id))) (\<lambda>_.
     bnd (emit (Out (''[robot] filtering items for aisle='' @ aisle_type robot))) (\<lambda>_.
     bnd (lift_res (rbind (order_items (re_rt env) buf broadcast)
            (\<lambda>p. rbind (deref p) (VectorTables (re_rt env) buf)))) (\<lambda>items.
     bnd (work_items env robot buf order_id items False []) (\<lambda>(found_work, processed_items).
     bnd (if \<not> found_work then
            emit (Out (''[robot] no matching aisle work for order='' @ order_id @ '' aisle='' @ aisle_type robot))
          else ret ()) (\<lambda>_.
     ReportToInventory env robot order_id order_type found_work processed_items))))))))"

text \<open>One iteration of the loop of \<open>Run\<close>.\<close>

definition robot_iter ::
  "('m, 'w, 'v, 'f) robot_env \<Rightarrow> robot_worker \<Rightarrow> socket_t \<Rightarrow> ('w, unit) robot_prog" where
  "robot_iter env robot subscriber =
     bnd (on_lib (recv_message (re_api env) subscriber)) (\<lambda>(res, msg).
     case res of
       None \<Rightarrow> emit (Out (''[robot] recv returned no message for aisle='' @ aisle_type robot))
     | Some _ \<Rightarrow>
         bnd (emit (Out (''[robot] raw broadcast received bytes='' @ show_nat (message_size (re_api env) msg)
                @ '' aisle='' @ aisle_type robot))) (\<lambda>_.
         handle_broadcast env robot (message_data (re_api env) msg)))"

text \<open>\<open>while (true)\<close>: it ends only by what an iteration throws.\<close>

partial_function (option) robot_loop ::
  "('m, 'w, 'v, 'f) robot_env \<Rightarrow> robot_worker \<Rightarrow> socket_t \<Rightarrow> report_request event list \<times> 'w
     \<Rightarrow> (exn \<times> report_request event list \<times> 'w) option" where
  "robot_loop env robot subscriber st =
     (case robot_iter env robot subscriber st of
        (Inl e, st') \<Rightarrow> Some (e, st')
      | (Inr _, st') \<Rightarrow> robot_loop env robot subscriber st')"

definition Run ::
  "('m, 'w, 'v, 'f) robot_env \<Rightarrow> robot_worker \<Rightarrow> report_request event list \<times> 'w
     \<Rightarrow> (exn \<times> report_request event list \<times> 'w) option" where
  "Run env robot st =
     (case on_lib (open_subscriber (re_api env) (zmq_sub_addr robot)) st of
        (Inl e, st') \<Rightarrow> Some (e, st')
      | (Inr (context, subscriber), (tr, w)) \<Rightarrow>
          robot_loop env robot subscriber
            (tr @ [Out (''[robot] connected SUB socket to '' @ zmq_sub_addr robot),
                   Out (''Robot started for aisle: '' @ aisle_type robot)], w))"

text \<open>
  \<open>main\<close>: the exit code, or the exception it ends with; \<open>None\<close> when it runs for ever. \<open>argv\<close> includes the
  program's name.
\<close>

definition robot_main ::
  "('m, 'w, 'v, 'f) robot_env \<Rightarrow> files \<Rightarrow> env \<Rightarrow> string list \<Rightarrow> report_request event list \<times> 'w
     \<Rightarrow> (int res \<times> report_request event list \<times> 'w) option" where
  "robot_main env fs e argv st =
     (if length argv < 2 then
        Some (Inr 1, (fst st @ [Err ''Usage: robot_exe <aisle_name>''], snd st))
      else
        (let aisle = argv ! 1;
             e = LoadDotEnv fs ''../.env'' e;
             e = LoadDotEnv fs ''robots/.env'' e;
             inventoryGrpcAddr = GetEnv e ''INVENTORY_GRPC_ADDR'' ''localhost:50051'';
             robotZmqSubAddr = GetEnv e ''ROBOT_ZMQ_SUB_ADDR'' ''tcp://localhost:5556'';
             robot = RobotWorker_ctor inventoryGrpcAddr aisle robotZmqSubAddr
         in case Run env robot st of
              None \<Rightarrow> None
            | Some (ex, st') \<Rightarrow> Some (Inl ex, st')))"

section \<open>What a robot reports\<close>

definition rpcs :: "'r event list \<Rightarrow> 'r list" where
  "rpcs tr = concat (map (\<lambda>ev. case ev of Rpc r \<Rightarrow> [r] | _ \<Rightarrow> []) tr)"

definition sleeps :: "'r event list \<Rightarrow> nat list" where
  "sleeps tr = concat (map (\<lambda>ev. case ev of Sleep n \<Rightarrow> [n] | _ \<Rightarrow> []) tr)"

lemma trace_simps [simp]:
  "rpcs [] = []" "rpcs (tr @ tr') = rpcs tr @ rpcs tr'"
  "rpcs (Out s # tr) = rpcs tr" "rpcs (Err s # tr) = rpcs tr" "rpcs (Sleep n # tr) = rpcs tr"
  "rpcs (Rpc r # tr) = r # rpcs tr"
  "sleeps [] = []" "sleeps (tr @ tr') = sleeps tr @ sleeps tr'"
  "sleeps (Out s # tr) = sleeps tr" "sleeps (Err s # tr) = sleeps tr" "sleeps (Sleep n # tr) = n # sleeps tr"
  "sleeps (Rpc r # tr) = sleeps tr"
  by (simp_all add: rpcs_def sleeps_def)

text \<open>
  An order without null fields: identifier, type, and items of a sku, a quantity and an aisle. What
  the robot of an aisle has to do with it, and the report it owes.
\<close>

type_synonym order = "string \<times> string \<times> (string \<times> 32 word \<times> string) list"

definition order_content :: "order \<Rightarrow> order_content" where
  "order_content = (\<lambda>(oid, ty, items). (Some oid, Some ty, Some (map (\<lambda>(s, q, a). (Some s, q, Some a)) items)))"

definition own_items :: "robot_worker \<Rightarrow> (string \<times> 32 word \<times> string) list \<Rightarrow> (string \<times> 32 word) list" where
  "own_items robot items = map (\<lambda>(s, q, a). (s, q)) (filter (\<lambda>(s, q, a). a = aisle_type robot) items)"

definition owed_report :: "robot_worker \<Rightarrow> order \<Rightarrow> report_request" where
  "owed_report robot = (\<lambda>(oid, ty, items).
     \<lparr>rq_order_id = oid, rq_order_type = ty,
      rq_status = if own_items robot items \<noteq> [] then ''SUCCESS'' else ''NO_OP'',
      rq_processed_items = map_of (rev (own_items robot items))\<rparr>)"

lemma own_items_simps [simp]:
  "own_items robot [] = []"
  "own_items robot ((s, q, a) # items) =
     (if a = aisle_type robot then (s, q) # own_items robot items else own_items robot items)"
  by (simp_all add: own_items_def)

lemma item_read_strings:
  assumes "item_read (re_rt env) buf t = Inr (sku, q, aisle)"
  shows "item_sku_str env buf t = (case sku of None \<Rightarrow> Inl (UB ''null'') | Some s \<Rightarrow> Inr s)"
    and "item_aisle_str env buf t = (case aisle of None \<Rightarrow> Inl (UB ''null'') | Some s \<Rightarrow> Inr s)"
    and "item_quantity (re_rt env) buf t = Inr q"
  using assms
  by (auto simp: item_read_def rbind_Inr_iff item_sku_str_def item_aisle_str_def dest!: read_opt_ptr)

lemma order_read_fields:
  assumes "order_read rt buf = Inr (oid, ty, items)"
  shows "\<exists>t. GetOrderBroadcast rt buf = Inr t
    \<and> rbind (order_order_id rt buf t) (string_of_ptr rt buf) = (case oid of None \<Rightarrow> Inl (UB ''null'') | Some s \<Rightarrow> Inr s)
    \<and> rbind (order_order_type rt buf t) (string_of_ptr rt buf) = (case ty of None \<Rightarrow> Inl (UB ''null'') | Some s \<Rightarrow> Inr s)
    \<and> (case items of None \<Rightarrow> rbind (order_items rt buf t) (\<lambda>p. rbind (deref p) (VectorTables rt buf)) = Inl (UB ''null'')
       | Some xs \<Rightarrow> \<exists>ts. rbind (order_items rt buf t) (\<lambda>p. rbind (deref p) (VectorTables rt buf)) = Inr ts
           \<and> items_read rt buf ts = Inr xs)"
proof -
  from assms obtain t p q v where f: "GetOrderBroadcast rt buf = Inr t"
    "order_order_id rt buf t = Inr p" "read_opt rt buf p = Inr oid"
    "order_order_type rt buf t = Inr q" "read_opt rt buf q = Inr ty" "order_items rt buf t = Inr v"
    "(case v of None \<Rightarrow> Inr None
      | Some p \<Rightarrow> rbind (VectorTables rt buf p) (\<lambda>ts. rbind (items_read rt buf ts) (\<lambda>xs. Inr (Some xs)))) = Inr items"
    by (auto simp: order_read_def rbind_Inr_iff)
  from f(7) have "case items of None \<Rightarrow> v = None
      | Some xs \<Rightarrow> \<exists>u ts. v = Some u \<and> VectorTables rt buf u = Inr ts \<and> items_read rt buf ts = Inr xs"
    by (auto simp: rbind_Inr_iff split: option.splits)
  with f(1,2,4,6) read_opt_ptr [OF f(3)] read_opt_ptr [OF f(5)] show ?thesis
    by (cases items) auto
qed

lemma work_items_complete:
  "items_read (re_rt env) buf ts = Inr (map (\<lambda>(s, q, a). (Some s, q, Some a)) items) \<Longrightarrow>
   \<exists>tr'. work_items env robot buf oid ts found m (tr, w) =
      (Inr (found \<or> own_items robot items \<noteq> [], fold (\<lambda>(k, v). map_insert k v) (own_items robot items) m),
       (tr @ tr', w))
    \<and> rpcs tr' = [] \<and> sleeps tr' = replicate (length (own_items robot items)) 5000"
proof (induction ts arbitrary: items found m tr)
  case (Cons t ts)
  then obtain s q a rest where i: "items = (s, q, a) # rest"
    "item_read (re_rt env) buf t = Inr (Some s, q, Some a)"
    "items_read (re_rt env) buf ts = Inr (map (\<lambda>(s, q, a). (Some s, q, Some a)) rest)"
    by (cases items) (auto simp: rbind_Inr_iff)
  note str = item_read_strings [OF i(2)]
  show ?case
  proof (cases "a = aisle_type robot")
    case True
    let ?pre = "[Out (''[robot] candidate item sku='' @ s @ '' aisle='' @ a @ '' qty='' @ show_i32 q),
      Out (''Picking '' @ show_i32 q @ ''x '' @ s), Out (''[robot] start work sleep sku='' @ s @ '' order='' @ oid),
      Sleep 5000, Out (''[robot] finished work sku='' @ s @ '' order='' @ oid)]"
    from Cons.IH [OF i(3), of True "map_insert s q m" "tr @ ?pre"] obtain tr' where
      "work_items env robot buf oid ts True (map_insert s q m) (tr @ ?pre, w) =
        (Inr (True, fold (\<lambda>(k, v). map_insert k v) (own_items robot rest) (map_insert s q m)), ((tr @ ?pre) @ tr', w))"
      "rpcs tr' = []" "sleeps tr' = replicate (length (own_items robot rest)) 5000" by auto
    with i(1) True str show ?thesis
      by (intro exI [of _ "?pre @ tr'"]) (simp add: bnd_def Let_def)
  next
    case False
    let ?pre = "[Out (''[robot] candidate item sku='' @ s @ '' aisle='' @ a @ '' qty='' @ show_i32 q)]"
    from Cons.IH [OF i(3), of found m "tr @ ?pre"] obtain tr' where
      "work_items env robot buf oid ts found m (tr @ ?pre, w) =
        (Inr (found \<or> own_items robot rest \<noteq> [], fold (\<lambda>(k, v). map_insert k v) (own_items robot rest) m),
         ((tr @ ?pre) @ tr', w))"
      "rpcs tr' = []" "sleeps tr' = replicate (length (own_items robot rest)) 5000" by blast
    with i(1) False str show ?thesis
      by (intro exI [of _ "?pre @ tr'"]) (simp add: bnd_def)
  qed
qed simp

lemma report_items_run:
  "\<exists>tr'. report_items items rq (tr, w) =
     (Inr (rq\<lparr>rq_processed_items := fold (\<lambda>(k, v). proto_put k v) items (rq_processed_items rq)\<rparr>), (tr @ tr', w))
   \<and> rpcs tr' = [] \<and> sleeps tr' = []"
proof (induction items arbitrary: rq tr)
  case (Cons x items)
  obtain k v where x: "x = (k, v)" by (cases x)
  let ?rq = "rq\<lparr>rq_processed_items := proto_put k v (rq_processed_items rq)\<rparr>"
  let ?ev = "Out (''[robot] report item sku='' @ k @ '' qty='' @ show_i32 v)"
  from Cons.IH [of ?rq "tr @ [?ev]"] obtain tr' where
    "report_items items ?rq (tr @ [?ev], w) =
      (Inr (?rq\<lparr>rq_processed_items := fold (\<lambda>(k, v). proto_put k v) items (rq_processed_items ?rq)\<rparr>),
       ((tr @ [?ev]) @ tr', w))" "rpcs tr' = []" "sleeps tr' = []" by blast
  with x show ?case by (intro exI [of _ "?ev # tr'"]) (simp add: bnd_def Let_def)
qed simp

lemma ReportToInventory_run:
  "\<exists>tr'. ReportToInventory env robot oid ty worked items (tr, w) =
     (Inr (), (tr @ tr', snd (re_rpc env (stub robot) rq w)))
   \<and> rpcs tr' = [rq] \<and> sleeps tr' = []"
  if "rq = \<lparr>rq_order_id = oid, rq_order_type = ty, rq_status = if worked then ''SUCCESS'' else ''NO_OP'',
      rq_processed_items = fold (\<lambda>(k, v). proto_put k v) items Map.empty\<rparr>"
proof -
  let ?rq = "empty_request\<lparr>rq_order_id := oid, rq_order_type := ty,
      rq_status := if worked then ''SUCCESS'' else ''NO_OP''\<rparr>"
  let ?ev = "Out (''[robot] reporting status order='' @ oid @ '' type='' @ ty @ '' status='' @ rq_status ?rq)"
  have rq: "?rq\<lparr>rq_processed_items := fold (\<lambda>(k, v). proto_put k v) items (rq_processed_items ?rq)\<rparr> = rq"
    by (simp add: that empty_request_def)
  obtain tr1 where r: "report_items items ?rq (tr @ [?ev], w) = (Inr rq, ((tr @ [?ev]) @ tr1, w))"
    "rpcs tr1 = []" "sleeps tr1 = []"
    using report_items_run [of items ?rq "tr @ [?ev]" w] unfolding rq by blast
  obtain st w' where c: "re_rpc env (stub robot) rq w = (st, w')" by (metis surj_pair)
  show ?thesis
  proof (cases "st_ok st")
    case True
    with r c show ?thesis
      by (intro exI [of _ "?ev # tr1 @ [Rpc rq, Out (''Reported status for Order: '' @ oid @ '' ('' @ rq_status rq @ '')''),
          Out (''[robot] grpc report success order='' @ oid)]"])
        (simp add: ReportToInventory_def bnd_def Let_def on_lib_def call_def)
  next
    case False
    with r c show ?thesis
      by (intro exI [of _ "?ev # tr1 @ [Rpc rq, Err (''gRPC failed: '' @ st_message st),
          Err (''[robot] grpc report failed order='' @ oid @ '' code='' @ show_int (st_code st)
               @ '' message='' @ st_message st)]"])
        (simp add: ReportToInventory_def bnd_def Let_def on_lib_def call_def)
  qed
qed

text \<open>The map of the request is the map of the work, whatever the order of the items.\<close>

lemma processed_items_map:
  "fold (\<lambda>(k, v). proto_put k v) (fold (\<lambda>(k, v). map_insert k v) kvs []) Map.empty = map_of (rev kvs)"
proof
  fix k
  let ?m = "fold (\<lambda>(k, v). map_insert k v) kvs []"
  have "distinct (map fst ?m)" by (intro std_map_distinct std_map_ok_fold) (simp add: std_map_ok_def)
  then have "fold (\<lambda>(k, v). proto_put k v) ?m Map.empty k = map_of ?m k"
    by (rule proto_map.get_fold_put_distinct)
  also have "\<dots> = map_of (rev kvs) k" by (rule std_map.get_build)
  finally show "fold (\<lambda>(k, v). proto_put k v) ?m Map.empty k = map_of (rev kvs) k" .
qed

lemma handle_broadcast_run:
  assumes "order_read (re_rt env) buf = Inr (order_content ord)"
  shows "\<exists>tr'. handle_broadcast env robot buf (tr, w) =
      (Inr (), (tr @ tr', snd (re_rpc env (stub robot) (owed_report robot ord) w)))
    \<and> rpcs tr' = [owed_report robot ord]
    \<and> sleeps tr' = replicate (length (own_items robot (snd (snd ord)))) 5000"
proof -
  obtain oid ty items where o: "ord = (oid, ty, items)" by (cases ord)
  with assms obtain t ts where f: "GetOrderBroadcast (re_rt env) buf = Inr t"
    "rbind (order_order_id (re_rt env) buf t) (string_of_ptr (re_rt env) buf) = Inr oid"
    "rbind (order_order_type (re_rt env) buf t) (string_of_ptr (re_rt env) buf) = Inr ty"
    "rbind (order_items (re_rt env) buf t) (\<lambda>p. rbind (deref p) (VectorTables (re_rt env) buf)) = Inr ts"
    "items_read (re_rt env) buf ts = Inr (map (\<lambda>(s, q, a). (Some s, q, Some a)) items)"
    using order_read_fields [of "re_rt env" buf] by (fastforce simp: order_content_def)
  let ?pre = "[Out (''Received '' @ ty @ '' Job: '' @ oid), Out (''[robot] filtering items for aisle='' @ aisle_type robot)]"
  let ?own = "own_items robot items"
  let ?m = "fold (\<lambda>(k, v). map_insert k v) ?own []"
  obtain tr1 where wk: "work_items env robot buf oid ts False [] (tr @ ?pre, w) =
      (Inr (?own \<noteq> [], ?m), ((tr @ ?pre) @ tr1, w))" "rpcs tr1 = []" "sleeps tr1 = replicate (length ?own) 5000"
    using work_items_complete [OF f(5), of robot oid False "[]" "tr @ ?pre" w] by auto
  let ?no = "if ?own = [] then [Out (''[robot] no matching aisle work for order='' @ oid @ '' aisle='' @ aisle_type robot)] else []"
  have rq: "owed_report robot ord = \<lparr>rq_order_id = oid, rq_order_type = ty,
      rq_status = if ?own \<noteq> [] then ''SUCCESS'' else ''NO_OP'',
      rq_processed_items = fold (\<lambda>(k, v). proto_put k v) ?m Map.empty\<rparr>"
    by (simp add: o owed_report_def processed_items_map)
  obtain tr2 where rp: "ReportToInventory env robot oid ty (?own \<noteq> []) ?m ((tr @ ?pre) @ tr1 @ ?no, w) =
      (Inr (), (((tr @ ?pre) @ tr1 @ ?no) @ tr2, snd (re_rpc env (stub robot) (owed_report robot ord) w)))"
    "rpcs tr2 = [owed_report robot ord]" "sleeps tr2 = []"
    using ReportToInventory_run [OF rq, of env robot "(tr @ ?pre) @ tr1 @ ?no" w] by blast
  have own: "own_items robot (snd (snd ord)) = ?own" by (simp add: o)
  have run: "handle_broadcast env robot buf (tr, w) =
      ReportToInventory env robot oid ty (?own \<noteq> []) ?m ((tr @ ?pre) @ tr1 @ ?no, w)"
    using f(1-4) wk(1) by (cases "?own = []") (simp_all add: handle_broadcast_def bnd_def)
  show ?thesis
    unfolding run own
    using rp wk(2,3) by (intro exI [of _ "?pre @ tr1 @ ?no @ tr2"]) simp
qed

section \<open>Null fields\<close>

lemma work_items_null:
  "items_read (re_rt env) buf ts = Inr xs \<Longrightarrow> \<not> (\<exists>items. xs = map (\<lambda>(s, q, a). (Some s, q, Some a)) items) \<Longrightarrow>
   \<exists>tr' msg. work_items env robot buf oid ts found m (tr, w) = (Inl (UB msg), (tr @ tr', w)) \<and> rpcs tr' = []"
proof (induction ts arbitrary: xs found m tr)
  case (Cons t ts)
  then obtain sku q aisle rest where x: "xs = (sku, q, aisle) # rest"
    "item_read (re_rt env) buf t = Inr (sku, q, aisle)" "items_read (re_rt env) buf ts = Inr rest"
    by (auto simp: rbind_Inr_iff)
  note str = item_read_strings [OF x(2)]
  consider "sku = None" | s where "sku = Some s" "aisle = None" | s a where "sku = Some s" "aisle = Some a"
    by (cases sku; cases aisle) auto
  then show ?case
  proof cases
    case 1
    with str show ?thesis by (intro exI [of _ "[]"] exI [of _ "''null''"]) (simp add: bnd_def)
  next
    case 2
    with str show ?thesis by (intro exI [of _ "[]"] exI [of _ "''null''"]) (simp add: bnd_def)
  next
    case (3 s a)
    have rest: "\<not> (\<exists>items. rest = map (\<lambda>(s, q, a). (Some s, q, Some a)) items)"
    proof
      assume "\<exists>items. rest = map (\<lambda>(s, q, a). (Some s, q, Some a)) items"
      then obtain items where "rest = map (\<lambda>(s, q, a). (Some s, q, Some a)) items" ..
      with x(1) 3 have "xs = map (\<lambda>(s, q, a). (Some s, q, Some a)) ((s, q, a) # items)" by simp
      with Cons.prems(2) show False by blast
    qed
    let ?c = "Out (''[robot] candidate item sku='' @ s @ '' aisle='' @ a @ '' qty='' @ show_i32 q)"
    let ?own = "[Out (''Picking '' @ show_i32 q @ ''x '' @ s), Out (''[robot] start work sleep sku='' @ s @ '' order='' @ oid),
      Sleep 5000, Out (''[robot] finished work sku='' @ s @ '' order='' @ oid)]"
    let ?pre = "?c # (if a = aisle_type robot then ?own else [])"
    let ?found = "if a = aisle_type robot then True else found"
    let ?m = "if a = aisle_type robot then map_insert s q m else m"
    from Cons.IH [OF x(3) rest, of ?found ?m "tr @ ?pre"] obtain tr' msg where
      "work_items env robot buf oid ts ?found ?m (tr @ ?pre, w) = (Inl (UB msg), ((tr @ ?pre) @ tr', w))" "rpcs tr' = []"
      by blast
    with 3 str show ?thesis
      by (intro exI [of _ "?pre @ tr'"] exI [of _ msg], cases "a = aisle_type robot") (simp_all add: bnd_def Let_def)
  qed
next
  case Nil
  then show ?case by simp
qed

lemma handle_broadcast_null:
  assumes "order_read (re_rt env) buf = Inr c" "\<not> (\<exists>ord. c = order_content ord)"
  shows "\<exists>tr' msg. handle_broadcast env robot buf (tr, w) = (Inl (UB msg), (tr @ tr', w)) \<and> rpcs tr' = []"
proof -
  obtain oid ty items where c: "c = (oid, ty, items)" by (cases c)
  from order_read_fields [OF assms(1) [unfolded c]] obtain t where f:
    "GetOrderBroadcast (re_rt env) buf = Inr t"
    "rbind (order_order_id (re_rt env) buf t) (string_of_ptr (re_rt env) buf) = (case oid of None \<Rightarrow> Inl (UB ''null'') | Some s \<Rightarrow> Inr s)"
    "rbind (order_order_type (re_rt env) buf t) (string_of_ptr (re_rt env) buf) = (case ty of None \<Rightarrow> Inl (UB ''null'') | Some s \<Rightarrow> Inr s)"
    "case items of None \<Rightarrow> rbind (order_items (re_rt env) buf t) (\<lambda>p. rbind (deref p) (VectorTables (re_rt env) buf)) = Inl (UB ''null'')
       | Some xs \<Rightarrow> \<exists>ts. rbind (order_items (re_rt env) buf t) (\<lambda>p. rbind (deref p) (VectorTables (re_rt env) buf)) = Inr ts
           \<and> items_read (re_rt env) buf ts = Inr xs" by blast
  show ?thesis
  proof (cases "ty = None \<or> oid = None")
    case True
    with f(1-3) show ?thesis
      by (intro exI [of _ "[]"] exI [of _ "''null''"]) (auto simp: handle_broadcast_def bnd_def split: option.splits)
  next
    case False
    then obtain i y where iy: "oid = Some i" "ty = Some y" by auto
    let ?pre = "[Out (''Received '' @ y @ '' Job: '' @ i), Out (''[robot] filtering items for aisle='' @ aisle_type robot)]"
    show ?thesis
    proof (cases items)
      case None
      with f iy show ?thesis by (intro exI [of _ ?pre] exI [of _ "''null''"]) (simp add: handle_broadcast_def bnd_def)
    next
      case (Some xs)
      with f(4) obtain ts where ts:
        "rbind (order_items (re_rt env) buf t) (\<lambda>p. rbind (deref p) (VectorTables (re_rt env) buf)) = Inr ts"
        "items_read (re_rt env) buf ts = Inr xs" by auto
      have "\<not> (\<exists>items. xs = map (\<lambda>(s, q, a). (Some s, q, Some a)) items)"
        using assms(2) c iy Some by (auto simp: order_content_def)
      from work_items_null [OF ts(2) this, of robot i False "[]" "tr @ ?pre" w] obtain tr' msg where
        "work_items env robot buf i ts False [] (tr @ ?pre, w) = (Inl (UB msg), ((tr @ ?pre) @ tr', w))" "rpcs tr' = []"
        by blast
      with f(1-3) iy ts(1) show ?thesis
        by (intro exI [of _ "?pre @ tr'"] exI [of _ msg]) (simp add: handle_broadcast_def bnd_def)
    qed
  qed
qed

text \<open>
  C19. What a robot does with a broadcast it can read. If no field is null, it makes exactly one report,
  with the order's identifier and type, status SUCCESS when at least one item is in its aisle and NO_OP
  otherwise, and for every sku of its aisle the quantity of the last item with that sku; it sleeps five
  seconds per item of its aisle, and it goes on whatever status the call returns. If any field is
  null (which a verified buffer may have), it dereferences a null pointer before reporting anything.
\<close>

theorem robot_handles_broadcast:
  assumes "order_read (re_rt env) buf = Inr c"
  shows "\<exists>tr' w' r. handle_broadcast env robot buf (tr, w) = (r, (tr @ tr', w'))
    \<and> (\<forall>ord. c = order_content ord \<longrightarrow> r = Inr () \<and> rpcs tr' = [owed_report robot ord]
         \<and> sleeps tr' = replicate (length (own_items robot (snd (snd ord)))) 5000)
    \<and> ((\<nexists>ord. c = order_content ord) \<longrightarrow> is_ub r \<and> rpcs tr' = [])"
proof (cases "\<exists>ord. c = order_content ord")
  case True
  then obtain ord where c: "c = order_content ord" ..
  have inj: "order_content a = order_content b \<Longrightarrow> a = b" for a b
  proof -
    have "inj (\<lambda>(s :: string, q :: 32 word, a :: string). (Some s, q, Some a))" by (auto simp: inj_def)
    then show "order_content a = order_content b \<Longrightarrow> a = b"
      by (auto simp: order_content_def inj_map_eq_map split: prod.splits)
  qed
  from handle_broadcast_run [OF assms [unfolded c], of robot tr w] inj c show ?thesis by blast
next
  case False
  with handle_broadcast_null [OF assms False, of robot tr w] show ?thesis by fastforce
qed

section \<open>The loop\<close>

fun robot_iters ::
  "('m, 'w, 'v, 'f) robot_env \<Rightarrow> robot_worker \<Rightarrow> socket_t \<Rightarrow> nat \<Rightarrow> ('w, unit) robot_prog" where
  "robot_iters env robot subscriber 0 = ret ()"
| "robot_iters env robot subscriber (Suc n) =
     bnd (robot_iter env robot subscriber) (\<lambda>_. robot_iters env robot subscriber n)"

lemma robot_loop_iters:
  "robot_iters env robot sub n st = (Inr (), st') \<Longrightarrow> robot_loop env robot sub st = robot_loop env robot sub st'"
proof (induction n arbitrary: st)
  case (Suc n)
  then obtain st1 where "robot_iter env robot sub st = (Inr (), st1)" "robot_iters env robot sub n st1 = (Inr (), st')"
    by (auto simp: bnd_Inr_iff)
  with Suc.IH show ?case by (subst robot_loop.simps) simp
qed simp

lemma robot_iter_run:
  assumes "inbound (re_api env) (sb_handle sub) inq" "msg_api_ok (re_api env)"
    and "order_read (re_rt env) bs = Inr (order_content ord)" "inq w = (bs, mo) # rest"
  shows "\<exists>tr' msg w1. recv_message (re_api env) sub w = (Inr (Some (length bs), msg), w1) \<and> inq w1 = rest
    \<and> robot_iter env robot sub (tr, w) = (Inr (), (tr @ tr', snd (re_rpc env (stub robot) (owed_report robot ord) w1)))
    \<and> rpcs tr' = [owed_report robot ord]"
proof -
  obtain msg w1 where r: "recv_message (re_api env) sub w = (Inr (Some (length bs), msg), w1)"
    "message_data (re_api env) msg = bs" "inq w1 = rest"
    using recv_message_queue [OF assms(1,2,4)] by blast
  let ?ev = "Out (''[robot] raw broadcast received bytes='' @ show_nat (message_size (re_api env) msg)
      @ '' aisle='' @ aisle_type robot)"
  obtain tr' where h: "handle_broadcast env robot bs (tr @ [?ev], w1) =
      (Inr (), ((tr @ [?ev]) @ tr', snd (re_rpc env (stub robot) (owed_report robot ord) w1)))"
    "rpcs tr' = [owed_report robot ord]"
    using handle_broadcast_run [OF assms(3), of robot "tr @ [?ev]" w1] by blast
  have "robot_iter env robot sub (tr, w) = handle_broadcast env robot bs (tr @ [?ev], w1)"
    using r(1,2) by (simp add: robot_iter_def bnd_def on_lib_def)
  with h r(1,3) show ?thesis by (intro exI [of _ "?ev # tr'"] exI [of _ msg] exI [of _ w1]) simp
qed

lemma robot_iter_message:
  assumes "inbound (re_api env) (sb_handle sub) inq" "msg_api_ok (re_api env)"
    and "\<And>r w. inq (snd (re_rpc env (stub robot) r w)) = inq w"
    and "order_read (re_rt env) bs = Inr (order_content ord)" "inq w = (bs, mo) # rest"
  shows "\<exists>tr' w'. robot_iter env robot sub (tr, w) = (Inr (), (tr @ tr', w')) \<and> inq w' = rest
    \<and> rpcs tr' = [owed_report robot ord]"
  using robot_iter_run [OF assms(1,2,4,5), of robot tr] assms(3) by fastforce

text \<open>An iteration that receives nothing prints a line and goes on.\<close>

lemma robot_iter_nothing:
  "recv_message (re_api env) sub w = (Inr (None, msg), w') \<Longrightarrow>
     robot_iter env robot sub (tr, w) =
       (Inr (), (tr @ [Out (''[robot] recv returned no message for aisle='' @ aisle_type robot)], w'))"
  by (simp add: robot_iter_def bnd_def on_lib_def)

lemma robot_iters_messages:
  assumes "inbound (re_api env) (sb_handle sub) inq" "msg_api_ok (re_api env)"
    and "\<And>r w. inq (snd (re_rpc env (stub robot) r w)) = inq w"
    and "\<And>bs ord. (bs, ord) \<in> set msgs \<Longrightarrow> order_read (re_rt env) bs = Inr (order_content ord)"
    and "inq w = map (\<lambda>(bs, ord). (bs, False)) msgs @ rest"
  shows "\<exists>tr' w'. robot_iters env robot sub (length msgs) (tr, w) = (Inr (), (tr @ tr', w'))
    \<and> inq w' = rest \<and> rpcs tr' = map (\<lambda>(bs, ord). owed_report robot ord) msgs
    \<and> robot_loop env robot sub (tr, w) = robot_loop env robot sub (tr @ tr', w')"
proof -
  have "\<exists>tr' w'. robot_iters env robot sub (length msgs) (tr, w) = (Inr (), (tr @ tr', w'))
    \<and> inq w' = rest \<and> rpcs tr' = map (\<lambda>(bs, ord). owed_report robot ord) msgs"
    using assms(4,5)
  proof (induction msgs arbitrary: tr w)
    case (Cons x msgs)
    obtain bs ord where x: "x = (bs, ord)" by (cases x)
    have rd: "order_read (re_rt env) bs = Inr (order_content ord)" using Cons.prems(1) x by simp
    have q: "inq w = (bs, False) # map (\<lambda>(bs, ord). (bs, False)) msgs @ rest" using Cons.prems(2) x by simp
    from robot_iter_message [OF assms(1-3) rd q, of tr] obtain tr1 w1 where
      1: "robot_iter env robot sub (tr, w) = (Inr (), (tr @ tr1, w1))"
      "inq w1 = map (\<lambda>(bs, ord). (bs, False)) msgs @ rest" "rpcs tr1 = [owed_report robot ord]" by blast
    from Cons.IH [OF _ 1(2), of "tr @ tr1"] Cons.prems(1) obtain tr2 w2 where
      "robot_iters env robot sub (length msgs) (tr @ tr1, w1) = (Inr (), ((tr @ tr1) @ tr2, w2))"
      "inq w2 = rest" "rpcs tr2 = map (\<lambda>(bs, ord). owed_report robot ord) msgs" by auto
    with 1 x show ?case by (intro exI [of _ "tr1 @ tr2"] exI [of _ w2]) (simp add: bnd_def)
  qed (intro exI [of _ "[]"], simp)
  then show ?thesis using robot_loop_iters by blast
qed

text \<open>
  One report per order. When readable orders without null fields wait in the subscriber's queue, as
  many iterations of the loop as there are orders return without an exception, leave the rest of the
  queue, and have made exactly one call per order, with the owed reports in the order of arrival,
  whether the calls succeed or fail; the loop of \<open>Run\<close> goes on from there.
\<close>

theorem robot_reports_each_order:
  assumes "inbound (re_api env) (sb_handle sub) inq" "msg_api_ok (re_api env)"
    and "\<And>r w. inq (snd (re_rpc env (stub robot) r w)) = inq w"
    and "\<And>bs ord. (bs, ord) \<in> set msgs \<Longrightarrow> order_read (re_rt env) bs = Inr (order_content ord)"
    and "inq w = map (\<lambda>(bs, ord). (bs, False)) msgs @ rest"
  shows "\<exists>tr' w'. robot_iters env robot sub (length msgs) (tr, w) = (Inr (), (tr @ tr', w'))
    \<and> inq w' = rest \<and> rpcs tr' = map (\<lambda>(bs, ord). owed_report robot ord) msgs
    \<and> robot_loop env robot sub (tr, w) = robot_loop env robot sub (tr @ tr', w')"
  by (rule robot_iters_messages [OF assms])

text \<open>
  Without an aisle argument \<open>main\<close> prints the usage, returns 1 and does nothing else; with one it never
  returns an exit code (the \<open>return 0\<close> is unreachable): it runs for ever or ends with an exception.
\<close>

lemma robot_main_exit:
  "case robot_main env fs e argv (tr, w) of
     None \<Rightarrow> 2 \<le> length argv
   | Some (Inr code, (tr', w')) \<Rightarrow>
       length argv < 2 \<and> code = 1 \<and> tr' = tr @ [Err ''Usage: robot_exe <aisle_name>''] \<and> w' = w
   | Some (Inl ex, _) \<Rightarrow> 2 \<le> length argv"
  by (auto simp: robot_main_def Let_def split: option.splits)

definition exits :: "(exn \<times> 's) option \<Rightarrow> (int res \<times> 's) option" where
  "exits r = map_option (\<lambda>(ex, st). (Inl ex, st)) r"

text \<open>
  C18. The robot's process as a whole. Without an aisle argument it prints the usage, returns 1 and does
  nothing else. Started with an aisle, it takes its addresses from the process environment, then from
  ../.env, then from robots/.env, then the defaults; once subscribed it reports every order that arrives,
  one call per order to the configured inventory address with what that aisle owes, and goes on in its
  loop: it never returns an exit code.
\<close>

theorem robot_main_reports:
  assumes "re_api env = api" "e' = LoadDotEnv fs ''robots/.env'' (LoadDotEnv fs ''../.env'' e)"
    and "robot = RobotWorker_ctor (GetEnv e' ''INVENTORY_GRPC_ADDR'' ''localhost:50051'') (argv ! 1)
           (GetEnv e' ''ROBOT_ZMQ_SUB_ADDR'' ''tcp://localhost:5556'')"
    and "open_subscriber api (zmq_sub_addr robot) w = (Inr (ctx, sub), w1)"
    and "inbound api (sb_handle sub) inq" "msg_api_ok api"
    and "\<And>r w. inq (snd (re_rpc env (stub robot) r w)) = inq w"
    and "\<And>bs ord. (bs, ord) \<in> set msgs \<Longrightarrow> order_read (re_rt env) bs = Inr (order_content ord)"
    and "inq w1 = map (\<lambda>(bs, ord). (bs, False)) msgs @ rest"
  shows "if length argv < 2
    then robot_main env fs e argv (tr, w) = Some (Inr 1, (tr @ [Err ''Usage: robot_exe <aisle_name>''], w))
    else \<exists>tr' w'. robot_main env fs e argv (tr, w) = exits (robot_loop env robot sub (tr @ tr', w'))
      \<and> inq w' = rest \<and> rpcs tr' = map (\<lambda>(bs, ord). owed_report robot ord) msgs"
proof (cases "length argv < 2")
  case False
  let ?start = "[Out (''[robot] connected SUB socket to '' @ zmq_sub_addr robot),
    Out (''Robot started for aisle: '' @ aisle_type robot)]"
  have t: "inbound (re_api env) (sb_handle sub) inq" "msg_api_ok (re_api env)" using assms(1,5,6) by simp_all
  from robot_iters_messages [OF t assms(7,8,9), of "tr @ ?start"] obtain tr' w' where
    l: "robot_loop env robot sub (tr @ ?start, w1) = robot_loop env robot sub (tr @ ?start @ tr', w')"
    "inq w' = rest" "rpcs tr' = map (\<lambda>(bs, ord). owed_report robot ord) msgs" by auto
  have "Run env robot (tr, w) = robot_loop env robot sub (tr @ ?start, w1)"
    using assms(1,4) by (simp add: Run_def on_lib_def)
  then have "robot_main env fs e argv (tr, w) = exits (robot_loop env robot sub (tr @ ?start, w1))"
    using False assms(2,3) by (simp add: robot_main_def exits_def Let_def split: option.splits)
  with l False show ?thesis by (intro if_not_P [THEN iffD2] exI [of _ "?start @ tr'"] exI [of _ w']) auto
qed (simp add: robot_main_def)

section \<open>An example\<close>

text \<open>
  A robot whose runtime reads the message [1] as an order of two items, and every other message as one
  with a null type; its calls fail.
\<close>

definition demo_objs :: "lb_object list" where
  "demo_objs = [LString ''o1'', LString ''CUSTOMER'', LString ''milk'', LString ''dairy'', LString ''meat'',
     LTable [(4, FOffset 3), (6, F32 2), (8, FOffset 4)], LTable [(4, FOffset 3), (8, FOffset 5)],
     LVector [6, 7], LTable [(4, FOffset 1), (6, FOffset 2), (8, FOffset 8)]]"

definition demo_view :: "byte list \<Rightarrow> lb_object list \<times> nat" where
  "demo_view bs = (if bs = [1] then (demo_objs, 9) else (demo_objs @ [LTable [(4, FOffset 1), (8, FOffset 8)]], 10))"

definition demo_env :: "(lmsg, lib_state, unit, list_builder) robot_env" where
  "demo_env = \<lparr>re_api = list_sock_api, re_rt = list_runtime demo_view (\<lambda>_. []),
     re_rpc = (\<lambda>addr rq w. (\<lparr>st_ok = False, st_code = 14, st_message = ''unavailable''\<rparr>, w))\<rparr>"

definition demo_robot :: robot_worker where
  "demo_robot = RobotWorker_ctor ''localhost:50051'' ''dairy'' ''tcp://localhost:5556''"

definition demo_order :: order where
  "demo_order = (''o1'', ''CUSTOMER'', [(''milk'', 2, ''dairy''), (''milk'', 0, ''meat'')])"

lemmas demo_simps = demo_env_def list_runtime_def demo_view_def demo_objs_def ob_pointer_def ob_field_def
  ob_string_def ob_vector_def ob_f32_def objs_map_def

lemma demo_order_read: "order_read (re_rt demo_env) [1] = Inr (order_content demo_order)"
  by (simp add: demo_simps order_read_def GetOrderBroadcast_def order_order_id_def order_order_type_def
      order_items_def order_vt read_opt_def item_read_def item_sku_def item_aisle_def item_quantity_def item_vt
      order_content_def demo_order_def)

theorem robot_handles_broadcast_witness:
  "\<exists>tr'. handle_broadcast demo_env demo_robot [1] ([], lib_start) = (Inr (), (tr', lib_start))
     \<and> rpcs tr' = [owed_report demo_robot demo_order] \<and> sleeps tr' = [5000]"
proof -
  have own: "length (own_items demo_robot (snd (snd demo_order))) = 1"
    by (simp add: demo_order_def demo_robot_def RobotWorker_ctor_def)
  obtain tr' w' r where run: "handle_broadcast demo_env demo_robot [1] ([], lib_start) = (r, ([] @ tr', w'))"
    and "\<forall>ord. order_content demo_order = order_content ord \<longrightarrow> r = Inr ()
      \<and> rpcs tr' = [owed_report demo_robot ord]
      \<and> sleeps tr' = replicate (length (own_items demo_robot (snd (snd ord)))) 5000"
    using robot_handles_broadcast [OF demo_order_read, of demo_robot "[]" lib_start] by blast
  then have "r = Inr ()" "rpcs tr' = [owed_report demo_robot demo_order]"
    "sleeps tr' = replicate (length (own_items demo_robot (snd (snd demo_order)))) 5000" by blast+
  with run own have "handle_broadcast demo_env demo_robot [1] ([], lib_start) = (Inr (), (tr', w'))"
    "rpcs tr' = [owed_report demo_robot demo_order]" "sleeps tr' = [5000]" by simp_all
  moreover from handle_broadcast_run [OF demo_order_read, of demo_robot "[]" lib_start] this(1)
  have "w' = lib_start" by (auto simp: demo_env_def)
  ultimately show ?thesis by blast
qed

theorem robot_reports_each_order_witness:
  "\<exists>tr' w'. robot_iters demo_env demo_robot \<lparr>sb_handle = 1, sb_ctxptr = 1\<rparr> 2
       ([], lib_start\<lparr>lib_in := [([1], False), ([1], False)]\<rparr>) = (Inr (), (tr', w'))
     \<and> lib_in w' = [] \<and> rpcs tr' = [owed_report demo_robot demo_order, owed_report demo_robot demo_order]"
proof -
  let ?s = "\<lparr>sb_handle = 1, sb_ctxptr = 1\<rparr> :: socket_t"
  have api: "re_api demo_env = list_sock_api" by (simp add: demo_env_def)
  have a: "inbound (re_api demo_env) (sb_handle ?s) lib_in" "msg_api_ok (re_api demo_env)"
    unfolding api by (rule list_inbound, rule list_sock_msg_ok)
  have rpc: "\<And>r w. lib_in (snd (re_rpc demo_env (stub demo_robot) r w)) = lib_in w" by (simp add: demo_env_def)
  from robot_reports_each_order [OF a rpc, of "[([1], demo_order), ([1], demo_order)]"
      "lib_start\<lparr>lib_in := [([1], False), ([1], False)]\<rparr>" "[]" "[]"]
  show ?thesis by (auto simp: demo_order_read numeral_2_eq_2)
qed

lemma demo_subscribed:
  "\<exists>ctx w1. open_subscriber list_sock_api addr (lib_start\<lparr>lib_in := q\<rparr>)
      = (Inr (ctx, \<lparr>sb_handle = 1, sb_ctxptr = 1\<rparr>), w1) \<and> lib_in w1 = q"
  by (simp add: open_subscriber_def context_threads_def socket_t_ctor_def socket_t_int_def sock_connect_def
      sock_set_cstr_def set_option_def check_zero_def context_handle_def bnd_def call_def list_sock_api_simps
      lib_socket_def lib_start_def)

theorem robot_main_reports_witness:
  "\<exists>tr' w'. robot_main demo_env Map.empty Map.empty [''robot_exe'', ''dairy''] ([], lib_start\<lparr>lib_in := [([1], False)]\<rparr>) =
      exits (robot_loop demo_env demo_robot \<lparr>sb_handle = 1, sb_ctxptr = 1\<rparr> (tr', w'))
    \<and> lib_in w' = [] \<and> rpcs tr' = [owed_report demo_robot demo_order]"
proof -
  have env: "Map.empty = LoadDotEnv Map.empty ''robots/.env'' (LoadDotEnv Map.empty ''../.env'' Map.empty)"
    by (simp add: LoadDotEnv_def)
  have robot: "demo_robot = RobotWorker_ctor (GetEnv Map.empty ''INVENTORY_GRPC_ADDR'' ''localhost:50051'')
      ([''robot_exe'', ''dairy''] ! 1) (GetEnv Map.empty ''ROBOT_ZMQ_SUB_ADDR'' ''tcp://localhost:5556'')"
    by (simp add: demo_robot_def GetEnv_def)
  have api: "re_api demo_env = list_sock_api" by (simp add: demo_env_def)
  obtain ctx w1 where sub: "open_subscriber list_sock_api (zmq_sub_addr demo_robot) (lib_start\<lparr>lib_in := [([1], False)]\<rparr>)
      = (Inr (ctx, \<lparr>sb_handle = 1, sb_ctxptr = 1\<rparr>), w1)" "lib_in w1 = [([1], False)]"
    using demo_subscribed by blast
  have rpc: "\<And>r w. lib_in (snd (re_rpc demo_env (stub demo_robot) r w)) = lib_in w" by (simp add: demo_env_def)
  from robot_main_reports [OF api env robot sub(1) list_inbound list_sock_msg_ok rpc,
      where msgs = "[([1], demo_order)]" and rest = "[]" and tr = "[]"] sub(2)
  show ?thesis by (simp add: demo_order_read)
qed

end
