(* ===== verification/AnalyticsEnv.thy ===== *)
theory AnalyticsEnv
  imports DotEnv
begin

text \<open>
  The configuration code of the analytics logger (\<open>GetEnv\<close> and \<open>LoadDotEnv\<close> of
  \<open>analytics/cmd/analytics/main.cpp\<close>), call by call: C strings are read up to their NUL, \<open>getline\<close> takes
  one line off the stream, \<open>find\<close> returns an index or \<open>npos\<close>, and \<open>substr\<close> throws \<open>out_of_range\<close> when its
  index is past the end. It is shown to be the same function as the one over the parts of a line in
  \<open>DotEnv\<close>.
\<close>

section \<open>Strings\<close>

text \<open>The character of a C string at an index, its terminator included.\<close>

definition c_char_at :: "string \<Rightarrow> nat \<Rightarrow> char" where
  "c_char_at s i = (if i < length s then s ! i else CHR 0x00)"

definition string_find :: "string \<Rightarrow> char \<Rightarrow> nat option" where
  "string_find s c = (let i = length (takeWhile (\<lambda>x. x \<noteq> c) s) in if i < length s then Some i else None)"

text \<open>\<open>substr(pos, n)\<close>, and \<open>substr(pos)\<close> for all that is left.\<close>

definition string_substr :: "string \<Rightarrow> nat \<Rightarrow> nat option \<Rightarrow> string res" where
  "string_substr s pos n =
     (if pos > length s then Inl (OutOfRange ''basic_string::substr'')
      else Inr (case n of None \<Rightarrow> drop pos s | Some k \<Rightarrow> take k (drop pos s)))"

text \<open>
  \<open>std::getline(file, line)\<close> on what is left of the stream: it fails at the end, otherwise the line and
  the rest after its newline.
\<close>

definition getline :: "string \<Rightarrow> (string \<times> string) option" where
  "getline s =
     (if s = [] then None
      else Some (takeWhile (\<lambda>c. c \<noteq> CHR 0x0A) s, drop 1 (dropWhile (\<lambda>c. c \<noteq> CHR 0x0A) s)))"

lemma getline_shorter: "getline s = Some (line, rest) \<Longrightarrow> length rest < length s"
proof -
  assume g: "getline s = Some (line, rest)"
  then have s: "s \<noteq> []" "rest = drop 1 (dropWhile (\<lambda>c. c \<noteq> CHR 0x0A) s)"
    by (auto simp: getline_def split: if_splits)
  have "length (dropWhile (\<lambda>c. c \<noteq> CHR 0x0A) s) \<le> length s" by (rule length_dropWhile_le)
  with s show ?thesis by (cases s) auto
qed

section \<open>\<open>GetEnv\<close> and \<open>LoadDotEnv\<close>\<close>

definition analytics_GetEnv :: "env \<Rightarrow> string \<Rightarrow> string \<Rightarrow> string" where
  "analytics_GetEnv e key fallback =
     (let value = e key
      in if value \<noteq> None \<and> c_char_at (the value) 0 \<noteq> CHR 0x00 then c_string (the value) else fallback)"

definition analytics_load_line :: "string \<Rightarrow> env \<Rightarrow> env res" where
  "analytics_load_line line e =
     (if line = [] \<or> line ! 0 = CHR ''#'' then Inr e
      else case string_find line CHR ''='' of
             None \<Rightarrow> Inr e
           | Some pos \<Rightarrow>
               rbind (string_substr line 0 (Some pos)) (\<lambda>key.
               rbind (string_substr line (pos + 1) None) (\<lambda>value.
               Inr (if key \<noteq> [] then setenv (c_string key) (c_string value) False e else e))))"

function analytics_load_loop :: "string \<Rightarrow> env \<Rightarrow> env res" where
  "analytics_load_loop content e =
     (case getline content of
        None \<Rightarrow> Inr e
      | Some (line, rest) \<Rightarrow> rbind (analytics_load_line line e) (analytics_load_loop rest))"
  by pat_completeness auto

termination analytics_load_loop
  by (relation "measure (length \<circ> fst)") (auto dest: getline_shorter)

declare analytics_load_loop.simps [simp del]

definition analytics_LoadDotEnv :: "files \<Rightarrow> string \<Rightarrow> env \<Rightarrow> env res" where
  "analytics_LoadDotEnv fs path e = (case fs path of None \<Rightarrow> Inr e | Some content \<Rightarrow> analytics_load_loop content e)"

section \<open>Equivalence with \<open>DotEnv\<close>\<close>

lemma string_find_split:
  "split_eq s = map_option (\<lambda>i. (take i s, drop (i + 1) s)) (string_find s CHR ''='')"
  by (induction s) (auto simp: string_find_def Let_def split: if_splits)

lemma analytics_load_line_eq: "analytics_load_line line e = Inr (load_line line e)"
proof (cases "string_find line CHR ''=''")
  case None
  then show ?thesis
    by (cases line) (simp_all add: analytics_load_line_def load_line_def string_find_split)
next
  case (Some i)
  then have "i < length line" by (auto simp: string_find_def Let_def split: if_splits)
  with Some show ?thesis
    by (cases line) (auto simp: analytics_load_line_def load_line_def string_find_split string_substr_def)
qed

lemma getlines_acc_getline:
  "getlines_acc acc s = (if s = [] then (if acc = [] then [] else [rev acc])
     else (rev acc @ takeWhile (\<lambda>c. c \<noteq> CHR 0x0A) s) # getlines (drop 1 (dropWhile (\<lambda>c. c \<noteq> CHR 0x0A) s)))"
  by (induction s arbitrary: acc) (auto simp: getlines_def)

lemma getlines_getline:
  "getlines s = (case getline s of None \<Rightarrow> [] | Some (line, rest) \<Rightarrow> line # getlines rest)"
  by (simp add: getlines_def [of s] getlines_acc_getline [of "[]" s] getline_def)

lemma analytics_load_loop_eq: "analytics_load_loop content e = Inr (fold load_line (getlines content) e)"
proof (induction content e rule: analytics_load_loop.induct)
  case (1 content e)
  show ?case
  proof (cases "getline content")
    case None
    then show ?thesis by (simp add: analytics_load_loop.simps [of content] getlines_getline [of content])
  next
    case (Some lr)
    then obtain line rest where lr: "getline content = Some (line, rest)" by (cases lr) auto
    from 1 [OF lr refl, of "load_line line e"] lr show ?thesis
      by (simp add: analytics_load_loop.simps [of content] getlines_getline [of content] analytics_load_line_eq)
  qed
qed

lemma analytics_LoadDotEnv_eq: "analytics_LoadDotEnv fs path e = Inr (LoadDotEnv fs path e)"
  by (simp add: analytics_LoadDotEnv_def LoadDotEnv_def analytics_load_loop_eq split: option.splits)

lemma analytics_GetEnv_eq:
  assumes "\<And>v. e key = Some v \<Longrightarrow> CHR 0x00 \<notin> set v"
  shows "analytics_GetEnv e key fallback = GetEnv e key fallback"
proof (cases "e key")
  case (Some v)
  with assms have "c_string v = v" "v \<noteq> [] \<Longrightarrow> v ! 0 \<noteq> CHR 0x00"
    by (auto simp: c_string_id) (metis length_greater_0_conv nth_mem)
  with Some show ?thesis by (simp add: analytics_GetEnv_def GetEnv_def c_char_at_def)
qed (simp add: analytics_GetEnv_def GetEnv_def)

text \<open>
  C39. The two programs read their configuration in the same way: the loop of the logger ends on every
  file, its \<open>substr\<close> calls never throw, it leaves the environment that \<open>LoadDotEnv\<close> of the robot leaves,
  and its \<open>GetEnv\<close> finds what the robot's finds (values in the environment being C strings).
\<close>

theorem analytics_LoadDotEnv_equiv:
  "analytics_LoadDotEnv fs path e = Inr (LoadDotEnv fs path e)
   \<and> (\<forall>key fallback. (\<forall>v. e key = Some v \<longrightarrow> CHR 0x00 \<notin> set v) \<longrightarrow>
        analytics_GetEnv e key fallback = GetEnv e key fallback)"
  using analytics_LoadDotEnv_eq analytics_GetEnv_eq by blast

theorem analytics_LoadDotEnv_equiv_witness:
  "analytics_LoadDotEnv [''.env'' \<mapsto> ''A=1=2'' @ [CHR 0x0A] @ ''#B=3''] ''.env'' Map.empty
     = Inr (LoadDotEnv [''.env'' \<mapsto> ''A=1=2'' @ [CHR 0x0A] @ ''#B=3''] ''.env'' Map.empty)
   \<and> analytics_GetEnv [''A'' \<mapsto> ''1=2''] ''A'' ''x'' = GetEnv [''A'' \<mapsto> ''1=2''] ''A'' ''x''"
  using analytics_LoadDotEnv_equiv [of "[''.env'' \<mapsto> ''A=1=2'' @ [CHR 0x0A] @ ''#B=3'']" "''.env''" Map.empty]
    analytics_LoadDotEnv_equiv [of Map.empty "''.env''" "[''A'' \<mapsto> ''1=2'']"] by simp

end
