(* ===== verification/AnalyticsFbs.thy ===== *)
theory AnalyticsFbs
  imports Flatbuffers
begin

text \<open>
  The generated header \<open>analytics_generated.h\<close>: the table \<open>OrderMetric\<close> with its accessors, its
  \<open>Verify\<close>, its builder and the \<open>Create...\<close> functions. The double \<open>duration_seconds\<close> is its 64-bit
  pattern and \<open>timestamp\<close> a 64-bit word; the default 0.0 is the pattern 0.
\<close>

section \<open>\<open>OrderMetric\<close>\<close>

definition METRIC_VT_ORDER_ID :: nat where "METRIC_VT_ORDER_ID = 4"
definition METRIC_VT_STATUS :: nat where "METRIC_VT_STATUS = 6"
definition METRIC_VT_DURATION_SECONDS :: nat where "METRIC_VT_DURATION_SECONDS = 8"
definition METRIC_VT_TIMESTAMP :: nat where "METRIC_VT_TIMESTAMP = 10"

lemmas metric_vt = METRIC_VT_ORDER_ID_def METRIC_VT_STATUS_def METRIC_VT_DURATION_SECONDS_def
  METRIC_VT_TIMESTAMP_def

definition metric_order_id :: "('b, 'v, 'f) fb_runtime \<Rightarrow> 'b \<Rightarrow> nat \<Rightarrow> nat option res" where
  "metric_order_id rt buf t = GetPointer rt buf t METRIC_VT_ORDER_ID"

definition metric_status :: "('b, 'v, 'f) fb_runtime \<Rightarrow> 'b \<Rightarrow> nat \<Rightarrow> nat option res" where
  "metric_status rt buf t = GetPointer rt buf t METRIC_VT_STATUS"

definition metric_duration_seconds :: "('b, 'v, 'f) fb_runtime \<Rightarrow> 'b \<Rightarrow> nat \<Rightarrow> 64 word res" where
  "metric_duration_seconds rt buf t = GetField64 rt buf t METRIC_VT_DURATION_SECONDS 0"

definition metric_timestamp :: "('b, 'v, 'f) fb_runtime \<Rightarrow> 'b \<Rightarrow> nat \<Rightarrow> 64 word res" where
  "metric_timestamp rt buf t = GetField64 rt buf t METRIC_VT_TIMESTAMP 0"

definition metric_verify :: "('b, 'v, 'f) fb_runtime \<Rightarrow> 'b \<Rightarrow> nat \<Rightarrow> ('v, bool) comp" where
  "metric_verify rt buf t =
     vand (VerifyTableStart rt buf t)
    (vand (VerifyOffset rt buf t METRIC_VT_ORDER_ID)
    (vand (bnd (lift_res (metric_order_id rt buf t)) (VerifyString rt buf))
    (vand (VerifyOffset rt buf t METRIC_VT_STATUS)
    (vand (bnd (lift_res (metric_status rt buf t)) (VerifyString rt buf))
    (vand (VerifyField rt buf t METRIC_VT_DURATION_SECONDS 8)
    (vand (VerifyField rt buf t METRIC_VT_TIMESTAMP 8)
          (VerifyEndTable rt)))))))"

definition metric_builder :: "('b, 'v, 'f) fb_runtime \<Rightarrow> 'f \<Rightarrow> nat \<times> 'f" where
  "metric_builder rt fbb = StartTable rt fbb"

definition metric_add_order_id :: "('b, 'v, 'f) fb_runtime \<Rightarrow> nat \<Rightarrow> 'f \<Rightarrow> 'f" where
  "metric_add_order_id rt order_id fbb = AddOffset rt METRIC_VT_ORDER_ID order_id fbb"

definition metric_add_status :: "('b, 'v, 'f) fb_runtime \<Rightarrow> nat \<Rightarrow> 'f \<Rightarrow> 'f" where
  "metric_add_status rt status fbb = AddOffset rt METRIC_VT_STATUS status fbb"

definition metric_add_duration_seconds :: "('b, 'v, 'f) fb_runtime \<Rightarrow> 64 word \<Rightarrow> 'f \<Rightarrow> 'f" where
  "metric_add_duration_seconds rt duration_seconds fbb =
     AddElementDouble rt METRIC_VT_DURATION_SECONDS duration_seconds 0 fbb"

definition metric_add_timestamp :: "('b, 'v, 'f) fb_runtime \<Rightarrow> 64 word \<Rightarrow> 'f \<Rightarrow> 'f" where
  "metric_add_timestamp rt timestamp fbb = AddElement64 rt METRIC_VT_TIMESTAMP timestamp 0 fbb"

definition metric_finish :: "('b, 'v, 'f) fb_runtime \<Rightarrow> nat \<Rightarrow> 'f \<Rightarrow> nat \<times> 'f" where
  "metric_finish rt start fbb = EndTable rt start fbb"

definition CreateOrderMetric ::
  "('b, 'v, 'f) fb_runtime \<Rightarrow> nat \<Rightarrow> nat \<Rightarrow> 64 word \<Rightarrow> 64 word \<Rightarrow> 'f \<Rightarrow> nat \<times> 'f" where
  "CreateOrderMetric rt order_id status duration_seconds timestamp fbb =
     (case metric_builder rt fbb of (start, fbb) \<Rightarrow>
      metric_finish rt start
        (metric_add_order_id rt order_id (metric_add_status rt status
          (metric_add_duration_seconds rt duration_seconds (metric_add_timestamp rt timestamp fbb)))))"

definition CreateOrderMetricDirect ::
  "('b, 'v, 'f) fb_runtime \<Rightarrow> string option \<Rightarrow> string option \<Rightarrow> 64 word \<Rightarrow> 64 word \<Rightarrow> 'f \<Rightarrow> nat \<times> 'f" where
  "CreateOrderMetricDirect rt order_id status duration_seconds timestamp fbb =
     (case create_string_opt rt order_id fbb of (order_id', fbb) \<Rightarrow>
      case create_string_opt rt status fbb of (status', fbb) \<Rightarrow>
      CreateOrderMetric rt order_id' status' duration_seconds timestamp fbb)"

section \<open>Buffers\<close>

definition GetOrderMetric :: "('b, 'v, 'f) fb_runtime \<Rightarrow> 'b \<Rightarrow> nat res" where
  "GetOrderMetric rt buf = GetRoot rt buf"

definition GetSizePrefixedOrderMetric :: "('b, 'v, 'f) fb_runtime \<Rightarrow> 'b \<Rightarrow> nat res" where
  "GetSizePrefixedOrderMetric rt buf = GetSizePrefixedRoot rt buf"

definition VerifyOrderMetricBuffer :: "('b, 'v, 'f) fb_runtime \<Rightarrow> 'b \<Rightarrow> ('v, bool) comp" where
  "VerifyOrderMetricBuffer rt buf = VerifyBuffer rt buf (metric_verify rt buf)"

definition VerifySizePrefixedOrderMetricBuffer :: "('b, 'v, 'f) fb_runtime \<Rightarrow> 'b \<Rightarrow> ('v, bool) comp" where
  "VerifySizePrefixedOrderMetricBuffer rt buf = VerifySizePrefixedBuffer rt buf (metric_verify rt buf)"

definition FinishOrderMetricBuffer :: "('b, 'v, 'f) fb_runtime \<Rightarrow> nat \<Rightarrow> 'f \<Rightarrow> 'f" where
  "FinishOrderMetricBuffer rt root fbb = FinishRoot rt root fbb"

definition FinishSizePrefixedOrderMetricBuffer :: "('b, 'v, 'f) fb_runtime \<Rightarrow> nat \<Rightarrow> 'f \<Rightarrow> 'f" where
  "FinishSizePrefixedOrderMetricBuffer rt root fbb = FinishSizePrefixed rt root fbb"

section \<open>Reading a message\<close>

definition metric_read ::
  "('b, 'v, 'f) fb_runtime \<Rightarrow> 'b \<Rightarrow> (string option \<times> string option \<times> 64 word \<times> 64 word) res" where
  "metric_read rt buf =
     rbind (GetOrderMetric rt buf) (\<lambda>t.
     rbind (metric_order_id rt buf t) (\<lambda>oid.
     rbind (read_opt rt buf oid) (\<lambda>oid.
     rbind (metric_status rt buf t) (\<lambda>status.
     rbind (read_opt rt buf status) (\<lambda>status.
     rbind (metric_duration_seconds rt buf t) (\<lambda>duration.
     rbind (metric_timestamp rt buf t) (\<lambda>timestamp.
     Inr (oid, status, duration, timestamp))))))))"

lemma verified_metric_readable:
  assumes "verifier_ok rt buf" "accepts (VerifyOrderMetricBuffer rt buf)"
  shows "\<exists>c. metric_read rt buf = Inr c"
proof -
  obtain t where t: "GetOrderMetric rt buf = Inr t" "accepts (metric_verify rt buf t)"
    using verifier_okD(7) [OF assms(1)] assms(2)
    by (auto simp: VerifyOrderMetricBuffer_def GetOrderMetric_def)
  from t(2) obtain oid st where f: "metric_order_id rt buf t = Inr oid" "accepts (VerifyString rt buf oid)"
    "metric_status rt buf t = Inr st" "accepts (VerifyString rt buf st)"
    "accepts (VerifyTableStart rt buf t)" "accepts (VerifyField rt buf t METRIC_VT_DURATION_SECONDS 8)"
    "accepts (VerifyField rt buf t METRIC_VT_TIMESTAMP 8)"
    by (auto simp: metric_verify_def dest!: accepts_vand)
  from verifier_okD(3) [OF assms(1) f(5,6)] verifier_okD(3) [OF assms(1) f(5,7)] obtain d s where
    "metric_duration_seconds rt buf t = Inr d" "metric_timestamp rt buf t = Inr s"
    unfolding metric_duration_seconds_def metric_timestamp_def by blast
  with t f(1,3) verified_string [OF assms(1) f(2)] verified_string [OF assms(1) f(4)] show ?thesis
    by (auto simp: metric_read_def)
qed

definition send_metric ::
  "('b, 'v, 'f) fb_runtime \<Rightarrow> string option \<Rightarrow> string option \<Rightarrow> 64 word \<Rightarrow> 64 word \<Rightarrow> 'f \<Rightarrow> 'b" where
  "send_metric rt order_id status duration timestamp f =
     (case CreateOrderMetricDirect rt order_id status duration timestamp f of (root, f') \<Rightarrow>
      GetBuffer rt (FinishOrderMetricBuffer rt root f'))"

text \<open>
  C35. A metric reads back as it was built, and every verified buffer can be read: on the buffer made by
  \<open>CreateOrderMetricDirect\<close> the accessors give the identifier, the status, the duration's bit pattern
  (except that a negative zero, equal to the default, reads as zero) and the timestamp that were passed, and on any buffer accepted by \<open>VerifyOrderMetricBuffer\<close> each accessor
  stays inside the buffer.
\<close>

theorem metric_roundtrip:
  assumes "builder_ok rt g" "finish_ok rt g"
  shows "metric_read rt (send_metric rt order_id status duration timestamp f) =
      Inr (map_option c_string order_id, map_option c_string status,
           if double_eq duration 0 then 0 else duration, timestamp)
    \<and> (\<forall>buf. verifier_ok rt buf \<longrightarrow> accepts (VerifyOrderMetricBuffer rt buf) \<longrightarrow> (\<exists>c. metric_read rt buf = Inr c))"
proof -
  obtain p f2 where 2: "create_string_opt rt order_id f = (p, f2)" by (metis surj_pair)
  obtain q f3 where 3: "create_string_opt rt status f2 = (q, f3)" by (metis surj_pair)
  obtain start f5 where 5: "StartTable rt f3 = (start, f5)" by (metis surj_pair)
  let ?f = "metric_add_order_id rt p (metric_add_status rt q
      (metric_add_duration_seconds rt duration (metric_add_timestamp rt timestamp f5)))"
  obtain root f6 where 6: "EndTable rt start ?f = (root, f6)" by (metis surj_pair)
  let ?buf = "GetBuffer rt (FinishRoot rt root f6)"
  have send: "send_metric rt order_id status duration timestamp f = ?buf"
    using 2 3 5 6
    by (simp add: send_metric_def CreateOrderMetricDirect_def CreateOrderMetric_def metric_builder_def
        metric_finish_def FinishOrderMetricBuffer_def)
  note adds = metric_add_order_id_def metric_add_status_def metric_add_duration_seconds_def
    metric_add_timestamp_def builder_okD(4,6,8) [OF assms(1)] builder_okD(3) [OF assms(1) 5]
  have o5: "fb_obj g ?f = fb_obj g f3" by (simp add: adds)
  from builder_okD(7) [OF assms(1) 6]
  have root: "fb_obj g f6 root = Some (FTable (fb_open g ?f))" "keeps (fb_obj g f3) (fb_obj g f6)"
    by (auto simp: o5 keeps_update)
  have tab: "fb_open g ?f METRIC_VT_ORDER_ID = offset_field p" "fb_open g ?f METRIC_VT_STATUS = offset_field q"
    "fb_open g ?f METRIC_VT_DURATION_SECONDS = (if double_eq duration 0 then None else Some (F64 duration))"
    "fb_open g ?f METRIC_VT_TIMESTAMP = (if timestamp = 0 then None else Some (F64 timestamp))"
    by (simp_all add: adds store_field_def metric_vt offset_field_def)
  from create_string_opt_ok [OF assms(1) 2] create_string_opt_ok [OF assms(1) 3]
  have s: "is_string (fb_obj g f6) p (map_option c_string order_id)"
    "is_string (fb_obj g f6) q (map_option c_string status)"
    using root(2) by (auto intro: is_string_keeps keeps_trans)
  have rd: "reads rt g (fb_obj g f6) ?buf" "GetRoot rt ?buf = Inr (fb_at g ?buf root)"
    using assms(2) by (auto simp: finish_ok_def Let_def)
  have "metric_duration_seconds rt ?buf (fb_at g ?buf root) = Inr (if double_eq duration 0 then 0 else duration)"
    "metric_timestamp rt ?buf (fb_at g ?buf root) = Inr timestamp"
    using readsD(7,8) [OF rd(1) root(1)] tab(3,4)
    by (auto simp: metric_duration_seconds_def metric_timestamp_def split: if_splits)
  with reads_read_opt [OF rd(1) root(1) s(1) tab(1)] reads_read_opt [OF rd(1) root(1) s(2) tab(2)] rd(2)
  have "metric_read rt ?buf = Inr (map_option c_string order_id, map_option c_string status,
      if double_eq duration 0 then 0 else duration, timestamp)"
    by (auto simp: metric_read_def GetOrderMetric_def metric_order_id_def metric_status_def rbind_Inr_iff)
  with send verified_metric_readable [of rt] show ?thesis by auto
qed

definition plain_metric_runtime :: "(lb_object list \<times> nat, unit, list_builder) fb_runtime" where
  "plain_metric_runtime = list_runtime (\<lambda>b. b) (\<lambda>f. (lb_objs f, lb_root f))"

theorem metric_roundtrip_witness:
  "metric_read plain_metric_runtime
     (send_metric plain_metric_runtime (Some ''o1'') None 0x4004000000000000 0 lb_start)
   = Inr (Some ''o1'', None, 0x4004000000000000, 0)"
proof -
  note rt = metric_roundtrip [OF list_builder_ok list_finish_ok, of "\<lambda>b. b" "\<lambda>f. (lb_objs f, lb_root f)"
      "Some ''o1''" None "0x4004000000000000" 0 lb_start, THEN conjunct1]
  then show ?thesis by (simp add: plain_metric_runtime_def c_string_def double_eq_def double_nan_def)
qed

end
