(* ===== verification/DoubleOut.thy ===== *)
theory DoubleOut
  imports Prelude
begin

text \<open>
  \<open>operator<<\<close> of the C++ streams on a \<open>double\<close> with the default format (\<open>%g\<close> with six significant
  digits), on the 64-bit pattern of the value: the exact binary value is rounded to six decimal digits,
  ties to even, and printed in fixed or exponent notation without trailing zeros.
\<close>

section \<open>The value of a pattern\<close>

definition double_neg :: "64 word \<Rightarrow> bool" where
  "double_neg x = bit x 63"

definition double_exp :: "64 word \<Rightarrow> nat" where
  "double_exp x = unat (drop_bit 52 x AND 0x7FF)"

definition double_frac :: "64 word \<Rightarrow> nat" where
  "double_frac x = unat (x AND 0xFFFFFFFFFFFFF)"

text \<open>The absolute value of a finite double is a fraction of natural numbers.\<close>

definition double_num :: "64 word \<Rightarrow> nat" where
  "double_num x =
     (let m = (if double_exp x = 0 then double_frac x else 2 ^ 52 + double_frac x);
          e = max 1 (double_exp x)
      in if 1075 \<le> e then m * 2 ^ (e - 1075) else m)"

definition double_den :: "64 word \<Rightarrow> nat" where
  "double_den x = (let e = max 1 (double_exp x) in if 1075 \<le> e then 1 else 2 ^ (1075 - e))"

lemma double_den_pos [simp]: "0 < double_den x"
  by (simp add: double_den_def Let_def)

section \<open>Six significant digits\<close>

definition round_half_even :: "nat \<Rightarrow> nat \<Rightarrow> nat" where
  "round_half_even n d =
     (let q = n div d; r = n mod d in if 2 * r < d \<or> 2 * r = d \<and> even q then q else q + 1)"

text \<open>The decimal exponent of \<open>n / d\<close>: how often it can be divided by 10, or multiplied, to get into [1, 10).\<close>

function exp_up :: "nat \<Rightarrow> nat \<Rightarrow> nat" where
  "exp_up n d = (if d = 0 \<or> n < 10 * d then 0 else Suc (exp_up n (10 * d)))"
  by auto

termination by (relation "measure (\<lambda>(n, d). n - d)") auto

function exp_down :: "nat \<Rightarrow> nat \<Rightarrow> nat" where
  "exp_down n d = (if n = 0 \<or> d \<le> n then 0 else Suc (exp_down (10 * n) d))"
  by auto

termination by (relation "measure (\<lambda>(n, d). d - n)") auto

declare exp_up.simps [simp del] exp_down.simps [simp del]

definition dec_exp :: "nat \<Rightarrow> nat \<Rightarrow> int" where
  "dec_exp n d = (if d \<le> n then int (exp_up n d) else - int (exp_down n d))"

definition six_digits :: "nat \<Rightarrow> nat \<Rightarrow> nat \<times> int" where
  "six_digits n d =
     (let X = dec_exp n d;
          q = (if X \<le> 5 then round_half_even (n * 10 ^ nat (5 - X)) d
               else round_half_even n (d * 10 ^ nat (X - 5)))
      in if q = 10 ^ 6 then (10 ^ 5, X + 1) else (q, X))"

section \<open>Printing\<close>

definition strip_zeros :: "string \<Rightarrow> string" where
  "strip_zeros s = rev (dropWhile (\<lambda>c. c = CHR ''0'') (rev s))"

definition with_frac :: "string \<Rightarrow> string \<Rightarrow> string" where
  "with_frac i f = (if strip_zeros f = [] then i else i @ CHR ''.'' # strip_zeros f)"

definition show_g :: "nat \<Rightarrow> nat \<Rightarrow> string" where
  "show_g n d =
     (case six_digits n d of (q, X) \<Rightarrow>
      let ds = show_nat q in
      if X < - 4 \<or> 6 \<le> X then
        with_frac (take 1 ds) (drop 1 ds) @ ''e'' @ (if X < 0 then ''-'' else ''+'') @ setw0 2 (show_nat (nat \<bar>X\<bar>))
      else if X < 0 then with_frac ''0'' (replicate (nat (- X - 1)) (CHR ''0'') @ ds)
      else with_frac (take (nat X + 1) ds) (drop (nat X + 1) ds))"

definition show_double :: "64 word \<Rightarrow> string" where
  "show_double x =
     (if double_neg x then ''-'' else '''')
     @ (if double_exp x = 0x7FF then (if double_frac x = 0 then ''inf'' else ''nan'')
        else if double_num x = 0 then ''0''
        else show_g (double_num x) (double_den x))"

text \<open>The characters a printed double can have; a comma and a line end are not among them.\<close>

definition double_chars :: "char set" where
  "double_chars = digits \<union> set ''-+.einfa''"

lemma set_setw0: "set (setw0 k s) \<subseteq> insert (CHR ''0'') (set s)"
  by (auto simp: setw0_def)

lemma set_strip_zeros: "set (strip_zeros s) \<subseteq> set s"
  by (auto simp: strip_zeros_def dest: set_dropWhileD)

lemma set_with_frac: "set (with_frac i f) \<subseteq> insert (CHR ''.'') (set i \<union> set f)"
  using set_strip_zeros [of f] by (auto simp: with_frac_def)

lemma zero_digit: "CHR ''0'' \<in> digits"
  by (simp add: digits_def)

lemma set_show_g: "set (show_g n d) \<subseteq> double_chars"
proof -
  obtain q X where s: "six_digits n d = (q, X)" by (metis surj_pair)
  have ds: "set (take k (show_nat q)) \<subseteq> digits" "set (drop k (show_nat q)) \<subseteq> digits" for k
    using set_show_nat [of q] set_take_subset [of k "show_nat q"] set_drop_subset [of k "show_nat q"] by blast+
  have e: "set (setw0 2 (show_nat k)) \<subseteq> digits" for k
    using set_setw0 [of 2 "show_nat k"] set_show_nat [of k] zero_digit by auto
  have z: "set (replicate k (CHR ''0'') @ show_nat q) \<subseteq> digits" for k
    using set_show_nat [of q] zero_digit by auto
  have f: "set i \<subseteq> digits \<Longrightarrow> set r \<subseteq> digits \<Longrightarrow> set (with_frac i r) \<subseteq> insert (CHR ''.'') digits" for i r
    using set_with_frac [of i r] by auto
  have z0: "set ''0'' \<subseteq> digits" using zero_digit by simp
  note parts = f [OF ds(1) [of 1] ds(2) [of 1]] f [OF z0 z] f [OF ds(1) [of "nat X + 1"] ds(2) [of "nat X + 1"]]
    e [of "nat \<bar>X\<bar>"]
  show ?thesis
    using parts by (auto simp: show_g_def s Let_def double_chars_def)
qed

lemma set_show_double: "set (show_double x) \<subseteq> double_chars"
  using set_show_g [of "double_num x" "double_den x"] zero_digit
  by (auto simp: show_double_def double_chars_def)

end
