(* ===== verification/Analytics.thy ===== *)
theory Analytics
  imports Programs AnalyticsEnv AnalyticsFbs DoubleOut
begin

text \<open>
  The analytics logger (\<open>analytics/cmd/analytics/main.cpp\<close>): it subscribes to the metrics and appends
  each as a row to a CSV file. The state holds the file system and what the output stream has buffered;
  the stream writes to the file when it is flushed, which \<open>std::endl\<close> does (a buffer that fills up
  earlier writes the same bytes, only sooner). Writing to an open file succeeds.
\<close>

section \<open>The output file\<close>

record fs_state =
  fs_files :: files
  fs_buf :: string

record ofstream =
  os_path :: string
  os_open :: bool

text \<open>A metric program: its trace, the file state and the library. There are no remote calls.\<close>

type_synonym ('w, 'a) log_prog = "(unit, fs_state \<times> 'w, 'a) prog"

definition on_files :: "(fs_state \<Rightarrow> fs_state) \<Rightarrow> ('w, unit) log_prog" where
  "on_files f = modify (\<lambda>(tr, (st, w)). (tr, (f st, w)))"

definition on_net :: "('w, 'a) comp \<Rightarrow> ('w, 'a) log_prog" where
  "on_net f = on_lib (on_lib f)"

lemma on_files_apply [simp]: "on_files f (tr, (st, w)) = (Inr (), (tr, (f st, w)))"
  by (simp add: on_files_def)

lemma on_net_apply: "on_net f (tr, (st, w)) = (case f w of (r, w') \<Rightarrow> (r, (tr, (st, w'))))"
  by (simp add: on_net_def on_lib_def split: prod.splits)

definition file_content :: "files \<Rightarrow> string \<Rightarrow> string" where
  "file_content fs path = (case fs path of None \<Rightarrow> [] | Some c \<Rightarrow> c)"

text \<open>\<open>std::ofstream datafile(path, std::ios::app)\<close>: it creates the file, or fails.\<close>

definition ofstream_app :: "(string \<Rightarrow> bool) \<Rightarrow> string \<Rightarrow> fs_state \<Rightarrow> ofstream \<times> fs_state" where
  "ofstream_app can_open path st =
     (if can_open path
      then (\<lparr>os_path = path, os_open = True\<rparr>, st\<lparr>fs_files := (fs_files st)(path \<mapsto> file_content (fs_files st) path)\<rparr>)
      else (\<lparr>os_path = path, os_open = False\<rparr>, st))"

text \<open>The position: at the end of the file after opening it to append, -1 when the stream has failed.\<close>

definition os_tellp :: "ofstream \<Rightarrow> fs_state \<Rightarrow> int" where
  "os_tellp os st =
     (if os_open os then int (length (file_content (fs_files st) (os_path os)) + length (fs_buf st)) else - 1)"

definition os_put :: "ofstream \<Rightarrow> string \<Rightarrow> fs_state \<Rightarrow> fs_state" where
  "os_put os s st = (if os_open os then st\<lparr>fs_buf := fs_buf st @ s\<rparr> else st)"

definition os_endl :: "ofstream \<Rightarrow> fs_state \<Rightarrow> fs_state" where
  "os_endl os st =
     (if os_open os
      then st\<lparr>fs_files := (fs_files st)(os_path os \<mapsto> file_content (fs_files st) (os_path os) @ fs_buf st @ [CHR 0x0A]),
              fs_buf := []\<rparr>
      else st)"

section \<open>The program\<close>

record ('m, 'w, 'v, 'f) analytics_env =
  ae_api :: "('m, 'w) sock_api"
  ae_rt :: "(byte list, 'v, 'f) fb_runtime"
  ae_can_open :: "string \<Rightarrow> bool"

definition csv_header :: string where
  "csv_header = ''order_id,status,duration_seconds,timestamp'' @ [CHR 0x0A]"

text \<open>Opening the file, and the header for an empty one.\<close>

definition open_csv :: "('m, 'w, 'v, 'f) analytics_env \<Rightarrow> string \<Rightarrow> fs_state \<Rightarrow> ofstream \<times> fs_state" where
  "open_csv env path st =
     (case ofstream_app (ae_can_open env) path st of
        (datafile, st1) \<Rightarrow>
          (datafile, if os_tellp datafile st1 = 0 then os_put datafile csv_header st1 else st1))"

definition show_i64 :: "64 word \<Rightarrow> string" where
  "show_i64 t = show_int (sint t)"

text \<open>The row: every accessor is called when its value is written.\<close>

definition log_row ::
  "('m, 'w, 'v, 'f) analytics_env \<Rightarrow> ofstream \<Rightarrow> byte list \<Rightarrow> nat \<Rightarrow> ('w, unit) log_prog" where
  "log_row env datafile buf metric =
     bnd (lift_res (rbind (metric_order_id (ae_rt env) buf metric) (string_of_ptr (ae_rt env) buf))) (\<lambda>order_id.
     bnd (on_files (os_put datafile order_id)) (\<lambda>_.
     bnd (on_files (os_put datafile '','')) (\<lambda>_.
     bnd (lift_res (rbind (metric_status (ae_rt env) buf metric) (string_of_ptr (ae_rt env) buf))) (\<lambda>status.
     bnd (on_files (os_put datafile status)) (\<lambda>_.
     bnd (on_files (os_put datafile '','')) (\<lambda>_.
     bnd (lift_res (metric_duration_seconds (ae_rt env) buf metric)) (\<lambda>duration.
     bnd (on_files (os_put datafile (show_double duration))) (\<lambda>_.
     bnd (on_files (os_put datafile '','')) (\<lambda>_.
     bnd (lift_res (metric_timestamp (ae_rt env) buf metric)) (\<lambda>timestamp.
     bnd (on_files (os_put datafile (show_i64 timestamp))) (\<lambda>_.
     on_files (os_endl datafile))))))))))))"

text \<open>One iteration; what \<open>recv\<close> returned is not looked at.\<close>

definition analytics_iter ::
  "('m, 'w, 'v, 'f) analytics_env \<Rightarrow> ofstream \<Rightarrow> socket_t \<Rightarrow> ('w, unit) log_prog" where
  "analytics_iter env datafile subscriber =
     bnd (on_net (recv_message (ae_api env) subscriber)) (\<lambda>(res, msg).
     let buf = message_data (ae_api env) msg in
     bnd (lift_res (GetOrderMetric (ae_rt env) buf)) (\<lambda>metric.
     bnd (log_row env datafile buf metric) (\<lambda>_.
     bnd (lift_res (rbind (metric_order_id (ae_rt env) buf metric) (string_of_ptr (ae_rt env) buf))) (\<lambda>order_id.
     bnd (lift_res (metric_duration_seconds (ae_rt env) buf metric)) (\<lambda>duration.
     emit (Out (''Logged Order: '' @ order_id @ '' | Latency: '' @ show_double duration @ ''s'')))))))"

partial_function (option) analytics_loop ::
  "('m, 'w, 'v, 'f) analytics_env \<Rightarrow> ofstream \<Rightarrow> socket_t \<Rightarrow> unit event list \<times> fs_state \<times> 'w
     \<Rightarrow> (exn \<times> unit event list \<times> fs_state \<times> 'w) option" where
  "analytics_loop env datafile subscriber st =
     (case analytics_iter env datafile subscriber st of
        (Inl e, st') \<Rightarrow> Some (e, st')
      | (Inr _, st') \<Rightarrow> analytics_loop env datafile subscriber st')"

text \<open>\<open>main\<close>: it ends only by an exception; the \<open>close\<close> and the \<open>return\<close> after the loop are not reached.\<close>

definition analytics_main ::
  "('m, 'w, 'v, 'f) analytics_env \<Rightarrow> env \<Rightarrow> unit event list \<times> fs_state \<times> 'w
     \<Rightarrow> (exn \<times> unit event list \<times> fs_state \<times> 'w) option" where
  "analytics_main env e = (\<lambda>(tr, st, w).
     case rbind (analytics_LoadDotEnv (fs_files st) ''../.env'' e) (analytics_LoadDotEnv (fs_files st) ''analytics/.env'') of
       Inl ex \<Rightarrow> Some (ex, tr, st, w)
     | Inr e \<Rightarrow>
         let analyticsSubAddr = analytics_GetEnv e ''ANALYTICS_ZMQ_SUB_ADDR'' ''tcp://127.0.0.1:5557'';
             analyticsCsvPath = analytics_GetEnv e ''ANALYTICS_OUTPUT_CSV'' ''latency_data.csv''
         in case open_subscriber (ae_api env) analyticsSubAddr w of
              (Inl ex, w') \<Rightarrow> Some (ex, tr, st, w')
            | (Inr (context, subscriber), w') \<Rightarrow>
                (case open_csv env analyticsCsvPath st of (datafile, st') \<Rightarrow>
                  analytics_loop env datafile subscriber
                    (tr @ [Out (''Analytics logging started. Subscribed to '' @ analyticsSubAddr
                            @ '' and saving to '' @ analyticsCsvPath @ ''...'')], st', w')))"

section \<open>Rows\<close>

type_synonym metric = "string \<times> string \<times> 64 word \<times> 64 word"

definition metric_content :: "metric \<Rightarrow> string option \<times> string option \<times> 64 word \<times> 64 word" where
  "metric_content = (\<lambda>(oid, status, d, t). (Some oid, Some status, d, t))"

definition metric_line :: "metric \<Rightarrow> string" where
  "metric_line = (\<lambda>(oid, status, d, t). oid @ '','' @ status @ '','' @ show_double d @ '','' @ show_i64 t)"

definition metric_row :: "metric \<Rightarrow> string" where
  "metric_row m = metric_line m @ [CHR 0x0A]"

lemma metric_read_fields:
  assumes "metric_read rt buf = Inr (oid, status, d, t)"
  shows "\<exists>m. GetOrderMetric rt buf = Inr m
    \<and> rbind (metric_order_id rt buf m) (string_of_ptr rt buf) = (case oid of None \<Rightarrow> Inl (UB ''null'') | Some s \<Rightarrow> Inr s)
    \<and> rbind (metric_status rt buf m) (string_of_ptr rt buf) = (case status of None \<Rightarrow> Inl (UB ''null'') | Some s \<Rightarrow> Inr s)
    \<and> metric_duration_seconds rt buf m = Inr d \<and> metric_timestamp rt buf m = Inr t"
  using assms by (auto simp: metric_read_def rbind_Inr_iff dest!: read_opt_ptr)

lemma os_put_put [simp]: "os_put os b (os_put os a st) = os_put os (a @ b) st"
  by (simp add: os_put_def)

lemma on_files_bnd: "bnd (on_files f) g (tr, (st, w)) = g () (tr, (f st, w))"
  by (simp add: bnd_def)

lemma lift_res_bnd: "bnd (lift_res r) g s = (case r of Inl e \<Rightarrow> (Inl e, s) | Inr x \<Rightarrow> g x s)"
  by (cases r) (simp_all add: bnd_def)

text \<open>What logging a metric does to the file: the row is appended and nothing is left in the buffer.\<close>

definition logged :: "ofstream \<Rightarrow> metric \<Rightarrow> fs_state \<Rightarrow> fs_state" where
  "logged os m st = os_endl os (os_put os (metric_line m) st)"

definition log_message :: "metric \<Rightarrow> string" where
  "log_message = (\<lambda>(oid, status, d, t). ''Logged Order: '' @ oid @ '' | Latency: '' @ show_double d @ ''s'')"

lemma analytics_iter_message:
  assumes "inbound (ae_api env) (sb_handle sub) inq" "msg_api_ok (ae_api env)"
    and "metric_read (ae_rt env) bs = Inr (metric_content m)" "inq w = (bs, mo) # rest"
  shows "\<exists>w'. analytics_iter env os sub (tr, (st, w)) = (Inr (), (tr @ [Out (log_message m)], (logged os m st, w')))
    \<and> inq w' = rest"
proof -
  obtain msg w1 where r: "recv_message (ae_api env) sub w = (Inr (Some (length bs), msg), w1)"
    "message_data (ae_api env) msg = bs" "inq w1 = rest"
    using recv_message_queue [OF assms(1,2,4)] by blast
  obtain oid status d t where m: "m = (oid, status, d, t)" by (cases m)
  with assms(3) have "metric_read (ae_rt env) bs = Inr (Some oid, Some status, d, t)"
    by (simp add: metric_content_def)
  from metric_read_fields [OF this] r m show ?thesis
    by (auto simp: analytics_iter_def log_row_def on_files_bnd lift_res_bnd
        Let_def log_message_def logged_def metric_line_def bnd_def on_net_apply)
qed

text \<open>A metric with a null field: the row is started, never finished and never flushed.\<close>

lemma os_put_files [simp]: "fs_files (os_put os s st) = fs_files st"
  by (simp add: os_put_def)

lemma analytics_iter_null:
  assumes "inbound (ae_api env) (sb_handle sub) inq" "msg_api_ok (ae_api env)"
    and "metric_read (ae_rt env) bs = Inr c" "\<nexists>m. c = metric_content m" "inq w = (bs, mo) # rest"
  shows "\<exists>st' w'. analytics_iter env os sub (tr, (st, w)) = (Inl (UB ''null''), (tr, (st', w')))
    \<and> fs_files st' = fs_files st"
proof -
  obtain msg w1 where r: "recv_message (ae_api env) sub w = (Inr (Some (length bs), msg), w1)"
    "message_data (ae_api env) msg = bs" "inq w1 = rest"
    using recv_message_queue [OF assms(1,2,5)] by blast
  obtain oid status d t where c: "c = (oid, status, d, t)" by (cases c)
  with assms(4) have "oid = None \<or> status = None"
    by (cases oid; cases status) (auto simp: metric_content_def)
  with metric_read_fields [OF assms(3) [unfolded c]] r show ?thesis
    by (auto simp: analytics_iter_def log_row_def on_files_bnd lift_res_bnd Let_def bnd_def on_net_apply
        split: option.splits)
qed

section \<open>The loop\<close>

fun analytics_iters ::
  "('m, 'w, 'v, 'f) analytics_env \<Rightarrow> ofstream \<Rightarrow> socket_t \<Rightarrow> nat \<Rightarrow> ('w, unit) log_prog" where
  "analytics_iters env datafile subscriber 0 = ret ()"
| "analytics_iters env datafile subscriber (Suc n) =
     bnd (analytics_iter env datafile subscriber) (\<lambda>_. analytics_iters env datafile subscriber n)"

lemma analytics_loop_iters:
  "analytics_iters env os sub n st = (Inr (), st') \<Longrightarrow>
     analytics_loop env os sub st = analytics_loop env os sub st'"
proof (induction n arbitrary: st)
  case (Suc n)
  then obtain st1 where "analytics_iter env os sub st = (Inr (), st1)"
    "analytics_iters env os sub n st1 = (Inr (), st')"
    by (auto simp: bnd_Inr_iff)
  with Suc.IH show ?case by (subst analytics_loop.simps) simp
qed simp

text \<open>The messages that arrive: each reads as a metric without null fields.\<close>

definition metric_messages ::
  "('m, 'w, 'v, 'f) analytics_env \<Rightarrow> (byte list \<times> metric) list \<Rightarrow> bool" where
  "metric_messages env msgs \<longleftrightarrow> (\<forall>(bs, m) \<in> set msgs. metric_read (ae_rt env) bs = Inr (metric_content m))"

definition queued :: "(byte list \<times> 'a) list \<Rightarrow> (byte list \<times> bool) list" where
  "queued msgs = map (\<lambda>(bs, _). (bs, False)) msgs"

lemma analytics_iters_run:
  assumes "inbound (ae_api env) (sb_handle sub) inq" "msg_api_ok (ae_api env)"
  shows "metric_messages env msgs \<Longrightarrow> inq w = queued msgs @ rest \<Longrightarrow>
    \<exists>w'. analytics_iters env os sub (length msgs) (tr, (st, w)) =
        (Inr (), (tr @ map (\<lambda>(_, m). Out (log_message m)) msgs, (fold (\<lambda>(_, m). logged os m) msgs st, w')))
      \<and> inq w' = rest"
proof (induction msgs arbitrary: tr st w)
  case (Cons x msgs)
  obtain bs m where x: "x = (bs, m)" by (cases x)
  with Cons.prems have rd: "metric_read (ae_rt env) bs = Inr (metric_content m)" "metric_messages env msgs"
    "inq w = (bs, False) # queued msgs @ rest"
    by (auto simp: metric_messages_def queued_def)
  from analytics_iter_message [OF assms rd(1,3), of os tr st] obtain w1 where
    1: "analytics_iter env os sub (tr, (st, w)) = (Inr (), (tr @ [Out (log_message m)], (logged os m st, w1)))"
    "inq w1 = queued msgs @ rest" by blast
  from Cons.IH [OF rd(2) 1(2), of "tr @ [Out (log_message m)]" "logged os m st"] 1(1) x show ?case
    by (auto simp: bnd_def)
qed (simp add: queued_def)

lemma file_content_upd [simp]: "file_content (fs(p \<mapsto> c)) p = c"
  by (simp add: file_content_def)

lemma file_content_other [simp]: "q \<noteq> p \<Longrightarrow> file_content (fs(p \<mapsto> c)) q = file_content fs q"
  by (simp add: file_content_def)

lemma logged_effect:
  assumes "os_open os"
  shows "fs_files (logged os m st) = (fs_files st)(os_path os \<mapsto> file_content (fs_files st) (os_path os)
      @ fs_buf st @ metric_row m)" "fs_buf (logged os m st) = []"
  using assms by (simp_all add: logged_def os_endl_def os_put_def metric_row_def)

lemma logged_fold:
  assumes "os_open os"
  shows "msgs \<noteq> [] \<Longrightarrow> fs_buf (fold (\<lambda>(_, m). logged os m) msgs st) = []
    \<and> fs_files (fold (\<lambda>(_, m). logged os m) msgs st) =
       (fs_files st)(os_path os \<mapsto> file_content (fs_files st) (os_path os) @ fs_buf st
         @ concat (map (\<lambda>(_, m). metric_row m) msgs))"
proof (induction msgs arbitrary: st)
  case (Cons x msgs)
  obtain bs m where x: "x = (bs, m)" by (cases x)
  show ?case
  proof (cases "msgs = []")
    case True
    then show ?thesis by (simp add: x logged_effect [OF assms])
  next
    case False
    from Cons.IH [OF this, of "logged os m st"] show ?thesis
      unfolding x logged_effect [OF assms] by (simp del: fun_upd_apply)
  qed
qed simp

text \<open>
  Every metric becomes one row. When readable metrics without null fields wait in the queue, as many
  iterations as there are metrics return without an exception, announce each on the console, and the
  file then holds what it held, what was still buffered (the header), and one row per metric in the
  order of arrival; nothing stays in the buffer, no other file changes, and the loop of \<open>main\<close> goes on.
\<close>

lemma analytics_logs_each_metric:
  assumes "inbound (ae_api env) (sb_handle sub) inq" "msg_api_ok (ae_api env)"
    and "metric_messages env msgs" "inq w = queued msgs @ rest" "msgs \<noteq> []" "os_open os"
  shows "\<exists>st' w'. analytics_iters env os sub (length msgs) (tr, (st, w)) =
        (Inr (), (tr @ map (\<lambda>(_, m). Out (log_message m)) msgs, (st', w')))
    \<and> inq w' = rest \<and> fs_buf st' = []
    \<and> fs_files st' = (fs_files st)(os_path os \<mapsto> file_content (fs_files st) (os_path os) @ fs_buf st
         @ concat (map (\<lambda>(_, m). metric_row m) msgs))
    \<and> analytics_loop env os sub (tr, (st, w)) =
        analytics_loop env os sub (tr @ map (\<lambda>(_, m). Out (log_message m)) msgs, (st', w'))"
proof -
  obtain w' where run: "analytics_iters env os sub (length msgs) (tr, (st, w)) =
      (Inr (), (tr @ map (\<lambda>(_, m). Out (log_message m)) msgs, (fold (\<lambda>(_, m). logged os m) msgs st, w')))"
    "inq w' = rest"
    using analytics_iters_run [OF assms(1-4), of os tr st] by blast
  from analytics_loop_iters [OF run(1)] run logged_fold [OF assms(6,5), of st] show ?thesis by simp
qed

text \<open>
  A metric with a null identifier or status stops the logger: the iteration ends in a null
  dereference, no file has changed and nothing was announced; the started row never reaches the file.
\<close>

theorem analytics_null_metric:
  assumes "inbound (ae_api env) (sb_handle sub) inq" "msg_api_ok (ae_api env)"
    and "metric_read (ae_rt env) bs = Inr c" "\<nexists>m. c = metric_content m" "inq w = (bs, mo) # rest"
  shows "\<exists>st' w'. analytics_loop env os sub (tr, (st, w)) = Some (UB ''null'', tr, (st', w'))
    \<and> fs_files st' = fs_files st"
proof -
  obtain st' w' where "analytics_iter env os sub (tr, (st, w)) = (Inl (UB ''null''), (tr, (st', w')))"
    "fs_files st' = fs_files st"
    using analytics_iter_null [OF assms, of os tr st] by blast
  then show ?thesis by (subst analytics_loop.simps) auto
qed

section \<open>Restarts\<close>

text \<open>
  Runs of the process one after the other on the same file, each with its subscribed socket among \<open>subs\<close>:
  each opens the file, logs the metrics of its queue, and is stopped between two iterations; what its stream still has in the buffer is lost.
\<close>

inductive csv_runs ::
  "('m, 'w, 'v, 'f) analytics_env \<Rightarrow> string \<Rightarrow> socket_t set \<Rightarrow> ('w \<Rightarrow> (byte list \<times> bool) list) \<Rightarrow> files
     \<Rightarrow> metric list list \<Rightarrow> files \<Rightarrow> bool"
  for env :: "('m, 'w, 'v, 'f) analytics_env" and path subs inq fs where
  csv_no_run: "csv_runs env path subs inq fs [] fs"
| csv_run: "csv_runs env path subs inq fs runs fs1 \<Longrightarrow>
     open_csv env path \<lparr>fs_files = fs1, fs_buf = []\<rparr> = (os, st) \<Longrightarrow>
     sub \<in> subs \<Longrightarrow> metric_messages env msgs \<Longrightarrow> inq w = queued msgs @ rest \<Longrightarrow>
     analytics_iters env os sub (length msgs) (tr, (st, w)) = (Inr (), (tr', (st', w'))) \<Longrightarrow>
     csv_runs env path subs inq fs (runs @ [map snd msgs]) (fs_files st')"

lemma open_csv_fresh:
  "ae_can_open env path \<Longrightarrow> open_csv env path \<lparr>fs_files = fs, fs_buf = []\<rparr> =
     (\<lparr>os_path = path, os_open = True\<rparr>,
      \<lparr>fs_files = fs(path \<mapsto> file_content fs path), fs_buf = if file_content fs path = [] then csv_header else []\<rparr>)"
  by (simp add: open_csv_def ofstream_app_def os_tellp_def os_put_def)

lemma map_metric_row_snd: "concat (map (\<lambda>(_, m). metric_row m) msgs) = concat (map metric_row (map snd msgs))"
  by (induction msgs) auto

text \<open>
  C34. The logger's process as a whole. It takes its address and file from the process environment, then
  from ../.env, then from analytics/.env, then the defaults; when it can subscribe and open the file, it
  logs every metric that arrives: the file then holds its former content, the header if it was empty, and
  one row per metric in order, no other file has changed, and the process goes on in its loop.
\<close>

theorem analytics_main_logs:
  assumes "e' = LoadDotEnv (fs_files st) ''analytics/.env'' (LoadDotEnv (fs_files st) ''../.env'' e)"
    and "\<And>k v. e' k = Some v \<Longrightarrow> CHR 0x00 \<notin> set v" "fs_buf st = []"
    and "addr = GetEnv e' ''ANALYTICS_ZMQ_SUB_ADDR'' ''tcp://127.0.0.1:5557''"
    and "path = GetEnv e' ''ANALYTICS_OUTPUT_CSV'' ''latency_data.csv''" "ae_can_open env path"
    and "open_subscriber (ae_api env) addr w = (Inr (ctx, sub), w1)"
    and "inbound (ae_api env) (sb_handle sub) inq" "msg_api_ok (ae_api env)"
    and "metric_messages env msgs" "inq w1 = queued msgs @ rest" "msgs \<noteq> []"
  shows "\<exists>tr' st' w'. analytics_main env e (tr, st, w) =
        analytics_loop env \<lparr>os_path = path, os_open = True\<rparr> sub (tr @ tr', (st', w'))
    \<and> inq w' = rest \<and> fs_buf st' = [] \<and> (\<forall>q. q \<noteq> path \<longrightarrow> fs_files st' q = fs_files st q)
    \<and> file_content (fs_files st') path = file_content (fs_files st) path
        @ (if file_content (fs_files st) path = [] then csv_header else []) @ concat (map (metric_row \<circ> snd) msgs)"
proof -
  let ?os = "\<lparr>os_path = path, os_open = True\<rparr>"
  let ?st1 = "\<lparr>fs_files = (fs_files st)(path \<mapsto> file_content (fs_files st) path),
    fs_buf = if file_content (fs_files st) path = [] then csv_header else []\<rparr>"
  let ?start = "[Out (''Analytics logging started. Subscribed to '' @ addr @ '' and saving to '' @ path @ ''...'')]"
  have "st = \<lparr>fs_files = fs_files st, fs_buf = []\<rparr>" using assms(3) by (cases st) simp
  then have csv: "open_csv env path st = (?os, ?st1)" using open_csv_fresh [OF assms(6), of "fs_files st"] by simp
  have get: "analytics_GetEnv e' k d = GetEnv e' k d" for k d
    using assms(2) by (intro analytics_GetEnv_eq) blast
  have env: "rbind (analytics_LoadDotEnv (fs_files st) ''../.env'' e)
      (analytics_LoadDotEnv (fs_files st) ''analytics/.env'') = Inr e'"
    by (simp add: analytics_LoadDotEnv_eq assms(1))
  have "analytics_main env e (tr, st, w) = analytics_loop env ?os sub (tr @ ?start, ?st1, w1)"
    by (simp only: analytics_main_def prod.case env sum.case get assms(4,5,7) [symmetric])
      (simp only: Let_def assms(7) csv prod.case sum.case)
  moreover obtain w' where run: "analytics_iters env ?os sub (length msgs) (tr @ ?start, ?st1, w1) =
      (Inr (), ((tr @ ?start) @ map (\<lambda>(_, m). Out (log_message m)) msgs, (fold (\<lambda>(_, m). logged ?os m) msgs ?st1, w')))"
    "inq w' = rest"
    using analytics_iters_run [OF assms(8-11)] by blast
  ultimately show ?thesis
    using analytics_loop_iters [OF run(1)] run(2) logged_fold [of ?os msgs ?st1] assms(12)
    by (intro exI [of _ "?start @ map (\<lambda>(_, m). Out (log_message m)) msgs"]
        exI [of _ "fold (\<lambda>(_, m). logged ?os m) msgs ?st1"] exI [of _ w'])
      (simp add: map_metric_row_snd map_map [symmetric] del: map_map)
qed

text \<open>The text the file should have: nothing, or the header and one row per metric.\<close>

definition csv_text :: "metric list \<Rightarrow> string" where
  "csv_text ms = (if ms = [] then [] else csv_header @ concat (map metric_row ms))"

lemma csv_header_nonempty: "csv_header \<noteq> []"
  by (simp add: csv_header_def)

lemma csv_text_append:
  "csv_text ms @ (if csv_text ms = [] then csv_header else []) @ concat (map metric_row ms')
     = (if ms' = [] then csv_text ms @ (if csv_text ms = [] then csv_header else []) else csv_text (ms @ ms'))"
  using csv_header_nonempty by (simp add: csv_text_def)

lemma csv_runs_content:
  assumes "csv_runs env path subs inq fs runs fs'"
    and "\<And>sub. sub \<in> subs \<Longrightarrow> inbound (ae_api env) (sb_handle sub) inq" "msg_api_ok (ae_api env)" "ae_can_open env path"
    and "file_content fs path = []"
  shows "file_content fs' path = csv_text (concat runs) \<and> (\<forall>q. q \<noteq> path \<longrightarrow> fs' q = fs q)"
  using assms(1)
proof induction
  case csv_no_run
  with assms(5) show ?case by (simp add: csv_text_def)
next
  case (csv_run runs fs1 os st sub msgs w rest tr tr' st' w')
  have os: "os = \<lparr>os_path = path, os_open = True\<rparr>" and st: "fs_files st = fs1(path \<mapsto> file_content fs1 path)"
    "fs_buf st = (if file_content fs1 path = [] then csv_header else [])"
    using csv_run.hyps(2) open_csv_fresh [OF assms(4), of fs1] by auto
  have "st' = fold (\<lambda>(_, m). logged os m) msgs st"
    using csv_run.hyps(6) analytics_iters_run [OF assms(2) [OF csv_run.hyps(3)] assms(3) csv_run.hyps(4,5), of os tr st] by auto
  moreover have "msgs \<noteq> [] \<Longrightarrow> fs_files (fold (\<lambda>(_, m). logged os m) msgs st) =
      (fs_files st)(path \<mapsto> file_content (fs_files st) path @ fs_buf st @ concat (map metric_row (map snd msgs)))"
    using logged_fold [of os msgs st] by (simp add: os map_metric_row_snd del: fun_upd_apply map_map)
  ultimately have "fs_files st' = (if msgs = [] then fs_files st
      else (fs_files st)(path \<mapsto> file_content (fs_files st) path @ fs_buf st @ concat (map metric_row (map snd msgs))))"
    by (cases "msgs = []") (simp_all del: fun_upd_apply map_map)
  then have c: "file_content (fs_files st') path = (if msgs = [] then file_content fs1 path
      else file_content fs1 path @ fs_buf st @ concat (map metric_row (map snd msgs)))"
    and q: "\<And>q. q \<noteq> path \<Longrightarrow> fs_files st' q = fs1 q"
    unfolding st(1) by (simp_all del: map_map)
  from csv_run.IH have IH: "file_content fs1 path = csv_text (concat runs)" "\<And>q. q \<noteq> path \<Longrightarrow> fs1 q = fs q"
    by blast+
  have "file_content (fs_files st') path = csv_text (concat (runs @ [map snd msgs]))"
  proof (cases "msgs = []")
    case True
    with c IH(1) show ?thesis by simp
  next
    case False
    with c IH(1) st(2) have "file_content (fs_files st') path =
        csv_text (concat runs) @ (if csv_text (concat runs) = [] then csv_header else [])
          @ concat (map metric_row (map snd msgs))" by (simp del: map_map)
    also have "\<dots> = csv_text (concat runs @ map snd msgs)"
      using False csv_text_append [of "concat runs" "map snd msgs"] by simp
    finally show ?thesis by simp
  qed
  moreover have "\<forall>q. q \<noteq> path \<longrightarrow> fs_files st' q = fs q" using q IH(2) by simp
  ultimately show ?case by (rule conjI)
qed

text \<open>
  C32. One header, whatever the restarts. Starting without the file or with an empty one, after any
  sequence of runs of the logger, each stopped after any number of metrics, the file is empty if no
  metric was logged at all, and otherwise the header line, exactly once and at the start, followed by
  the rows of all runs in order; no other file has changed.
\<close>

theorem analytics_header_once:
  assumes "csv_runs env path subs inq fs runs fs'"
    and "\<And>sub. sub \<in> subs \<Longrightarrow> inbound (ae_api env) (sb_handle sub) inq" "msg_api_ok (ae_api env)" "ae_can_open env path"
    and "file_content fs path = []"
  shows "file_content fs' path =
      (if concat runs = [] then [] else csv_header @ concat (map metric_row (concat runs)))
    \<and> (\<forall>q. q \<noteq> path \<longrightarrow> fs' q = fs q)"
  using csv_runs_content [OF assms] unfolding csv_text_def .

section \<open>Reading the file back\<close>

fun split_commas :: "string \<Rightarrow> string \<Rightarrow> string list" where
  "split_commas acc [] = [rev acc]"
| "split_commas acc (c # cs) =
     (if c = CHR '','' then rev acc # split_commas [] cs else split_commas (c # acc) cs)"

definition read_row :: "string \<Rightarrow> (string \<times> string \<times> string \<times> int) option" where
  "read_row s = (case split_commas [] s of [oid, status, d, t] \<Rightarrow> Some (oid, status, d, read_int t) | _ \<Rightarrow> None)"

definition plain_field :: "string \<Rightarrow> bool" where
  "plain_field s \<longleftrightarrow> CHR '','' \<notin> set s \<and> CHR 0x0A \<notin> set s"

definition plain_metric :: "metric \<Rightarrow> bool" where
  "plain_metric = (\<lambda>(oid, status, d, t). plain_field oid \<and> plain_field status)"

lemma split_commas_field: "CHR '','' \<notin> set f \<Longrightarrow> split_commas acc (f @ CHR '','' # s) = (rev acc @ f) # split_commas [] s"
  by (induction f arbitrary: acc) auto

lemma split_commas_last: "CHR '','' \<notin> set f \<Longrightarrow> split_commas acc f = [rev acc @ f]"
  by (induction f arbitrary: acc) auto

lemma plain_show_double: "plain_field (show_double x)"
  using set_show_double [of x] by (auto simp: plain_field_def double_chars_def digits_def)

lemma plain_show_i64: "plain_field (show_i64 t)"
  using set_show_int [of "sint t"] by (auto simp: plain_field_def show_i64_def digits_def)

lemma read_metric_line:
  assumes "plain_metric (oid, status, d, t)"
  shows "read_row (metric_line (oid, status, d, t)) = Some (oid, status, show_double d, sint t)"
proof -
  have f: "CHR '','' \<notin> set oid" "CHR '','' \<notin> set status" "CHR '','' \<notin> set (show_double d)"
    "CHR '','' \<notin> set (show_i64 t)"
    using assms plain_show_double [of d] plain_show_i64 [of t] by (auto simp: plain_metric_def plain_field_def)
  have "split_commas [] (metric_line (oid, status, d, t)) = [oid, status, show_double d, show_i64 t]"
    using split_commas_field [OF f(1), of "[]"] split_commas_field [OF f(2), of "[]"]
      split_commas_field [OF f(3), of "[]"] split_commas_last [OF f(4), of "[]"]
    by (simp add: metric_line_def)
  then show ?thesis by (simp add: read_row_def show_i64_def read_show_int)
qed

lemma plain_metric_line:
  assumes "plain_metric m"
  shows "CHR 0x0A \<notin> set (metric_line m)"
proof -
  obtain oid status d t where m: "m = (oid, status, d, t)" by (cases m)
  with assms show ?thesis
    using plain_show_double [of d] plain_show_i64 [of t]
    by (auto simp: plain_metric_def plain_field_def metric_line_def)
qed

lemma getlines_rows:
  "list_all plain_metric ms \<Longrightarrow> getlines (concat (map metric_row ms)) = map metric_line ms"
proof (induction ms)
  case (Cons m ms)
  then show ?case
    using getlines_line [OF plain_metric_line, of m "concat (map metric_row ms)"]
    by (simp add: metric_row_def [of m])
qed (simp add: getlines_def)

lemma getlines_csv:
  "ms \<noteq> [] \<Longrightarrow> list_all plain_metric ms \<Longrightarrow>
     getlines (csv_text ms) = ''order_id,status,duration_seconds,timestamp'' # map metric_line ms"
  using getlines_line [of "''order_id,status,duration_seconds,timestamp''" "concat (map metric_row ms)"]
  by (simp add: csv_text_def csv_header_def getlines_rows)

text \<open>
  C33. The file can be read back. After any runs that logged at least one metric, if no identifier or
  status contains a comma or a line end, the first line of the file is the header and splitting every
  other line at its commas gives, in order, each metric's identifier, status, printed duration and its
  exact (signed) timestamp.
\<close>

theorem csv_readable:
  assumes "csv_runs env path subs inq fs runs fs'"
    and "\<And>sub. sub \<in> subs \<Longrightarrow> inbound (ae_api env) (sb_handle sub) inq" "msg_api_ok (ae_api env)" "ae_can_open env path"
    and "file_content fs path = []" "concat runs \<noteq> []" "list_all plain_metric (concat runs)"
  shows "hd (getlines (file_content fs' path)) = ''order_id,status,duration_seconds,timestamp''
    \<and> map read_row (tl (getlines (file_content fs' path))) =
        map (\<lambda>(oid, status, d, t). Some (oid, status, show_double d, sint t)) (concat runs)"
proof -
  have "list_all plain_metric ms \<Longrightarrow> map read_row (map metric_line ms) =
      map (\<lambda>(oid, status, d, t). Some (oid, status, show_double d, sint t)) ms" for ms
    by (induction ms) (auto simp: read_metric_line)
  with csv_runs_content [OF assms(1-5)] getlines_csv [OF assms(6,7)] assms(7) show ?thesis by simp
qed

section \<open>An example\<close>

text \<open>The message [1] is a metric of 2.5 seconds, every other message one without a status.\<close>

definition demo_metric_objs :: "lb_object list" where
  "demo_metric_objs = [LString ''o1'', LString ''DONE'',
     LTable [(4, FOffset 1), (6, FOffset 2), (8, F64 0x4004000000000000), (10, F64 5)], LTable [(4, FOffset 1)]]"

definition demo_analytics :: "(lmsg, lib_state, unit, list_builder) analytics_env" where
  "demo_analytics = \<lparr>ae_api = list_sock_api,
     ae_rt = list_runtime (\<lambda>bs. (demo_metric_objs, if bs = [1] then 3 else 4)) (\<lambda>_. []), ae_can_open = (\<lambda>_. True)\<rparr>"

definition demo_metric :: metric where
  "demo_metric = (''o1'', ''DONE'', 0x4004000000000000, 5)"

definition demo_queue :: "byte \<Rightarrow> lib_state" where
  "demo_queue b = lib_start\<lparr>lib_in := [([b], False)]\<rparr>"

lemmas demo_metric_simps = demo_analytics_def list_runtime_def demo_metric_objs_def ob_pointer_def ob_field_def
  ob_string_def ob_f64_def objs_map_def metric_read_def GetOrderMetric_def metric_order_id_def metric_status_def
  metric_duration_seconds_def metric_timestamp_def metric_vt read_opt_def

lemma demo_metric_read: "metric_read (ae_rt demo_analytics) [1] = Inr (metric_content demo_metric)"
  by (simp add: demo_metric_simps metric_content_def demo_metric_def)

lemma demo_metric_null: "metric_read (ae_rt demo_analytics) [2] = Inr (Some ''o1'', None, 0, 0)"
  by (simp add: demo_metric_simps)

lemma demo_analytics_lib:
  "inbound (ae_api demo_analytics) h lib_in" "msg_api_ok (ae_api demo_analytics)"
  "ae_can_open demo_analytics path"
  using list_inbound list_sock_msg_ok by (simp_all add: demo_analytics_def)

lemma demo_messages: "metric_messages demo_analytics [([1], demo_metric)]"
  by (simp add: metric_messages_def demo_metric_read)

definition demo_csv :: ofstream where
  "demo_csv = \<lparr>os_path = ''latency_data.csv'', os_open = True\<rparr>"

theorem analytics_null_metric_witness:
  "\<exists>st' w'. analytics_loop demo_analytics demo_csv \<lparr>sb_handle = 1, sb_ctxptr = 1\<rparr>
      ([], (\<lparr>fs_files = Map.empty, fs_buf = []\<rparr>, demo_queue 2)) = Some (UB ''null'', [], (st', w'))
    \<and> fs_files st' = Map.empty"
proof -
  have n: "\<nexists>m. (Some ''o1'', None, 0, 0) = metric_content m" by (auto simp: metric_content_def)
  have q: "lib_in (demo_queue 2) = ([2], False) # []" by (simp add: demo_queue_def)
  from analytics_null_metric [OF demo_analytics_lib(1,2) demo_metric_null n q, of demo_csv
      "\<lparr>sb_handle = 1, sb_ctxptr = 1\<rparr>" "[]" "\<lparr>fs_files = Map.empty, fs_buf = []\<rparr>"]
  show ?thesis by simp
qed

lemma demo_run:
  assumes "csv_runs demo_analytics path {socket_t_default} lib_in fs runs fs1"
  shows "\<exists>fs2. csv_runs demo_analytics path {socket_t_default} lib_in fs (runs @ [[demo_metric]]) fs2"
proof -
  have q: "lib_in (demo_queue 1) = queued [([1], demo_metric)] @ []" by (simp add: demo_queue_def queued_def)
  obtain os st where o: "open_csv demo_analytics path \<lparr>fs_files = fs1, fs_buf = []\<rparr> = (os, st)" by (metis surj_pair)
  obtain tr' st' w' where "analytics_iters demo_analytics os socket_t_default (length [([1 :: byte], demo_metric)])
      ([], (st, demo_queue 1)) = (Inr (), (tr', (st', w')))"
    using analytics_iters_run [OF demo_analytics_lib(1,2) demo_messages q, of os socket_t_default "[]" st]
    by blast
  from csv_run [OF assms o _ demo_messages q this] show ?thesis by auto
qed

lemma demo_two_runs:
  "\<exists>fs'. csv_runs demo_analytics ''latency_data.csv'' {socket_t_default} lib_in Map.empty [[demo_metric], [demo_metric]] fs'"
  using demo_run [OF csv_no_run] demo_run by fastforce

theorem analytics_header_once_witness:
  "\<exists>fs'. csv_runs demo_analytics ''latency_data.csv'' {socket_t_default} lib_in Map.empty [[demo_metric], [demo_metric]] fs'
    \<and> file_content fs' ''latency_data.csv'' = csv_header @ metric_row demo_metric @ metric_row demo_metric"
proof -
  obtain fs' where r: "csv_runs demo_analytics ''latency_data.csv'' {socket_t_default} lib_in Map.empty [[demo_metric], [demo_metric]] fs'"
    using demo_two_runs ..
  have "file_content Map.empty ''latency_data.csv'' = []" by (simp add: file_content_def)
  from analytics_header_once [OF r demo_analytics_lib this] r show ?thesis by auto
qed

theorem csv_readable_witness:
  "\<exists>fs'. csv_runs demo_analytics ''latency_data.csv'' {socket_t_default} lib_in Map.empty [[demo_metric], [demo_metric]] fs'
    \<and> map read_row (tl (getlines (file_content fs' ''latency_data.csv''))) =
        replicate 2 (Some (''o1'', ''DONE'', show_double 0x4004000000000000, 5))"
proof -
  obtain fs' where r: "csv_runs demo_analytics ''latency_data.csv'' {socket_t_default} lib_in Map.empty [[demo_metric], [demo_metric]] fs'"
    using demo_two_runs ..
  have e: "file_content Map.empty ''latency_data.csv'' = []" by (simp add: file_content_def)
  have n: "concat [[demo_metric], [demo_metric]] \<noteq> []" by simp
  have p: "list_all plain_metric (concat [[demo_metric], [demo_metric]])"
    by (simp add: plain_metric_def demo_metric_def plain_field_def)
  from csv_readable [OF r demo_analytics_lib e n p] r show ?thesis
    by (auto simp: demo_metric_def numeral_2_eq_2)
qed

theorem analytics_main_logs_witness:
  "\<exists>tr' st' w'. analytics_main demo_analytics Map.empty ([], \<lparr>fs_files = Map.empty, fs_buf = []\<rparr>, demo_queue 1) =
        analytics_loop demo_analytics demo_csv \<lparr>sb_handle = 1, sb_ctxptr = 1\<rparr> (tr', (st', w'))
    \<and> file_content (fs_files st') ''latency_data.csv'' = csv_header @ metric_row demo_metric"
proof -
  let ?st = "\<lparr>fs_files = Map.empty, fs_buf = []\<rparr>"
  have env: "Map.empty = LoadDotEnv (fs_files ?st) ''analytics/.env'' (LoadDotEnv (fs_files ?st) ''../.env'' Map.empty)"
    by (simp add: LoadDotEnv_def)
  have none: "\<And>k v. Map.empty k = Some v \<Longrightarrow> CHR 0x00 \<notin> set v" "fs_buf ?st = []" by simp_all
  have get: "''tcp://127.0.0.1:5557'' = GetEnv Map.empty ''ANALYTICS_ZMQ_SUB_ADDR'' ''tcp://127.0.0.1:5557''"
    "''latency_data.csv'' = GetEnv Map.empty ''ANALYTICS_OUTPUT_CSV'' ''latency_data.csv''"
    by (simp_all add: GetEnv_def)
  obtain ctx w1 where sub: "open_subscriber (ae_api demo_analytics) ''tcp://127.0.0.1:5557'' (demo_queue 1)
      = (Inr (ctx, \<lparr>sb_handle = 1, sb_ctxptr = 1\<rparr>), w1)" "lib_in w1 = queued [([1], demo_metric)] @ []"
    by (simp add: demo_queue_def queued_def demo_analytics_def open_subscriber_def context_threads_def
        socket_t_ctor_def socket_t_int_def sock_connect_def sock_set_cstr_def set_option_def check_zero_def
        context_handle_def bnd_def call_def list_sock_api_simps lib_socket_def lib_start_def)
  from analytics_main_logs [OF env none get demo_analytics_lib(3) sub(1) demo_analytics_lib(1,2) demo_messages sub(2), where tr = "[]"]
  show ?thesis by (auto simp: demo_csv_def file_content_def)
qed

end
