(* ===== verification/ByteRuntime.thy ===== *)
theory ByteRuntime
  imports Flatbuffers "HOL-Library.Countable"
begin

text \<open>
  A FlatBuffers runtime whose buffers are bytes, for the examples in which a message is built, sent and
  read: the objects of a builder are encoded as one number, the length of the buffer.
\<close>

instance fb_value :: countable
  by countable_datatype

instance lb_object :: countable
  by countable_datatype

definition byte_buffer :: "list_builder \<Rightarrow> byte list" where
  "byte_buffer f = replicate (to_nat (lb_objs f, lb_root f)) 0"

definition byte_view :: "byte list \<Rightarrow> lb_object list \<times> nat" where
  "byte_view bs = from_nat (length bs)"

lemma byte_view_buffer [simp]: "byte_view (byte_buffer f) = (lb_objs f, lb_root f)"
  by (simp add: byte_view_def byte_buffer_def)

definition byte_runtime :: "(byte list, unit, list_builder) fb_runtime" where
  "byte_runtime = list_runtime byte_view byte_buffer"

lemma byte_runtime_ok:
  "builder_ok byte_runtime (list_ghost byte_view)" "finish_ok byte_runtime (list_ghost byte_view)"
  unfolding byte_runtime_def by (rule list_builder_ok, rule list_finish_ok) simp

end
