(* ===== verification/PubSubNet.thy ===== *)
theory PubSubNet
  imports ZmqMultipart
begin

text \<open>
  What libzmq documents for publishing and subscribing sockets, as an abstract network that the state of
  the library is seen as: the open sockets, the frames that wait at each socket, the parts of the message
  each socket has begun to send, and the subscriptions of each socket. The programs with several threads
  rest on it.
\<close>

section \<open>The abstract network\<close>

record net =
  n_open :: "ptr set"
  n_inq :: "ptr \<Rightarrow> (byte list \<times> bool) list"
  n_part :: "ptr \<Rightarrow> byte list list"
  n_topics :: "ptr \<Rightarrow> byte list list"

definition set_inq :: "ptr \<Rightarrow> (byte list \<times> bool) list \<Rightarrow> net \<Rightarrow> net" where
  "set_inq h q n = n\<lparr>n_inq := (n_inq n)(h := q)\<rparr>"

definition open_socket :: "ptr \<Rightarrow> net \<Rightarrow> net" where
  "open_socket h n = n\<lparr>n_open := insert h (n_open n), n_inq := (n_inq n)(h := []),
     n_part := (n_part n)(h := []), n_topics := (n_topics n)(h := [])\<rparr>"

definition close_socket :: "ptr \<Rightarrow> net \<Rightarrow> net" where
  "close_socket h n = n\<lparr>n_open := n_open n - {h}\<rparr>"

definition subscribe :: "ptr \<Rightarrow> byte list \<Rightarrow> net \<Rightarrow> net" where
  "subscribe h topic n = n\<lparr>n_topics := (n_topics n)(h := topic # n_topics n h)\<rparr>"

definition set_part :: "ptr \<Rightarrow> byte list list \<Rightarrow> net \<Rightarrow> net" where
  "set_part h ps n = n\<lparr>n_part := (n_part n)(h := ps)\<rparr>"

lemmas net_defs = set_inq_def open_socket_def close_socket_def subscribe_def set_part_def

text \<open>A message matches a socket with a subscription that its first part starts with.\<close>

definition matches :: "net \<Rightarrow> ptr \<Rightarrow> byte list list \<Rightarrow> bool" where
  "matches n h msg \<longleftrightarrow> (\<exists>t \<in> set (n_topics n h). take (length t) (hd msg) = t)"

text \<open>
  Publishing a whole message: each socket gets all of its frames or none; one that does not match gets
  none (and one that matches can lose it, when its queue is full or it is not yet connected).
\<close>

definition publish :: "byte list list \<Rightarrow> net \<Rightarrow> net \<Rightarrow> bool" where
  "publish msg n n' \<longleftrightarrow> (\<exists>q. n' = n\<lparr>n_inq := q\<rparr>
     \<and> (\<forall>h. q h = n_inq n h \<or> q h = n_inq n h @ wire msg \<and> matches n h msg))"

section \<open>The library\<close>

definition pubsub_lib :: "('m, 'w, 'x) sock_api_scheme \<Rightarrow> ('w \<Rightarrow> net) \<Rightarrow> bool" where
  "pubsub_lib api view \<longleftrightarrow>
     (\<forall>w rc m w'. zmq_msg_init api w = ((rc, m), w') \<longrightarrow> view w' = view w)
   \<and> (\<forall>c t w h w'. zmq_socket api c t w = (h, w') \<longrightarrow>
        (if h = 0 then view w' = view w else h \<notin> n_open (view w) \<and> view w' = open_socket h (view w)))
   \<and> (\<forall>h w rc w'. zmq_close api h w = (rc, w') \<longrightarrow> h \<in> n_open (view w) \<longrightarrow>
        rc = 0 \<and> view w' = close_socket h (view w))
   \<and> (\<forall>h a w. view (snd (zmq_bind api h a w)) = view w)
   \<and> (\<forall>h a w. view (snd (zmq_connect api h a w)) = view w)
   \<and> (\<forall>h t w rc w'. zmq_setsockopt api h (aopt_num api AO_subscribe) t w = (rc, w') \<longrightarrow>
        view w' = (if rc = 0 then subscribe h t (view w) else view w))
   \<and> (\<forall>h m fl w bs mo rest. n_inq (view w) h = (bs, mo) # rest \<longrightarrow>
        (\<exists>m' w'. zmq_msg_recv api h m fl w = ((int (length bs), m'), w') \<and> zmq_msg_data api m' = bs
           \<and> (zmq_msg_more api m' \<noteq> 0 \<longleftrightarrow> mo) \<and> view w' = set_inq h rest (view w)))
   \<and> (\<forall>h m fl w. n_inq (view w) h = [] \<longrightarrow> view (snd (zmq_msg_recv api h m fl w)) = view w)
   \<and> (\<forall>h bs fl w rc w'. zmq_send api h bs fl w = (rc, w') \<longrightarrow>
        (if rc < 0 then zmq_errno api w' \<noteq> EAGAIN api \<and> view w' = view w
         else if fl AND ZMQ_SNDMORE api \<noteq> 0 then view w' = set_part h (n_part (view w) h @ [bs]) (view w)
         else publish (n_part (view w) h @ [bs]) (set_part h [] (view w)) (view w')))
   \<and> ZMQ_SNDMORE api \<noteq> 0"

lemma pubsub_init: "pubsub_lib api view \<Longrightarrow> zmq_msg_init api w = ((rc, m), w') \<Longrightarrow> view w' = view w"
  by (simp add: pubsub_lib_def)

lemma pubsub_recv:
  "pubsub_lib api view \<Longrightarrow> n_inq (view w) h = (bs, mo) # rest \<Longrightarrow>
     \<exists>m' w'. zmq_msg_recv api h m fl w = ((int (length bs), m'), w') \<and> zmq_msg_data api m' = bs
       \<and> (zmq_msg_more api m' \<noteq> 0 \<longleftrightarrow> mo) \<and> view w' = set_inq h rest (view w)"
  unfolding pubsub_lib_def by blast

lemma pubsub_recv_none:
  "pubsub_lib api view \<Longrightarrow> n_inq (view w) h = [] \<Longrightarrow> view (snd (zmq_msg_recv api h m fl w)) = view w"
  unfolding pubsub_lib_def by blast

lemma pubsub_inbound: "pubsub_lib api view \<Longrightarrow> inbound api h (\<lambda>w. n_inq (view w) h)"
  unfolding inbound_def
  by (intro conjI allI impI) (metis pubsub_init, drule (1) pubsub_recv, fastforce simp: set_inq_def)

lemma set_inq_simps [simp]:
  "set_inq h (n_inq n h) n = n"
  "set_inq h q (set_inq h q' n) = set_inq h q n"
  "n_inq (set_inq h q n) h = q"
  by (simp_all add: set_inq_def)

text \<open>Receiving changes nothing but the frames that wait at the socket.\<close>

definition only_inq :: "ptr \<Rightarrow> net \<Rightarrow> net \<Rightarrow> bool" where
  "only_inq h n n' \<longleftrightarrow> n' = set_inq h (n_inq n' h) n"

lemma only_inq_refl [simp]: "only_inq h n n"
  by (simp add: only_inq_def)

lemma only_inq_trans [trans]: "only_inq h n n' \<Longrightarrow> only_inq h n' n'' \<Longrightarrow> only_inq h n n''"
  unfolding only_inq_def by (metis set_inq_simps(2))

lemma only_inq_set_inq [simp]: "only_inq h n (set_inq h q n)"
  by (simp add: only_inq_def)

lemma only_inq_recv:
  assumes "pubsub_lib api view"
  shows "only_inq h (view w) (view (snd (zmq_msg_recv api h m fl w)))"
proof (cases "n_inq (view w) h")
  case Nil
  with pubsub_recv_none [OF assms] show ?thesis by simp
next
  case (Cons fr rest)
  then obtain bs mo where "n_inq (view w) h = (bs, mo) # rest" by (cases fr) auto
  with pubsub_recv [OF assms, of w h bs mo rest m fl] show ?thesis by auto
qed

lemma only_inq_sock_recv:
  assumes "pubsub_lib api view" "sock_recv api s fl (m, w) = (r, (m', w'))"
  shows "only_inq (sb_handle s) (view w) (view w')"
proof -
  obtain rc m1 w1 where z: "zmq_msg_recv api (sb_handle s) m fl w = ((rc, m1), w1)" by (metis surj_pair)
  have "w' = w1"
    using assms(2) z
    by (auto simp: sock_recv_def bnd_def on_this_def on_lib_def zmq_assert_def split: if_splits)
  with only_inq_recv [OF assms(1), of "sb_handle s" w m fl] z show ?thesis by simp
qed

lemma move_ctor_view:
  assumes "pubsub_lib api view" "message_move_ctor api (m, w) = (r, (m', w'))"
  shows "view w' = view w"
  using assms(2) pubsub_init [OF assms(1)]
  by (auto simp: message_move_ctor_def bnd_def on_this_def zmq_assert_def split: prod.splits if_splits)

lemma only_inq_recv_multipart_loop:
  "recv_multipart_loop api check_n s n fl cnt msg out w = Some y \<Longrightarrow> pubsub_lib api view \<longrightarrow>
    only_inq (sb_handle s) (view w) (view (snd (snd y)))"
proof (induction rule: recv_multipart_loop.raw_induct [rotated, consumes 1, case_names step])
  case (step loop api check_n s n fl cnt msg out w y)
  note run = step(2)
  show ?case
  proof (intro impI, cases "check_n \<and> n \<le> cnt")
    case True
    with run show "only_inq (sb_handle s) (view w) (view (snd (snd y)))" by auto
  next
    case go: False
    assume lib: "pubsub_lib api view"
    obtain r m1 w1 where r: "sock_recv api s fl (msg, w) = (r, (m1, w1))" by (metis surj_pair)
    note w1 = only_inq_sock_recv [OF lib r]
    obtain p m2 w2 where p: "message_move_ctor api (m1, w1) = (p, (m2, w2))" by (metis surj_pair)
    note w2 = move_ctor_view [OF lib p]
    show "only_inq (sb_handle s) (view w) (view (snd (snd y)))"
    proof (cases "\<exists>n part. r = Inr (Some n) \<and> p = Inr part \<and> message_more api m1")
      case True
      then obtain part where "loop api check_n s n fl (Suc cnt) m2 (out @ [part]) w2 = Some y"
        using run r p go by auto
      from step(1) [OF this] lib have "only_inq (sb_handle s) (view w2) (view (snd (snd y)))" by simp
      with w1 w2 show ?thesis by (simp add: only_inq_trans)
    next
      case False
      with run r p go w1 w2 show ?thesis
        by (auto split: if_splits sum.splits option.splits)
    qed
  qed
qed

text \<open>
  A whole message that waits at a socket is received by \<open>recv_multipart\<close>, and the network is otherwise
  as before.
\<close>

lemma recv_multipart_net:
  fixes s :: socket_ref
  assumes "pubsub_lib api view" "msg_api_ok api" "ps \<noteq> []" "n_inq (view w) (sb_handle s) = wire ps @ rest"
  shows "\<exists>ms w'. recv_multipart api s fl (out, w) = Some (Inr (Some (length ps)), out @ ms, w')
    \<and> map (message_data api) ms = ps \<and> view w' = set_inq (sb_handle s) rest (view w)"
proof -
  let ?h = "sb_handle s"
  obtain rc m w1 where i: "zmq_msg_init api w = ((rc, m), w1)" by (metis surj_pair)
  with msg_initD [OF assms(2) i] have d: "message_default api w = (Inr m, w1)"
    by (simp add: message_default_def bnd_def call_def)
  note w1 = pubsub_init [OF assms(1) i]
  obtain ms w' where run: "recv_multipart_loop api False s 0 fl 0 m out w1 = Some (Inr (Some (length ps)), out @ ms, w')"
    and ms: "map (message_data api) ms = ps" "n_inq (view w') ?h = rest"
    using recv_multipart_loop_wire [OF pubsub_inbound [OF assms(1)] assms(2,3), where s = s and w = w1
        and rest = rest and check_n = False and n = 0 and cnt = 0 and k = "length ps" and fl = fl and msg = m
        and out = out] assms(4) w1 by auto
  have "only_inq ?h (view w) (view w')"
    using only_inq_recv_multipart_loop [OF run, of view] assms(1) w1 by simp
  with ms(2) have "view w' = set_inq ?h rest (view w)" by (simp add: only_inq_def)
  with run ms(1) d show ?thesis by (simp add: recv_multipart_def detail_recv_multipart_n_def)
qed

section \<open>The operations of cppzmq on it\<close>

lemma check_zero_outcome:
  assumes "check_zero api f w = (r, w')"
  shows "r = Inr () \<and> fst (f w) = 0 \<and> w' = snd (f w)
    \<or> (\<exists>e. r = Inl (ErrorT e)) \<and> fst (f w) \<noteq> 0 \<and> w' = snd (f w)"
  using check_zero_cases [OF assms] by (auto split: if_splits)

lemma net_socket:
  assumes "pubsub_lib api view" "socket_t_ctor api c ty w = (r, w')"
  shows "(\<exists>s. r = Inr s \<and> sb_handle s \<noteq> 0 \<and> sb_handle s \<notin> n_open (view w) \<and> view w' = open_socket (sb_handle s) (view w))
    \<or> (\<exists>e. r = Inl (ErrorT e)) \<and> view w' = view w"
proof -
  obtain h w1 where z: "zmq_socket api (context_handle c) (socktype_num api ty) w = (h, w1)" by (metis surj_pair)
  with assms(1) have "if h = 0 then view w1 = view w else h \<notin> n_open (view w) \<and> view w1 = open_socket h (view w)"
    unfolding pubsub_lib_def by metis
  with z assms(2) show ?thesis
    by (auto simp: socket_t_ctor_def socket_t_int_def bnd_def call_def split: if_splits)
qed

lemma net_bind:
  assumes "pubsub_lib api view" "sock_bind api s a w = (r, w')"
  shows "view w' = view w \<and> (r = Inr () \<or> (\<exists>e. r = Inl (ErrorT e)))"
  using check_zero_outcome [OF assms(2) [unfolded sock_bind_def]] assms(1) by (auto simp: pubsub_lib_def)

lemma net_connect:
  assumes "pubsub_lib api view" "sock_connect api s a w = (r, w')"
  shows "view w' = view w \<and> (r = Inr () \<or> (\<exists>e. r = Inl (ErrorT e)))"
  using check_zero_outcome [OF assms(2) [unfolded sock_connect_def]] assms(1) by (auto simp: pubsub_lib_def)

lemma net_subscribe:
  assumes "pubsub_lib api view" "sock_set_cstr api s AO_subscribe topic w = (r, w')"
  shows "r = Inr () \<and> view w' = subscribe (sb_handle s) (bytes_of_string (c_string topic)) (view w)
    \<or> (\<exists>e. r = Inl (ErrorT e)) \<and> view w' = view w"
proof -
  obtain rc w1 where z: "zmq_setsockopt api (sb_handle s) (aopt_num api AO_subscribe)
      (bytes_of_string (c_string topic)) w = (rc, w1)" by (metis surj_pair)
  with assms(1) have "view w1 = (if rc = 0 then subscribe (sb_handle s) (bytes_of_string (c_string topic)) (view w)
      else view w)"
    unfolding pubsub_lib_def by metis
  with z check_zero_outcome [OF assms(2) [unfolded sock_set_cstr_def set_option_def]] show ?thesis by auto
qed

lemma net_send:
  assumes "pubsub_lib api view" "sock_send_buffer api s bs fl w = (r, w')"
  shows "(\<exists>k. r = Inr (Some k)) \<and>
      (if fl AND ZMQ_SNDMORE api \<noteq> 0
       then view w' = set_part (sb_handle s) (n_part (view w) (sb_handle s) @ [bs]) (view w)
       else publish (n_part (view w) (sb_handle s) @ [bs]) (set_part (sb_handle s) [] (view w)) (view w'))
    \<or> (\<exists>e. r = Inl (ErrorT e)) \<and> view w' = view w"
proof -
  obtain rc w1 where z: "zmq_send api (sb_handle s) bs fl w = (rc, w1)" by (metis surj_pair)
  with assms(1) have "if rc < 0 then zmq_errno api w1 \<noteq> EAGAIN api \<and> view w1 = view w
      else if fl AND ZMQ_SNDMORE api \<noteq> 0
      then view w1 = set_part (sb_handle s) (n_part (view w) (sb_handle s) @ [bs]) (view w)
      else publish (n_part (view w) (sb_handle s) @ [bs]) (set_part (sb_handle s) [] (view w)) (view w1)"
    unfolding pubsub_lib_def by metis
  with z assms(2) show ?thesis
    by (auto simp: sock_send_buffer_def bnd_def call_def io_result_def split: if_splits)
qed

lemma net_dtor:
  assumes "pubsub_lib api view" "sb_handle s \<in> n_open (view w)" "sb_handle s \<noteq> 0"
  shows "\<exists>s' w'. socket_t_dtor api (s, w) = (Inr (), (s', w')) \<and> view w' = close_socket (sb_handle s) (view w)"
proof -
  obtain rc w1 where z: "zmq_close api (sb_handle s) w = (rc, w1)" by (metis surj_pair)
  with assms(1,2) have "rc = 0" "view w1 = close_socket (sb_handle s) (view w)"
    unfolding pubsub_lib_def by metis+
  with z assms(3) show ?thesis
    by (simp add: socket_t_dtor_def socket_t_close_def bnd_def on_lib_def call_def)
qed

end
