(* ===== verification/PubSubExample.thy ===== *)
theory PubSubExample
  imports PubSubNet Programs
begin

text \<open>
  The multithreaded publisher and subscribers (\<open>examples/pubsub_multithread_inproc.cpp\<close> of cppzmq), the
  pattern that the broadcasts of the repository follow. A thread is a state machine that makes one library
  call (or receives one message) per step, on the state of the library and the output that all threads
  share; a step of the program is a step of any thread that is not blocked.
\<close>

section \<open>Threads\<close>

text \<open>
  A thread of \<open>std::async\<close>: an exception that leaves its function is kept in the future, after the local
  socket has been destroyed; a failed assertion or undefined behaviour ends the whole program.
\<close>

datatype 'pc thread = Not_started | Running 'pc | Finished exn

definition aborts :: "exn \<Rightarrow> bool" where
  "aborts e = (case e of AssertFail _ \<Rightarrow> True | UB _ \<Rightarrow> True | _ \<Rightarrow> False)"

type_synonym 'w shared = "unit event list \<times> 'w"

definition unwind ::
  "('m, 'w, 'x) sock_api_scheme \<Rightarrow> socket_t \<Rightarrow> exn \<Rightarrow> 'w shared \<Rightarrow> 'pc thread \<times> 'w shared" where
  "unwind api s e = (\<lambda>(tr, w).
     if aborts e then (Finished e, (tr, w))
     else case socket_t_dtor api (s, w) of
            (Inl e', (_, w')) \<Rightarrow> (Finished e', (tr, w'))
          | (Inr _, (_, w')) \<Rightarrow> (Finished e, (tr, w')))"

text \<open>A call of a thread that has its socket: it goes on to the next point, or ends.\<close>

definition thread_call ::
  "('m, 'w, 'x) sock_api_scheme \<Rightarrow> socket_t \<Rightarrow> ('w, 'a) comp \<Rightarrow> 'pc \<Rightarrow> 'w shared \<Rightarrow> 'pc thread \<times> 'w shared" where
  "thread_call api s f pc = (\<lambda>(tr, w).
     case f w of (Inl e, w') \<Rightarrow> unwind api s e (tr, w') | (Inr _, w') \<Rightarrow> (Running pc, (tr, w')))"

text \<open>The socket is the first local variable of each thread.\<close>

definition thread_socket ::
  "('m, 'w, 'x) sock_api_scheme \<Rightarrow> context_t \<Rightarrow> socket_type \<Rightarrow> (socket_t \<Rightarrow> 'pc) \<Rightarrow> 'w shared
     \<Rightarrow> 'pc thread \<times> 'w shared" where
  "thread_socket api ctx ty pc = (\<lambda>(tr, w).
     case socket_t_ctor api ctx ty w of
       (Inl e, w') \<Rightarrow> (Finished e, (tr, w'))
     | (Inr s, w') \<Rightarrow> (Running (pc s), (tr, w')))"

section \<open>The publisher\<close>

datatype pub_pc =
    Pub_start
  | Pub_bind socket_t
  | Pub_wait socket_t nat                        \<comment> \<open>a pause, before the next round of sends\<close>
  | Pub_send socket_t "(byte list \<times> flags) list"   \<comment> \<open>the sends that are left of the round\<close>

definition publisher_round :: "('m, 'w, 'x) sock_api_scheme \<Rightarrow> (byte list \<times> flags) list" where
  "publisher_round api =
     [(bytes_of_string ''A'', send_flags_sndmore api), (bytes_of_string ''Message in A envelope'', send_flags_none),
      (bytes_of_string ''B'', send_flags_sndmore api), (bytes_of_string ''Message in B envelope'', send_flags_none),
      (bytes_of_string ''C'', send_flags_sndmore api), (bytes_of_string ''Message in C envelope'', send_flags_none)]"

fun PublisherThread ::
  "('m, 'w, 'x) sock_api_scheme \<Rightarrow> context_t \<Rightarrow> pub_pc \<Rightarrow> 'w shared \<Rightarrow> pub_pc thread \<times> 'w shared" where
  "PublisherThread api ctx Pub_start st = thread_socket api ctx Sock_pub Pub_bind st"
| "PublisherThread api ctx (Pub_bind publisher) st =
     thread_call api publisher (sock_bind api publisher ''inproc://#1'') (Pub_wait publisher 20) st"
| "PublisherThread api ctx (Pub_wait publisher ms) (tr, w) =
     (Running (Pub_send publisher (publisher_round api)), (tr @ [Sleep ms], w))"
| "PublisherThread api ctx (Pub_send publisher []) st = (Running (Pub_wait publisher 100), st)"
| "PublisherThread api ctx (Pub_send publisher ((buf, fl) # rest)) st =
     thread_call api publisher (sock_send_buffer api publisher buf fl) (Pub_send publisher rest) st"

section \<open>The subscribers\<close>

datatype sub_pc =
    Sub_start
  | Sub_connect socket_t
  | Sub_topics socket_t "string list"   \<comment> \<open>the subscriptions that are left\<close>
  | Sub_recv socket_t

text \<open>
  The body of the receiving loop, up to the end of the iteration; \<open>None\<close> is a call that never returns.
\<close>

definition subscriber_loop_body ::
  "('m, 'w, 'x) sock_api_scheme \<Rightarrow> string \<Rightarrow> socket_t \<Rightarrow> 'w shared \<Rightarrow> (unit res \<times> 'w shared) option" where
  "subscriber_loop_body api name subscriber = (\<lambda>(tr, w).
     case recv_multipart api (socket_ref_of_socket subscriber) recv_flags_none ([], w) of
       None \<Rightarrow> None
     | Some (Inl e, _, w') \<Rightarrow> Some (Inl e, (tr, w'))
     | Some (Inr result, recv_msgs, w') \<Rightarrow>
         Some (bnd (zmq_assert (result \<noteq> None)) (\<lambda>_.
               bnd (lift_res (deref result)) (\<lambda>count.
               bnd (zmq_assert (count = 2)) (\<lambda>_.
               bnd (lift_res (mp_index recv_msgs 0)) (\<lambda>m0.
               bnd (lift_res (mp_index recv_msgs 1)) (\<lambda>m1.
               emit (Out (name @ '': ['' @ message_to_string api m0 @ ''] '' @ message_to_string api m1)))))))
               (tr, w')))"

fun subscriber_thread ::
  "('m, 'w, 'x) sock_api_scheme \<Rightarrow> string \<Rightarrow> string list \<Rightarrow> context_t \<Rightarrow> sub_pc \<Rightarrow> 'w shared
     \<Rightarrow> (sub_pc thread \<times> 'w shared) option" where
  "subscriber_thread api name topics ctx Sub_start st = Some (thread_socket api ctx Sock_sub Sub_connect st)"
| "subscriber_thread api name topics ctx (Sub_connect subscriber) st =
     Some (thread_call api subscriber (sock_connect api subscriber ''inproc://#1'') (Sub_topics subscriber topics) st)"
| "subscriber_thread api name topics ctx (Sub_topics subscriber []) st = Some (Running (Sub_recv subscriber), st)"
| "subscriber_thread api name topics ctx (Sub_topics subscriber (t # ts)) st =
     Some (thread_call api subscriber (sock_set_cstr api subscriber AO_subscribe t) (Sub_topics subscriber ts) st)"
| "subscriber_thread api name topics ctx (Sub_recv subscriber) st =
     (case subscriber_loop_body api name subscriber st of
        None \<Rightarrow> None
      | Some (Inl e, st') \<Rightarrow> Some (unwind api subscriber e st')
      | Some (Inr _, st') \<Rightarrow> Some (Running (Sub_recv subscriber), st'))"

definition SubscriberThread1 ::
  "('m, 'w, 'x) sock_api_scheme \<Rightarrow> context_t \<Rightarrow> sub_pc \<Rightarrow> 'w shared \<Rightarrow> (sub_pc thread \<times> 'w shared) option" where
  "SubscriberThread1 api = subscriber_thread api ''Thread2'' [''A'', ''B'']"

definition SubscriberThread2 ::
  "('m, 'w, 'x) sock_api_scheme \<Rightarrow> context_t \<Rightarrow> sub_pc \<Rightarrow> 'w shared \<Rightarrow> (sub_pc thread \<times> 'w shared) option" where
  "SubscriberThread2 api = subscriber_thread api ''Thread3'' ['''']"

section \<open>The program\<close>

text \<open>
  Where \<open>main\<close> is: the launches, the pause between them, the waits for the three futures, and the end, where
  the context is destroyed.
\<close>

datatype main_pc = Main_launch1 | Main_sleep | Main_launch2 | Main_launch3 | Main_wait1 | Main_wait2 | Main_wait3
  | Main_return | Main_done "unit res"

record 'w pubsub_sys =
  ps_ctx :: context_t
  ps_main :: main_pc
  ps_thread1 :: "pub_pc thread"
  ps_thread2 :: "sub_pc thread"
  ps_thread3 :: "sub_pc thread"
  ps_shared :: "'w shared"

definition finished :: "'pc thread \<Rightarrow> bool" where
  "finished t = (case t of Finished _ \<Rightarrow> True | _ \<Rightarrow> False)"

definition pubsub_start :: "('m, 'w, 'x) sock_api_scheme \<Rightarrow> 'w \<Rightarrow> exn + 'w pubsub_sys" where
  "pubsub_start api w =
     (case context_threads api 0 (ZMQ_MAX_SOCKETS_DFLT api) w of
        (Inl e, _) \<Rightarrow> Inl e
      | (Inr ctx, w') \<Rightarrow> Inr \<lparr>ps_ctx = ctx, ps_main = Main_launch1, ps_thread1 = Not_started,
          ps_thread2 = Not_started, ps_thread3 = Not_started, ps_shared = ([], w')\<rparr>)"

text \<open>A step of the main thread; \<open>None\<close> when it waits for a thread that runs, or has returned.\<close>

fun main_step ::
  "('m, 'w, 'x) sock_api_scheme \<Rightarrow> main_pc \<Rightarrow> 'w pubsub_sys \<Rightarrow> 'w pubsub_sys option" where
  "main_step api Main_launch1 sys = Some (sys\<lparr>ps_main := Main_sleep, ps_thread1 := Running Pub_start\<rparr>)"
| "main_step api Main_sleep sys =
     Some (sys\<lparr>ps_main := Main_launch2, ps_shared := (fst (ps_shared sys) @ [Sleep 10], snd (ps_shared sys))\<rparr>)"
| "main_step api Main_launch2 sys = Some (sys\<lparr>ps_main := Main_launch3, ps_thread2 := Running Sub_start\<rparr>)"
| "main_step api Main_launch3 sys = Some (sys\<lparr>ps_main := Main_wait1, ps_thread3 := Running Sub_start\<rparr>)"
| "main_step api Main_wait1 sys = (if finished (ps_thread1 sys) then Some (sys\<lparr>ps_main := Main_wait2\<rparr>) else None)"
| "main_step api Main_wait2 sys = (if finished (ps_thread2 sys) then Some (sys\<lparr>ps_main := Main_wait3\<rparr>) else None)"
| "main_step api Main_wait3 sys = (if finished (ps_thread3 sys) then Some (sys\<lparr>ps_main := Main_return\<rparr>) else None)"
| "main_step api Main_return sys =
     (case context_dtor api (ps_ctx sys, snd (ps_shared sys)) of
        None \<Rightarrow> None
      | Some (r, (ctx, w)) \<Rightarrow> Some (sys\<lparr>ps_ctx := ctx, ps_main := Main_done r, ps_shared := (fst (ps_shared sys), w)\<rparr>))"
| "main_step api (Main_done r) sys = None"

definition aborted :: "'pc thread \<Rightarrow> bool" where
  "aborted t = (case t of Finished e \<Rightarrow> aborts e | _ \<Rightarrow> False)"

definition sys_aborted :: "'w pubsub_sys \<Rightarrow> bool" where
  "sys_aborted sys \<longleftrightarrow> aborted (ps_thread1 sys) \<or> aborted (ps_thread2 sys) \<or> aborted (ps_thread3 sys)"

text \<open>A subscriber blocks in \<open>recv\<close> until a message waits at its socket (\<open>ready\<close>).\<close>

definition sub_enabled :: "(ptr \<Rightarrow> 'w \<Rightarrow> bool) \<Rightarrow> sub_pc \<Rightarrow> 'w shared \<Rightarrow> bool" where
  "sub_enabled ready pc st = (case pc of Sub_recv s \<Rightarrow> ready (sb_handle s) (snd st) | _ \<Rightarrow> True)"

datatype thread_id = Main_thread | Thread1 | Thread2 | Thread3

text \<open>One step of the thread that the scheduler chose, if it can run.\<close>

definition sys_step ::
  "('m, 'w, 'x) sock_api_scheme \<Rightarrow> (ptr \<Rightarrow> 'w \<Rightarrow> bool) \<Rightarrow> thread_id \<Rightarrow> 'w pubsub_sys \<Rightarrow> 'w pubsub_sys option" where
  "sys_step api ready tid sys =
     (if sys_aborted sys then None
      else case tid of
        Main_thread \<Rightarrow> main_step api (ps_main sys) sys
      | Thread1 \<Rightarrow>
          (case ps_thread1 sys of
             Running pc \<Rightarrow> (case PublisherThread api (ps_ctx sys) pc (ps_shared sys) of
                             (t, st) \<Rightarrow> Some (sys\<lparr>ps_thread1 := t, ps_shared := st\<rparr>))
           | _ \<Rightarrow> None)
      | Thread2 \<Rightarrow>
          (case ps_thread2 sys of
             Running pc \<Rightarrow>
               (if sub_enabled ready pc (ps_shared sys)
                then map_option (\<lambda>(t, st). sys\<lparr>ps_thread2 := t, ps_shared := st\<rparr>)
                       (SubscriberThread1 api (ps_ctx sys) pc (ps_shared sys))
                else None)
           | _ \<Rightarrow> None)
      | Thread3 \<Rightarrow>
          (case ps_thread3 sys of
             Running pc \<Rightarrow>
               (if sub_enabled ready pc (ps_shared sys)
                then map_option (\<lambda>(t, st). sys\<lparr>ps_thread3 := t, ps_shared := st\<rparr>)
                       (SubscriberThread2 api (ps_ctx sys) pc (ps_shared sys))
                else None)
           | _ \<Rightarrow> None))"

text \<open>The states that some schedule of the threads leads to.\<close>

inductive pubsub_reachable ::
  "('m, 'w, 'x) sock_api_scheme \<Rightarrow> (ptr \<Rightarrow> 'w \<Rightarrow> bool) \<Rightarrow> 'w \<Rightarrow> 'w pubsub_sys \<Rightarrow> bool"
  for api ready w where
  reach_start: "pubsub_start api w = Inr sys \<Longrightarrow> pubsub_reachable api ready w sys"
| reach_step: "pubsub_reachable api ready w sys \<Longrightarrow> sys_step api ready tid sys = Some sys'
    \<Longrightarrow> pubsub_reachable api ready w sys'"

end
