(* ===== verification/PubSubSafety.thy ===== *)
theory PubSubSafety
  imports PubSubExample
begin

text \<open>
  Safety of the multithreaded example, in every interleaving: the threads are verified one by one against
  what the others may do to their sockets (rely and guarantee), the contract being the locale \<open>guarded\<close>.
\<close>

section \<open>Rely and guarantee\<close>

text \<open>What the example publishes, and the lines a subscriber can print.\<close>

definition envelopes :: "(string \<times> string) list" where
  "envelopes = [(''A'', ''Message in A envelope''), (''B'', ''Message in B envelope''),
     (''C'', ''Message in C envelope'')]"

definition published :: "byte list list list" where
  "published = map (\<lambda>(e, c). [bytes_of_string e, bytes_of_string c]) envelopes"

definition subscriber_lines :: "string \<Rightarrow> string list \<Rightarrow> string set" where
  "subscriber_lines name topics = {name @ '': ['' @ e @ ''] '' @ c | e c. (e, c) \<in> set envelopes
     \<and> (\<exists>t \<in> set topics. take (length t) e = t)}"

text \<open>What a thread that owns the handles \<open>H\<close> may do to the sockets of the others.\<close>

definition others :: "ptr set \<Rightarrow> net \<Rightarrow> net \<Rightarrow> bool" where
  "others H v v' \<longleftrightarrow> (\<forall>h \<in> n_open v - H. h \<in> n_open v' \<and> n_topics v' h = n_topics v h \<and> n_part v' h = n_part v h
     \<and> (n_inq v' h = n_inq v h \<or> (\<exists>m \<in> set published. n_inq v' h = n_inq v h @ wire m \<and> matches v h m)))"

text \<open>
  A kind of thread: the handles it owns and what holds of it, which nothing that the others may do breaks.
\<close>

locale guarded =
  fixes handles :: "'t \<Rightarrow> ptr set" and inv :: "net \<Rightarrow> 't \<Rightarrow> bool"
  assumes owned: "inv v t \<Longrightarrow> handles t \<subseteq> n_open v"
    and stable: "inv v t \<Longrightarrow> others H v v' \<Longrightarrow> handles t \<inter> H = {} \<Longrightarrow> inv v' t"
begin

text \<open>A step of another thread keeps this one's state and the separation of their handles.\<close>

lemma step_other:
  assumes "inv v t" "others H v v'" "handles t \<inter> H = {}" "H' \<subseteq> H \<union> - n_open v"
  shows "inv v' t" "handles t \<inter> H' = {}"
  using stable [OF assms(1,2,3)] owned [OF assms(1)] assms(3,4) by auto

end

definition inbox_ok :: "string list \<Rightarrow> (byte list \<times> bool) list \<Rightarrow> bool" where
  "inbox_ok topics q \<longleftrightarrow> (\<exists>msgs. q = concat (map wire msgs)
     \<and> (\<forall>m \<in> set msgs. m \<in> set published \<and> (\<exists>t \<in> set topics. take (length t) (hd m) = bytes_of_string t)))"

definition sub_sock_ok :: "string list \<Rightarrow> net \<Rightarrow> ptr \<Rightarrow> bool" where
  "sub_sock_ok topics v h \<longleftrightarrow> h \<noteq> 0 \<and> h \<in> n_open v \<and> set (n_topics v h) \<subseteq> bytes_of_string ` set topics
     \<and> inbox_ok topics (n_inq v h)"

fun sub_pc_handles :: "sub_pc \<Rightarrow> ptr set" where
  "sub_pc_handles Sub_start = {}"
| "sub_pc_handles (Sub_connect s) = {sb_handle s}"
| "sub_pc_handles (Sub_topics s ts) = {sb_handle s}"
| "sub_pc_handles (Sub_recv s) = {sb_handle s}"

fun sub_pc_ok :: "string list \<Rightarrow> net \<Rightarrow> sub_pc \<Rightarrow> bool" where
  "sub_pc_ok topics v Sub_start = True"
| "sub_pc_ok topics v (Sub_connect s) = sub_sock_ok topics v (sb_handle s)"
| "sub_pc_ok topics v (Sub_topics s ts) = (sub_sock_ok topics v (sb_handle s) \<and> set ts \<subseteq> set topics)"
| "sub_pc_ok topics v (Sub_recv s) = sub_sock_ok topics v (sb_handle s)"

fun pub_pc_handles :: "pub_pc \<Rightarrow> ptr set" where
  "pub_pc_handles Pub_start = {}"
| "pub_pc_handles (Pub_bind s) = {sb_handle s}"
| "pub_pc_handles (Pub_wait s ms) = {sb_handle s}"
| "pub_pc_handles (Pub_send s rest) = {sb_handle s}"

definition pub_sock_ok :: "net \<Rightarrow> ptr \<Rightarrow> byte list list \<Rightarrow> bool" where
  "pub_sock_ok v h part \<longleftrightarrow> h \<noteq> 0 \<and> h \<in> n_open v \<and> n_part v h = part"

text \<open>
  The sends that are left: whole messages (envelope with \<open>ZMQ_SNDMORE\<close>, content without); or an envelope
  has been sent and waits for its content, which comes first.
\<close>

fun sends_ok :: "flags \<Rightarrow> (byte list \<times> flags) list \<Rightarrow> bool" where
  "sends_ok sndmore [] = True"
| "sends_ok sndmore [m] = False"
| "sends_ok sndmore ((e, f) # (c, g) # rest) =
     (f AND sndmore \<noteq> 0 \<and> g AND sndmore = 0 \<and> [e, c] \<in> set published \<and> sends_ok sndmore rest)"

definition pub_send_ok :: "flags \<Rightarrow> net \<Rightarrow> ptr \<Rightarrow> (byte list \<times> flags) list \<Rightarrow> bool" where
  "pub_send_ok sndmore v h rest \<longleftrightarrow> (pub_sock_ok v h [] \<and> sends_ok sndmore rest
     \<or> (\<exists>e c g rest'. rest = (c, g) # rest' \<and> pub_sock_ok v h [e] \<and> g AND sndmore = 0 \<and> [e, c] \<in> set published
          \<and> sends_ok sndmore rest'))"

fun pub_pc_ok :: "flags \<Rightarrow> net \<Rightarrow> pub_pc \<Rightarrow> bool" where
  "pub_pc_ok sndmore v Pub_start = True"
| "pub_pc_ok sndmore v (Pub_bind s) = pub_sock_ok v (sb_handle s) []"
| "pub_pc_ok sndmore v (Pub_wait s ms) = pub_sock_ok v (sb_handle s) []"
| "pub_pc_ok sndmore v (Pub_send s rest) = pub_send_ok sndmore v (sb_handle s) rest"

fun thread_handles :: "('pc \<Rightarrow> ptr set) \<Rightarrow> 'pc thread \<Rightarrow> ptr set" where
  "thread_handles hs Not_started = {}"
| "thread_handles hs (Running pc) = hs pc"
| "thread_handles hs (Finished e) = {}"

text \<open>A thread that has ended did so by an \<open>error_t\<close> of libzmq.\<close>

fun thread_ok :: "(net \<Rightarrow> 'pc \<Rightarrow> bool) \<Rightarrow> net \<Rightarrow> 'pc thread \<Rightarrow> bool" where
  "thread_ok ok v Not_started = True"
| "thread_ok ok v (Running pc) = ok v pc"
| "thread_ok ok v (Finished e) = (\<exists>n. e = ErrorT n)"

lemma inbox_ok_append:
  "inbox_ok topics q \<Longrightarrow> m \<in> set published \<Longrightarrow> \<exists>t \<in> set topics. take (length t) (hd m) = bytes_of_string t
    \<Longrightarrow> inbox_ok topics (q @ wire m)"
proof -
  assume "inbox_ok topics q" and m: "m \<in> set published" "\<exists>t \<in> set topics. take (length t) (hd m) = bytes_of_string t"
  then obtain msgs where "q = concat (map wire msgs)"
    "\<forall>m \<in> set msgs. m \<in> set published \<and> (\<exists>t \<in> set topics. take (length t) (hd m) = bytes_of_string t)"
    unfolding inbox_ok_def by blast
  with m show ?thesis unfolding inbox_ok_def by (intro exI [of _ "msgs @ [m]"]) auto
qed

lemma sub_sock_stable:
  assumes "sub_sock_ok topics v h" "others H v v'" "h \<notin> H"
  shows "sub_sock_ok topics v' h"
proof -
  from assms have o: "h \<in> n_open v'" "n_topics v' h = n_topics v h"
    "n_inq v' h = n_inq v h \<or> (\<exists>m \<in> set published. n_inq v' h = n_inq v h @ wire m \<and> matches v h m)"
    unfolding others_def sub_sock_ok_def by blast+
  have "inbox_ok topics (n_inq v h @ wire m)" if "m \<in> set published" "matches v h m" for m
  proof (rule inbox_ok_append [OF _ that(1)])
    show "inbox_ok topics (n_inq v h)" using assms(1) by (simp add: sub_sock_ok_def)
    show "\<exists>t \<in> set topics. take (length t) (hd m) = bytes_of_string t"
    proof -
      from that(2) obtain u where u: "u \<in> set (n_topics v h)" "take (length u) (hd m) = u"
        unfolding matches_def by blast
      moreover from u(1) assms(1) obtain t where "t \<in> set topics" "u = bytes_of_string t"
        unfolding sub_sock_ok_def by blast
      ultimately show ?thesis by auto
    qed
  qed
  with o assms(1) show ?thesis by (auto simp: sub_sock_ok_def)
qed

lemma pub_sock_stable:
  "pub_sock_ok v h part \<Longrightarrow> others H v v' \<Longrightarrow> h \<notin> H \<Longrightarrow> pub_sock_ok v' h part"
  by (auto simp: pub_sock_ok_def others_def)

lemma pub_send_open: "pub_send_ok sndmore v h rest \<Longrightarrow> h \<noteq> 0 \<and> h \<in> n_open v"
  unfolding pub_send_ok_def pub_sock_ok_def by blast

lemma pub_send_stable:
  "pub_send_ok sndmore v h rest \<Longrightarrow> others H v v' \<Longrightarrow> h \<notin> H \<Longrightarrow> pub_send_ok sndmore v' h rest"
  unfolding pub_send_ok_def by (blast intro: pub_sock_stable)

interpretation sub_pcs: guarded sub_pc_handles "sub_pc_ok topics" for topics
proof unfold_locales
  fix v pc assume "sub_pc_ok topics v pc"
  then show "sub_pc_handles pc \<subseteq> n_open v" by (cases pc) (auto simp: sub_sock_ok_def)
next
  fix v pc H v' assume "sub_pc_ok topics v pc" "others H v v'" "sub_pc_handles pc \<inter> H = {}"
  then show "sub_pc_ok topics v' pc" by (cases pc) (auto intro: sub_sock_stable)
qed

interpretation pub_pcs: guarded pub_pc_handles "pub_pc_ok sndmore" for sndmore
proof unfold_locales
  fix v pc assume "pub_pc_ok sndmore v pc"
  then show "pub_pc_handles pc \<subseteq> n_open v" by (cases pc) (auto simp: pub_sock_ok_def dest: pub_send_open)
next
  fix v pc H v' assume "pub_pc_ok sndmore v pc" "others H v v'" "pub_pc_handles pc \<inter> H = {}"
  then show "pub_pc_ok sndmore v' pc"
    by (cases pc) (auto intro: pub_sock_stable pub_send_stable)
qed

text \<open>Threads of guarded program counters are guarded.\<close>

lemma guarded_thread:
  assumes "guarded hs ok"
  shows "guarded (thread_handles hs) (thread_ok ok)"
proof
  fix v t assume "thread_ok ok v t"
  then show "thread_handles hs t \<subseteq> n_open v" by (cases t) (simp_all add: guarded.owned [OF assms])
next
  fix v t H v' assume "thread_ok ok v t" "others H v v'" "thread_handles hs t \<inter> H = {}"
  then show "thread_ok ok v' t" using guarded.stable [OF assms] by (cases t) auto
qed

interpretation sub_threads: guarded "thread_handles sub_pc_handles" "thread_ok (sub_pc_ok topics)" for topics
  by (rule guarded_thread) unfold_locales

interpretation pub_threads: guarded "thread_handles pub_pc_handles" "thread_ok (pub_pc_ok sndmore)" for sndmore
  by (rule guarded_thread) unfold_locales

section \<open>The steps of the threads\<close>

definition printed :: "'r event list \<Rightarrow> string set" where
  "printed tr = {l. Out l \<in> set tr \<or> Err l \<in> set tr}"

definition prints :: "string set \<Rightarrow> 'r event list \<Rightarrow> 'r event list \<Rightarrow> bool" where
  "prints lines tr tr' \<longleftrightarrow> (\<exists>evs. tr' = tr @ evs \<and> printed evs \<subseteq> lines)"

lemma printed_simps [simp]:
  "printed [] = {}"
  "printed (tr @ tr') = printed tr \<union> printed tr'"
  "printed [Out l] = {l}"
  "printed [Sleep ms] = {}"
  by (auto simp: printed_def)

lemma prints_nothing [simp]: "prints lines tr tr" "prints lines tr (tr @ [Sleep ms])"
  by (simp_all add: prints_def)

lemma prints_line: "l \<in> lines \<Longrightarrow> prints lines tr (tr @ [Out l])"
  by (simp add: prints_def)

text \<open>
  A step from \<open>t\<close> to \<open>t'\<close>: the thread is in order again, it has respected the sockets of the others, has
  no handle but its own and new ones, and has printed only its lines.
\<close>

definition step_ok ::
  "('pc \<Rightarrow> ptr set) \<Rightarrow> (net \<Rightarrow> 'pc \<Rightarrow> bool) \<Rightarrow> string set \<Rightarrow> ('w \<Rightarrow> net) \<Rightarrow> 'pc thread \<Rightarrow> 'w shared
    \<Rightarrow> 'pc thread \<times> 'w shared \<Rightarrow> bool" where
  "step_ok hs ok lines view t = (\<lambda>(tr, w) (t', (tr', w')).
     thread_ok ok (view w') t' \<and> others (thread_handles hs t) (view w) (view w')
     \<and> thread_handles hs t' \<subseteq> thread_handles hs t \<union> - n_open (view w) \<and> prints lines tr tr')"

lemma others_refl [simp]: "others H v v"
  by (simp add: others_def)

lemma others_own [simp]:
  "others {h} v (set_inq h q v)" "others {h} v (close_socket h v)" "others {h} v (subscribe h t v)"
  "others {h} v (set_part h ps v)" "h \<notin> n_open v \<Longrightarrow> others H v (open_socket h v)"
  by (simp_all add: others_def net_defs)

lemma others_publish:
  assumes "publish msg (set_part h ps v) v'" "msg \<in> set published"
  shows "others {h} v v'"
proof -
  obtain q where q: "v' = set_part h ps v\<lparr>n_inq := q\<rparr>"
    "\<And>h'. q h' = n_inq (set_part h ps v) h' \<or> q h' = n_inq (set_part h ps v) h' @ wire msg
       \<and> matches (set_part h ps v) h' msg"
    using assms(1) unfolding publish_def by blast
  have "matches (set_part h ps v) h' msg = matches v h' msg" for h'
    by (simp add: matches_def set_part_def)
  with q(2) have "q h' = n_inq v h' \<or> q h' = n_inq v h' @ wire msg \<and> matches v h' msg" for h'
    by (simp add: set_part_def)
  with q(1) assms(2) show ?thesis unfolding others_def by (simp add: set_part_def) blast
qed

lemma unwind_net:
  assumes "pubsub_lib api view" "sb_handle s \<in> n_open (view w)" "sb_handle s \<noteq> 0"
  shows "\<exists>w'. unwind api s (ErrorT e) (tr, w) = (Finished (ErrorT e), (tr, w'))
    \<and> view w' = close_socket (sb_handle s) (view w)"
  using net_dtor [OF assms] by (auto simp: unwind_def aborts_def)

lemma thread_call_step:
  fixes pc pc' :: 'pc
  assumes "pubsub_lib api view" "sb_handle s \<in> n_open (view w)" "sb_handle s \<noteq> 0"
    and "f w = (r, w1)"
    and "(\<exists>x. r = Inr x) \<and> ok (view w1) pc' \<and> others {sb_handle s} (view w) (view w1)
      \<or> (\<exists>e. r = Inl (ErrorT e)) \<and> view w1 = view w"
    and "hs pc = {sb_handle s}" "hs pc' = {sb_handle s}"
  shows "step_ok hs ok lines view (Running pc) (tr, w) (thread_call api s f pc' (tr, w))"
  using assms(5)
proof
  assume "(\<exists>x. r = Inr x) \<and> ok (view w1) pc' \<and> others {sb_handle s} (view w) (view w1)"
  then obtain x where "r = Inr x" "ok (view w1) pc'" "others {sb_handle s} (view w) (view w1)" by blast
  with assms(4,6,7) show ?thesis by (simp add: thread_call_def step_ok_def)
next
  assume r: "(\<exists>e. r = Inl (ErrorT e)) \<and> view w1 = view w"
  then obtain e where e: "r = Inl (ErrorT e)" by blast
  obtain w2 where "unwind api s (ErrorT e) (tr, w1) = (Finished (ErrorT e) :: 'pc thread, (tr, w2))"
    "view w2 = close_socket (sb_handle s) (view w)"
    using unwind_net [of api view s w1 e tr] assms(1,2,3) r by auto
  with assms(4,6,7) e show ?thesis by (simp add: thread_call_def step_ok_def)
qed

lemma thread_socket_step:
  assumes "pubsub_lib api view" "\<And>s. hs (pc' s) = {sb_handle s}" "hs pc = {}"
    and "\<And>s v. sb_handle s \<noteq> 0 \<Longrightarrow> ok (open_socket (sb_handle s) v) (pc' s)"
  shows "step_ok hs ok lines view (Running pc) (tr, w) (thread_socket api ctx ty pc' (tr, w))"
proof -
  obtain r w1 where r: "socket_t_ctor api ctx ty w = (r, w1)" by (metis surj_pair)
  from net_socket [OF assms(1) r] show ?thesis
  proof
    assume "\<exists>s. r = Inr s \<and> sb_handle s \<noteq> 0 \<and> sb_handle s \<notin> n_open (view w) \<and> view w1 = open_socket (sb_handle s) (view w)"
    with r assms(2,3,4) show ?thesis by (auto simp: thread_socket_def step_ok_def)
  next
    assume "(\<exists>e. r = Inl (ErrorT e)) \<and> view w1 = view w"
    with r assms(3) show ?thesis by (auto simp: thread_socket_def step_ok_def)
  qed
qed

text \<open>The publisher.\<close>

lemma publisher_round_ok: "ZMQ_SNDMORE api \<noteq> 0 \<Longrightarrow> sends_ok (ZMQ_SNDMORE api) (publisher_round api)"
  by (simp add: publisher_round_def published_def envelopes_def send_flags_sndmore_def send_flags_none_def)

lemma publisher_send_step:
  assumes lib: "pubsub_lib api view"
    and ok: "pub_send_ok (ZMQ_SNDMORE api) (view w) (sb_handle s) ((buf, fl) # rest)"
  shows "step_ok pub_pc_handles (pub_pc_ok (ZMQ_SNDMORE api)) {} view (Running (Pub_send s ((buf, fl) # rest))) (tr, w)
    (thread_call api s (sock_send_buffer api s buf fl) (Pub_send s rest) (tr, w))"
proof -
  let ?h = "sb_handle s" and ?v = "view w"
  obtain r w1 where r: "sock_send_buffer api s buf fl w = (r, w1)" by (metis surj_pair)
  note sent = net_send [OF lib r]
  have h: "?h \<noteq> 0" "?h \<in> n_open ?v" using pub_send_open [OF ok] by simp_all
  have "pub_send_ok (ZMQ_SNDMORE api) (view w1) ?h rest \<and> others {?h} ?v (view w1)" if k: "r = Inr k" for k
    using ok unfolding pub_send_ok_def [of _ ?v]
  proof (elim disjE conjE exE)
    assume p: "pub_sock_ok ?v ?h []" and "sends_ok (ZMQ_SNDMORE api) ((buf, fl) # rest)"
    then obtain c g rest' where rest: "rest = (c, g) # rest'" "fl AND ZMQ_SNDMORE api \<noteq> 0" "g AND ZMQ_SNDMORE api = 0"
      "[buf, c] \<in> set published" "sends_ok (ZMQ_SNDMORE api) rest'"
      by (cases rest) auto
    with sent k have v1: "view w1 = set_part ?h (n_part ?v ?h @ [buf]) ?v" by simp
    with p have "pub_sock_ok (view w1) ?h [buf]" by (simp add: pub_sock_ok_def set_part_def)
    with rest v1 show ?thesis unfolding pub_send_ok_def by (metis others_own(4))
  next
    fix e c g rest'
    assume c: "(buf, fl) # rest = (c, g) # rest'" "pub_sock_ok ?v ?h [e]" "g AND ZMQ_SNDMORE api = 0"
      "[e, c] \<in> set published" "sends_ok (ZMQ_SNDMORE api) rest'"
    with sent k have p: "publish (n_part ?v ?h @ [buf]) (set_part ?h [] ?v) (view w1)" by simp
    moreover have "n_part ?v ?h @ [buf] \<in> set published" using c by (simp add: pub_sock_ok_def)
    ultimately have "others {?h} ?v (view w1)" by (rule others_publish)
    moreover have "pub_sock_ok (view w1) ?h []"
      using p c(2) by (auto simp: publish_def pub_sock_ok_def set_part_def)
    ultimately show ?thesis using c by (simp add: pub_send_ok_def)
  qed
  with sent have "(\<exists>x. r = Inr x) \<and> pub_pc_ok (ZMQ_SNDMORE api) (view w1) (Pub_send s rest) \<and> others {?h} ?v (view w1)
      \<or> (\<exists>e. r = Inl (ErrorT e)) \<and> view w1 = ?v" by auto
  with lib h r show ?thesis by (intro thread_call_step [of api view s w]) simp_all
qed

lemma publisher_step:
  assumes lib: "pubsub_lib api view" and ok: "pub_pc_ok (ZMQ_SNDMORE api) (view w) pc"
  shows "step_ok pub_pc_handles (pub_pc_ok (ZMQ_SNDMORE api)) {} view (Running pc) (tr, w)
    (PublisherThread api ctx pc (tr, w))"
proof (cases pc)
  case Pub_start
  then show ?thesis
    by (simp, intro thread_socket_step [OF lib]) (auto simp: pub_sock_ok_def open_socket_def)
next
  case (Pub_bind s)
  obtain r w1 where r: "sock_bind api s ''inproc://#1'' w = (r, w1)" by (metis surj_pair)
  from Pub_bind ok net_bind [OF lib r] r show ?thesis
    by (simp, intro thread_call_step [OF lib]) (auto simp: pub_sock_ok_def)
next
  case (Pub_wait s ms)
  have "sends_ok (ZMQ_SNDMORE api) (publisher_round api)"
    using lib by (intro publisher_round_ok) (simp add: pubsub_lib_def)
  with Pub_wait ok show ?thesis by (simp add: step_ok_def pub_send_ok_def)
next
  case (Pub_send s rest)
  show ?thesis
  proof (cases rest)
    case Nil
    with Pub_send ok show ?thesis by (simp add: step_ok_def pub_send_ok_def)
  next
    case (Cons m rest')
    then obtain buf fl where m: "rest = (buf, fl) # rest'" by (cases m) auto
    with Pub_send ok publisher_send_step [OF lib] show ?thesis by simp
  qed
qed

text \<open>The subscribers: a message that waits is received and printed.\<close>

lemma take_bytes: "take n (bytes_of_string e) = bytes_of_string t \<longleftrightarrow> take n e = t"
  by (metis string_of_bytes_of_string bytes_of_string_def take_map)

lemma subscriber_receives:
  assumes lib: "pubsub_lib api view" and msg: "msg_api_ok api"
    and ok: "sub_sock_ok topics (view w) (sb_handle s)" and ready: "n_inq (view w) (sb_handle s) \<noteq> []"
  shows "\<exists>l w' rest. l \<in> subscriber_lines name topics
    \<and> subscriber_loop_body api name s (tr, w) = Some (Inr (), (tr @ [Out l], w'))
    \<and> view w' = set_inq (sb_handle s) rest (view w) \<and> inbox_ok topics rest"
proof -
  let ?h = "sb_handle s" and ?r = "socket_ref_of_socket s"
  obtain msgs where msgs: "n_inq (view w) ?h = concat (map wire msgs)"
    "\<forall>m \<in> set msgs. m \<in> set published \<and> (\<exists>t \<in> set topics. take (length t) (hd m) = bytes_of_string t)"
    using ok unfolding sub_sock_ok_def inbox_ok_def by blast
  with ready obtain m ms where ms: "msgs = m # ms" by (cases msgs) auto
  with msgs(2) obtain e c t where m: "m = [bytes_of_string e, bytes_of_string c]" "(e, c) \<in> set envelopes"
    and t: "t \<in> set topics" "take (length t) e = t"
    by (auto simp: published_def take_bytes)
  have "n_inq (view w) (sb_handle ?r) = wire m @ concat (map wire ms)"
    by (simp add: msgs(1) ms socket_ref_of_socket_def socket_ref_from_handle_def socket_base_of_def)
  from recv_multipart_net [OF lib msg _ this, of recv_flags_none "[]"] m(1) obtain ps w' where
    ps: "recv_multipart api ?r recv_flags_none ([], w) = Some (Inr (Some 2), ps, w')"
    "map (message_data api) ps = m" "view w' = set_inq ?h (concat (map wire ms)) (view w)"
    by (auto simp: socket_ref_of_socket_def socket_ref_from_handle_def socket_base_of_def numeral_2_eq_2)
  from ps(2) m(1) obtain p0 p1 where p: "ps = [p0, p1]" "message_to_string api p0 = e" "message_to_string api p1 = c"
    by (auto simp: message_to_string_data [OF msg] message_data_def)
  have "inbox_ok topics (concat (map wire ms))"
    unfolding inbox_ok_def using msgs(2) ms by (intro exI [of _ ms]) simp
  moreover have "name @ '': ['' @ e @ ''] '' @ c \<in> subscriber_lines name topics"
    using m(2) t unfolding subscriber_lines_def by blast
  ultimately show ?thesis
    using ps(1,3) p by (intro exI [of _ "name @ '': ['' @ e @ ''] '' @ c"] exI [of _ w'] exI [of _ "concat (map wire ms)"])
      (simp add: subscriber_loop_body_def bnd_def mp_index_def emit_def)
qed

definition plain_topics :: "string list \<Rightarrow> bool" where
  "plain_topics topics \<longleftrightarrow> list_all (\<lambda>t. CHR 0x00 \<notin> set t) topics"

lemma subscriber_step:
  assumes lib: "pubsub_lib api view" and msg: "msg_api_ok api"
    and ok: "sub_pc_ok topics (view w) pc" and plain: "plain_topics topics"
    and run: "sub_enabled (\<lambda>h w. n_inq (view w) h \<noteq> []) pc (tr, w)"
  shows "\<exists>res. subscriber_thread api name topics ctx pc (tr, w) = Some res
    \<and> step_ok sub_pc_handles (sub_pc_ok topics) (subscriber_lines name topics) view (Running pc) (tr, w) res"
proof (cases pc)
  case Sub_start
  have "inbox_ok topics []" unfolding inbox_ok_def by (intro exI [of _ "[]"]) simp
  with Sub_start show ?thesis
    by (simp, intro thread_socket_step [OF lib]) (auto simp: sub_sock_ok_def open_socket_def)
next
  case (Sub_connect s)
  obtain r w1 where r: "sock_connect api s ''inproc://#1'' w = (r, w1)" by (metis surj_pair)
  from Sub_connect ok net_connect [OF lib r] r show ?thesis
    by (simp, intro thread_call_step [OF lib]) (auto simp: sub_sock_ok_def)
next
  case (Sub_topics s ts)
  show ?thesis
  proof (cases ts)
    case Nil
    with Sub_topics ok show ?thesis by (simp add: step_ok_def)
  next
    case (Cons t ts')
    with Sub_topics ok have s: "sub_sock_ok topics (view w) (sb_handle s)" "t \<in> set topics" "set ts' \<subseteq> set topics"
      by simp_all
    with plain have t: "c_string t = t" by (simp add: plain_topics_def list_all_iff c_string_id)
    obtain r w1 where r: "sock_set_cstr api s AO_subscribe t w = (r, w1)" by (metis surj_pair)
    have "sub_sock_ok topics (subscribe (sb_handle s) (bytes_of_string t) (view w)) (sb_handle s)"
      using s by (auto simp: sub_sock_ok_def subscribe_def)
    with Sub_topics Cons s t net_subscribe [OF lib r] r show ?thesis
      by (simp, intro thread_call_step [OF lib]) (auto simp: sub_sock_ok_def)
  qed
next
  case (Sub_recv s)
  with ok run obtain l w' rest where b: "l \<in> subscriber_lines name topics"
    "subscriber_loop_body api name s (tr, w) = Some (Inr (), (tr @ [Out l], w'))"
    "view w' = set_inq (sb_handle s) rest (view w)" "inbox_ok topics rest"
    using subscriber_receives [OF lib msg, of topics w s name tr] by (auto simp: sub_enabled_def)
  with Sub_recv ok have "sub_sock_ok topics (view w') (sb_handle s)"
    by (simp add: sub_sock_ok_def set_inq_def)
  with b Sub_recv show ?thesis by (simp add: step_ok_def prints_line)
qed

section \<open>The program\<close>

abbreviation topics2 :: "string list" where
  "topics2 \<equiv> [''A'', ''B'']"

abbreviation topics3 :: "string list" where
  "topics3 \<equiv> ['''']"

lemma plain_example_topics: "plain_topics topics2" "plain_topics topics3"
  by (simp_all add: plain_topics_def)

definition pubsub_lines :: "string set" where
  "pubsub_lines = subscriber_lines ''Thread2'' topics2 \<union> subscriber_lines ''Thread3'' topics3"

text \<open>Past a wait, the thread waited for has ended.\<close>

definition main_ok :: "'w pubsub_sys \<Rightarrow> bool" where
  "main_ok sys \<longleftrightarrow> (case ps_main sys of
       Main_wait2 \<Rightarrow> finished (ps_thread1 sys)
     | Main_wait3 \<Rightarrow> finished (ps_thread1 sys) \<and> finished (ps_thread2 sys)
     | Main_return \<Rightarrow> finished (ps_thread1 sys) \<and> finished (ps_thread2 sys) \<and> finished (ps_thread3 sys)
     | Main_done r \<Rightarrow> finished (ps_thread1 sys) \<and> finished (ps_thread2 sys) \<and> finished (ps_thread3 sys)
     | _ \<Rightarrow> True)"

lemma main_ok_running:
  "main_ok sys \<Longrightarrow> ps_thread1 sys = Running pc1 \<Longrightarrow> main_ok (sys\<lparr>ps_thread1 := u, ps_shared := st\<rparr>)"
  "main_ok sys \<Longrightarrow> ps_thread2 sys = Running pc \<Longrightarrow> main_ok (sys\<lparr>ps_thread2 := t, ps_shared := st\<rparr>)"
  "main_ok sys \<Longrightarrow> ps_thread3 sys = Running pc \<Longrightarrow> main_ok (sys\<lparr>ps_thread3 := t, ps_shared := st\<rparr>)"
  by (auto simp: main_ok_def finished_def split: main_pc.splits)

text \<open>An ended thread is in order whatever becomes of the network.\<close>

lemma finished_thread:
  "finished t \<Longrightarrow> thread_ok ok v t \<Longrightarrow> thread_ok ok v' t" "finished t \<Longrightarrow> thread_handles hs t = {}"
  by (cases t; simp add: finished_def)+

definition sys_inv :: "flags \<Rightarrow> ('w \<Rightarrow> net) \<Rightarrow> 'w pubsub_sys \<Rightarrow> bool" where
  "sys_inv sndmore view sys \<longleftrightarrow>
     (let v = view (snd (ps_shared sys)); h1 = thread_handles pub_pc_handles (ps_thread1 sys);
          h2 = thread_handles sub_pc_handles (ps_thread2 sys); h3 = thread_handles sub_pc_handles (ps_thread3 sys)
      in thread_ok (pub_pc_ok sndmore) v (ps_thread1 sys) \<and> thread_ok (sub_pc_ok topics2) v (ps_thread2 sys)
       \<and> thread_ok (sub_pc_ok topics3) v (ps_thread3 sys) \<and> h1 \<inter> h2 = {} \<and> h1 \<inter> h3 = {} \<and> h2 \<inter> h3 = {}
       \<and> prints pubsub_lines [] (fst (ps_shared sys)) \<and> main_ok sys)"

lemma prints_trans:
  "prints L [] tr \<Longrightarrow> prints lines tr tr' \<Longrightarrow> lines \<subseteq> L \<Longrightarrow> prints L [] tr'"
  unfolding prints_def by (metis append_Nil le_sup_iff order_trans printed_simps(2))

lemma step_okD:
  assumes "step_ok hs ok lines view t st (t', st')"
  shows "thread_ok ok (view (snd st')) t'" "others (thread_handles hs t) (view (snd st)) (view (snd st'))"
    "thread_handles hs t' \<subseteq> thread_handles hs t \<union> - n_open (view (snd st))" "prints lines (fst st) (fst st')"
  using assms by (simp_all add: step_ok_def split: prod.splits)

lemma main_step_inv:
  assumes "main_step api (ps_main sys) sys = Some sys'" "sys_inv sndmore view sys"
  shows "sys_inv sndmore view sys'"
proof (cases "ps_main sys")
  case Main_return
  then obtain r ctx w where "context_dtor api (ps_ctx sys, snd (ps_shared sys)) = Some (r, (ctx, w))"
    "sys' = sys\<lparr>ps_ctx := ctx, ps_main := Main_done r, ps_shared := (fst (ps_shared sys), w)\<rparr>"
    using assms(1) by (auto split: option.splits)
  with Main_return assms(2) show ?thesis
    by (auto simp: sys_inv_def Let_def main_ok_def finished_thread(2) intro: finished_thread(1))
qed (use assms in \<open>auto simp: sys_inv_def Let_def main_ok_def intro: prints_trans [where lines = "{}"] split: if_splits\<close>)

text \<open>Each thread's step keeps the invariant: its own part by the step, the others' by \<open>guarded\<close>.\<close>

lemma thread1_step_inv:
  assumes inv: "sys_inv sndmore view sys" and pc: "ps_thread1 sys = Running pc"
    and step: "step_ok pub_pc_handles (pub_pc_ok sndmore) {} view (ps_thread1 sys) (ps_shared sys) (t, st)"
  shows "sys_inv sndmore view (sys\<lparr>ps_thread1 := t, ps_shared := st\<rparr>)"
  using inv main_ok_running(1) [OF _ pc, where u = t and st = st] step_okD(1) [OF step] prints_trans [OF _ step_okD(4) [OF step], of pubsub_lines]
    sub_threads.step_other [OF _ step_okD(2) [OF step] _ step_okD(3) [OF step], of topics2 "ps_thread2 sys"]
    sub_threads.step_other [OF _ step_okD(2) [OF step] _ step_okD(3) [OF step], of topics3 "ps_thread3 sys"]
  by (simp add: sys_inv_def Let_def Int_commute)

lemma thread2_step_inv:
  assumes inv: "sys_inv sndmore view sys" and pc: "ps_thread2 sys = Running pc"
    and step: "step_ok sub_pc_handles (sub_pc_ok topics2) (subscriber_lines ''Thread2'' topics2) view
      (ps_thread2 sys) (ps_shared sys) (t, st)"
  shows "sys_inv sndmore view (sys\<lparr>ps_thread2 := t, ps_shared := st\<rparr>)"
  using inv main_ok_running(2) [OF _ pc, where t = t and st = st] step_okD(1) [OF step] prints_trans [OF _ step_okD(4) [OF step], of pubsub_lines]
    pub_threads.step_other [OF _ step_okD(2) [OF step] _ step_okD(3) [OF step], of sndmore "ps_thread1 sys"]
    sub_threads.step_other [OF _ step_okD(2) [OF step] _ step_okD(3) [OF step], of topics3 "ps_thread3 sys"]
  by (simp add: sys_inv_def Let_def Int_commute pubsub_lines_def)

lemma thread3_step_inv:
  assumes inv: "sys_inv sndmore view sys" and pc: "ps_thread3 sys = Running pc"
    and step: "step_ok sub_pc_handles (sub_pc_ok topics3) (subscriber_lines ''Thread3'' topics3) view
      (ps_thread3 sys) (ps_shared sys) (t, st)"
  shows "sys_inv sndmore view (sys\<lparr>ps_thread3 := t, ps_shared := st\<rparr>)"
  using inv main_ok_running(3) [OF _ pc, where t = t and st = st] step_okD(1) [OF step] prints_trans [OF _ step_okD(4) [OF step], of pubsub_lines]
    pub_threads.step_other [OF _ step_okD(2) [OF step] _ step_okD(3) [OF step], of sndmore "ps_thread1 sys"]
    sub_threads.step_other [OF _ step_okD(2) [OF step] _ step_okD(3) [OF step], of topics2 "ps_thread2 sys"]
  by (simp add: sys_inv_def Let_def Int_commute pubsub_lines_def)

abbreviation waiting :: "('w \<Rightarrow> net) \<Rightarrow> ptr \<Rightarrow> 'w \<Rightarrow> bool" where
  "waiting view \<equiv> \<lambda>h w. n_inq (view w) h \<noteq> []"

lemma sys_step_inv:
  assumes lib: "pubsub_lib api view" and msg: "msg_api_ok api"
    and inv: "sys_inv (ZMQ_SNDMORE api) view sys" and step: "sys_step api (waiting view) tid sys = Some sys'"
  shows "sys_inv (ZMQ_SNDMORE api) view sys'"
proof -
  obtain tr w where st: "ps_shared sys = (tr, w)" by (metis surj_pair)
  have na: "\<not> sys_aborted sys" using step by (auto simp: sys_step_def)
  show ?thesis
  proof (cases tid)
    case Main_thread
    with step na inv show ?thesis by (simp add: sys_step_def main_step_inv)
  next
    case Thread1
    with step na obtain pc where pc: "ps_thread1 sys = Running pc"
      by (auto simp: sys_step_def split: thread.splits)
    from inv pc st have "pub_pc_ok (ZMQ_SNDMORE api) (view w) pc" by (simp add: sys_inv_def Let_def)
    from publisher_step [OF lib this, of tr "ps_ctx sys"] pc st thread1_step_inv [OF inv pc] step na Thread1
    show ?thesis by (cases "PublisherThread api (ps_ctx sys) pc (tr, w)") (auto simp: sys_step_def)
  next
    case Thread2
    with step na st obtain pc where pc: "ps_thread2 sys = Running pc" "sub_enabled (waiting view) pc (tr, w)"
      by (auto simp: sys_step_def split: thread.splits if_splits)
    from inv pc(1) st have "sub_pc_ok topics2 (view w) pc" by (simp add: sys_inv_def Let_def)
    from subscriber_step [OF lib msg this plain_example_topics(1) pc(2), of "''Thread2''" "ps_ctx sys"]
    obtain t s where r: "SubscriberThread1 api (ps_ctx sys) pc (tr, w) = Some (t, s)"
      "step_ok sub_pc_handles (sub_pc_ok topics2) (subscriber_lines ''Thread2'' topics2) view (Running pc) (tr, w) (t, s)"
      by (auto simp: SubscriberThread1_def)
    from thread2_step_inv [OF inv pc(1), of t s] r(2) pc(1) st
    have "sys_inv (ZMQ_SNDMORE api) view (sys\<lparr>ps_thread2 := t, ps_shared := s\<rparr>)" by simp
    moreover from step na Thread2 pc st r(1) have "sys' = sys\<lparr>ps_thread2 := t, ps_shared := s\<rparr>"
      by (simp add: sys_step_def)
    ultimately show ?thesis by simp
  next
    case Thread3
    with step na st obtain pc where pc: "ps_thread3 sys = Running pc" "sub_enabled (waiting view) pc (tr, w)"
      by (auto simp: sys_step_def split: thread.splits if_splits)
    from inv pc(1) st have "sub_pc_ok topics3 (view w) pc" by (simp add: sys_inv_def Let_def)
    from subscriber_step [OF lib msg this plain_example_topics(2) pc(2), of "''Thread3''" "ps_ctx sys"]
    obtain t s where r: "SubscriberThread2 api (ps_ctx sys) pc (tr, w) = Some (t, s)"
      "step_ok sub_pc_handles (sub_pc_ok topics3) (subscriber_lines ''Thread3'' topics3) view (Running pc) (tr, w) (t, s)"
      by (auto simp: SubscriberThread2_def)
    from thread3_step_inv [OF inv pc(1), of t s] r(2) pc(1) st
    have "sys_inv (ZMQ_SNDMORE api) view (sys\<lparr>ps_thread3 := t, ps_shared := s\<rparr>)" by simp
    moreover from step na Thread3 pc st r(1) have "sys' = sys\<lparr>ps_thread3 := t, ps_shared := s\<rparr>"
      by (simp add: sys_step_def)
    ultimately show ?thesis by simp
  qed
qed

lemma reachable_inv:
  assumes "pubsub_lib api view" "msg_api_ok api" "pubsub_reachable api (waiting view) w sys"
  shows "sys_inv (ZMQ_SNDMORE api) view sys"
  using assms(3)
proof (induction rule: pubsub_reachable.induct)
  case (reach_start sys)
  then show ?case
    by (auto simp: pubsub_start_def sys_inv_def main_ok_def Let_def split: prod.splits sum.splits)
next
  case (reach_step sys tid sys')
  then show ?case using sys_step_inv [OF assms(1,2)] by blast
qed

lemma pubsub_lines_sub:
  "pubsub_lines \<subseteq> {''Thread2: [A] Message in A envelope'', ''Thread2: [B] Message in B envelope'',
     ''Thread3: [A] Message in A envelope'', ''Thread3: [B] Message in B envelope'',
     ''Thread3: [C] Message in C envelope''}"
  by (auto simp: pubsub_lines_def subscriber_lines_def envelopes_def)

text \<open>A subscriber for which a message waits is not stuck, and its step prints one line.\<close>

lemma receiver_progress:
  assumes "pubsub_lib api view" "msg_api_ok api" "sub_sock_ok topics (view w) (sb_handle s)"
    "waiting view (sb_handle s) w"
  shows "\<exists>l w'. subscriber_thread api name topics ctx (Sub_recv s) (tr, w) = Some (Running (Sub_recv s), (tr @ [Out l], w'))"
  using subscriber_receives [OF assms, of name tr] by auto

lemma not_aborted: "thread_ok ok v t \<Longrightarrow> \<not> aborted t"
  by (cases t) (auto simp: aborted_def aborts_def)

text \<open>
  C31. In every schedule of the example, no assertion of the three threads fails and nothing in them is
  undefined behaviour: the two-part messages of the publisher reach a subscriber whole or not at all, in spite of
  the messages that a slow subscriber loses. What is printed is only what the comment at the end of the
  program announces (in particular Thread2 never prints the C envelope), and a subscriber for which a
  message waits can go on and prints one line.
\<close>

theorem pubsub_example_safe:
  assumes "pubsub_lib api view" "msg_api_ok api" "pubsub_reachable api (waiting view) w sys"
  shows "\<not> sys_aborted sys
    \<and> printed (fst (ps_shared sys)) \<subseteq>
        {''Thread2: [A] Message in A envelope'', ''Thread2: [B] Message in B envelope'',
         ''Thread3: [A] Message in A envelope'', ''Thread3: [B] Message in B envelope'',
         ''Thread3: [C] Message in C envelope''}
    \<and> (\<forall>s. ps_thread2 sys = Running (Sub_recv s) \<longrightarrow> waiting view (sb_handle s) (snd (ps_shared sys)) \<longrightarrow>
        (\<exists>l sys'. sys_step api (waiting view) Thread2 sys = Some sys'
           \<and> fst (ps_shared sys') = fst (ps_shared sys) @ [Out l]))
    \<and> (\<forall>s. ps_thread3 sys = Running (Sub_recv s) \<longrightarrow> waiting view (sb_handle s) (snd (ps_shared sys)) \<longrightarrow>
        (\<exists>l sys'. sys_step api (waiting view) Thread3 sys = Some sys'
           \<and> fst (ps_shared sys') = fst (ps_shared sys) @ [Out l]))"
proof -
  have inv: "sys_inv (ZMQ_SNDMORE api) view sys" using reachable_inv [OF assms] .
  obtain tr w where st: "ps_shared sys = (tr, w)" by (metis surj_pair)
  have na: "\<not> sys_aborted sys" using inv by (auto simp: sys_aborted_def sys_inv_def Let_def dest: not_aborted)
  moreover have "printed (fst (ps_shared sys)) \<subseteq> pubsub_lines"
    using inv by (auto simp: sys_inv_def Let_def prints_def)
  moreover have "\<exists>l sys'. sys_step api (waiting view) Thread2 sys = Some sys' \<and> fst (ps_shared sys') = tr @ [Out l]"
    if "ps_thread2 sys = Running (Sub_recv s)" "waiting view (sb_handle s) w" for s
  proof -
    from that(1) inv st have "sub_sock_ok topics2 (view w) (sb_handle s)" by (simp add: sys_inv_def Let_def)
    from receiver_progress [OF assms(1,2) this that(2), of "''Thread2''" "ps_ctx sys" tr] that st na
    show ?thesis by (auto simp: sys_step_def sub_enabled_def SubscriberThread1_def)
  qed
  moreover have "\<exists>l sys'. sys_step api (waiting view) Thread3 sys = Some sys' \<and> fst (ps_shared sys') = tr @ [Out l]"
    if "ps_thread3 sys = Running (Sub_recv s)" "waiting view (sb_handle s) w" for s
  proof -
    from that(1) inv st have "sub_sock_ok topics3 (view w) (sb_handle s)" by (simp add: sys_inv_def Let_def)
    from receiver_progress [OF assms(1,2) this that(2), of "''Thread3''" "ps_ctx sys" tr] that st na
    show ?thesis by (auto simp: sys_step_def sub_enabled_def SubscriberThread2_def)
  qed
  ultimately show ?thesis using st pubsub_lines_sub by (intro conjI) (assumption, rule subset_trans, simp_all)
qed

section \<open>A library over the abstract network\<close>

record net_state =
  ns_errno :: int
  ns_next :: ptr
  ns_net :: net

definition ns_start :: net_state where
  "ns_start = \<lparr>ns_errno = 0, ns_next = 1,
     ns_net = \<lparr>n_open = {}, n_inq = (\<lambda>_. []), n_part = (\<lambda>_. []), n_topics = (\<lambda>_. [])\<rparr>\<rparr>"

definition ns_socket :: "net_state \<Rightarrow> ptr \<times> net_state" where
  "ns_socket w =
     (let h = ns_next w in
      if h = 0 \<or> h \<in> n_open (ns_net w) then (0, w\<lparr>ns_errno := 24\<rparr>)
      else (h, w\<lparr>ns_next := h + 1, ns_net := open_socket h (ns_net w)\<rparr>))"

definition ns_close :: "ptr \<Rightarrow> net_state \<Rightarrow> int \<times> net_state" where
  "ns_close h w =
     (if h \<in> n_open (ns_net w) then (0, w\<lparr>ns_net := close_socket h (ns_net w)\<rparr>) else (- 1, w\<lparr>ns_errno := 88\<rparr>))"

definition ns_deliver :: "byte list list \<Rightarrow> net \<Rightarrow> net" where
  "ns_deliver msg n = n\<lparr>n_inq := (\<lambda>h. if list_ex (\<lambda>t. take (length t) (hd msg) = t) (n_topics n h)
     then n_inq n h @ wire msg else n_inq n h)\<rparr>"

definition ns_send :: "ptr \<Rightarrow> byte list \<Rightarrow> flags \<Rightarrow> net_state \<Rightarrow> int \<times> net_state" where
  "ns_send h bs fl w =
     (let n = ns_net w; ps = n_part n h @ [bs] in
      (int (length bs), w\<lparr>ns_net := if fl AND 2 \<noteq> 0 then set_part h ps n else ns_deliver ps (set_part h [] n)\<rparr>))"

definition ns_recv :: "ptr \<Rightarrow> net_state \<Rightarrow> lmsg option \<times> net_state" where
  "ns_recv h w =
     (case n_inq (ns_net w) h of
        [] \<Rightarrow> (None, w\<lparr>ns_errno := 11\<rparr>)
      | m # ms \<Rightarrow> (Some m, w\<lparr>ns_net := set_inq h ms (ns_net w)\<rparr>))"

definition net_sock_api :: "(lmsg, net_state) sock_api" where
  "net_sock_api = ctx_api.extend (list_ctx_api_on ns_errno (\<lambda>p w. (0, w)))
     (sock_api.fields 1 2 (\<lambda>_. 0) (\<lambda>_. 1) (\<lambda>_. 2)
       (\<lambda>c t. ns_socket) ns_close
       (\<lambda>h opt bs w. (0, w\<lparr>ns_net := subscribe h bs (ns_net w)\<rparr>))
       (\<lambda>h opt n w. ((0, [], 0), w))
       (\<lambda>h a w. (0, w)) (\<lambda>h a w. (0, w)) (\<lambda>h a w. (0, w)) (\<lambda>h a w. (0, w))
       ns_send
       (\<lambda>h m fl w. case ns_send h (fst m) fl w of (rc, w') \<Rightarrow> ((rc, ([], False)), w'))
       (\<lambda>h n fl w. case ns_recv h w of
           (None, w') \<Rightarrow> ((- 1, []), w')
         | (Some m, w') \<Rightarrow> ((int (length (fst m)), take n (fst m)), w'))
       (\<lambda>h m fl w. case ns_recv h w of
           (None, w') \<Rightarrow> ((- 1, m), w')
         | (Some m', w') \<Rightarrow> ((int (length (fst m')), m'), w'))
       (\<lambda>h a w. (0, w)) (\<lambda>h a w. (0, w)) (\<lambda>f b c w. (0, w)) (\<lambda>f b c d w. (0, w))
       (\<lambda>h. h))"

lemmas net_sock_api_simps = list_ctx_api_simps net_sock_api_def sock_api.defs

lemma net_sock_msg_ok: "msg_api_ok net_sock_api"
  by (auto simp: msg_api_ok_def net_sock_api_simps)

lemma ns_publish: "publish msg n (ns_deliver msg n)"
  unfolding publish_def ns_deliver_def
  by (intro exI conjI, rule refl) (auto simp: matches_def list_ex_iff)

lemma net_sock_pubsub: "pubsub_lib net_sock_api ns_net"
  unfolding pubsub_lib_def
  by (intro conjI allI impI)
    (auto simp: net_sock_api_simps ns_socket_def ns_close_def ns_send_def ns_recv_def Let_def ns_publish
      split: if_splits list.splits)

text \<open>Running a schedule.\<close>

fun run_schedule ::
  "('m, 'w, 'x) sock_api_scheme \<Rightarrow> (ptr \<Rightarrow> 'w \<Rightarrow> bool) \<Rightarrow> thread_id list \<Rightarrow> 'w pubsub_sys \<Rightarrow> 'w pubsub_sys option" where
  "run_schedule api ready [] sys = Some sys"
| "run_schedule api ready (t # ts) sys = Option.bind (sys_step api ready t sys) (run_schedule api ready ts)"

lemma run_schedule_reachable:
  "run_schedule api ready ts sys = Some sys' \<Longrightarrow> pubsub_reachable api ready w sys \<Longrightarrow> pubsub_reachable api ready w sys'"
  by (induction ts arbitrary: sys) (auto simp: bind_eq_Some_conv intro: reach_step)

definition demo_schedule :: "thread_id list" where
  "demo_schedule = [Main_thread, Thread1, Thread1, Thread1, Main_thread, Main_thread, Main_thread,
     Thread3, Thread3, Thread3, Thread3, Thread2, Thread1, Thread1, Thread3]"

declare recv_multipart_loop.simps [code]

lemma demo_schedule_run:
  "case pubsub_start net_sock_api ns_start of
     Inl _ \<Rightarrow> False
   | Inr sys \<Rightarrow> (case run_schedule net_sock_api (waiting ns_net) demo_schedule sys of
        None \<Rightarrow> False
      | Some sys' \<Rightarrow> fst (ps_shared sys') = [Sleep 20, Sleep 10, Out ''Thread3: [A] Message in A envelope''])"
  by code_simp

theorem pubsub_example_safe_witness:
  "\<exists>sys. pubsub_reachable net_sock_api (waiting ns_net) ns_start sys
    \<and> fst (ps_shared sys) = [Sleep 20, Sleep 10, Out ''Thread3: [A] Message in A envelope''] \<and> \<not> sys_aborted sys"
proof -
  obtain sys0 where s0: "pubsub_start net_sock_api ns_start = Inr sys0"
    using demo_schedule_run by (auto split: sum.splits)
  obtain sys where s: "run_schedule net_sock_api (waiting ns_net) demo_schedule sys0 = Some sys"
    "fst (ps_shared sys) = [Sleep 20, Sleep 10, Out ''Thread3: [A] Message in A envelope'']"
    using demo_schedule_run s0 by (auto split: option.splits)
  have r: "pubsub_reachable net_sock_api (waiting ns_net) ns_start sys"
    using run_schedule_reachable [OF s(1) reach_start [OF s0]] .
  from pubsub_example_safe [OF net_sock_pubsub net_sock_msg_ok r] r s(2) show ?thesis by blast
qed

end
