(* ===== verification/CppzmqExamples.thy ===== *)
theory CppzmqExamples
  imports PubSubNet Programs
begin

text \<open>
  The small example programs that come with cppzmq: \<open>examples/hello_world.cpp\<close>,
  \<open>examples/multipart_messages.cpp\<close> and \<open>demo/main.cpp\<close>. Returning from \<open>main\<close> destroys the sockets and
  the context, in the reverse order of their construction; an exception ends the program where it is.
\<close>

section \<open>Returning from \<open>main\<close>\<close>

fun destroy_sockets :: "('m, 'w, 'x) sock_api_scheme \<Rightarrow> socket_t list \<Rightarrow> ('w, unit) comp" where
  "destroy_sockets api [] w = (Inr (), w)"
| "destroy_sockets api (s # ss) w =
     (case socket_t_dtor api (s, w) of
        (Inl e, (_, w')) \<Rightarrow> (Inl e, w')
      | (Inr _, (_, w')) \<Rightarrow> destroy_sockets api ss w')"

definition main_return ::
  "('m, 'w, 'x) sock_api_scheme \<Rightarrow> int \<Rightarrow> context_t \<Rightarrow> socket_t list \<Rightarrow> 'w \<Rightarrow> (int res \<times> 'w) option" where
  "main_return api rc ctx socks w =
     (case destroy_sockets api socks w of
        (Inl e, w') \<Rightarrow> Some (Inl e, w')
      | (Inr _, w') \<Rightarrow>
          (case context_dtor api (ctx, w') of
             None \<Rightarrow> None
           | Some (Inl e, (_, w'')) \<Rightarrow> Some (Inl e, w'')
           | Some (Inr _, (_, w'')) \<Rightarrow> Some (Inr rc, w'')))"

section \<open>\<open>demo/main.cpp\<close>\<close>

definition demo_main :: "('m, 'w, 'x) sock_api_scheme \<Rightarrow> 'w \<Rightarrow> (int res \<times> 'w) option" where
  "demo_main api w =
     (case context_default api w of
        (Inl e, w') \<Rightarrow> Some (Inl e, w')
      | (Inr context, w') \<Rightarrow> main_return api 0 context [] w')"

section \<open>\<open>examples/hello_world.cpp\<close>\<close>

definition hello_world :: "('m, 'w, 'x) sock_api_scheme \<Rightarrow> 'w \<Rightarrow> (int res \<times> 'w) option" where
  "hello_world api w =
     (case bnd (context_default api) (\<lambda>ctx.
           bnd (socket_t_ctor api ctx Sock_push) (\<lambda>sock.
           bnd (sock_bind api sock ''inproc://test'') (\<lambda>_.
           bnd (sock_send_buffer api sock (bytes_of_string ''Hello, world'') (send_flags_dontwait api)) (\<lambda>_.
           ret (ctx, sock))))) w of
        (Inl e, w') \<Rightarrow> Some (Inl e, w')
      | (Inr (ctx, sock), w') \<Rightarrow> main_return api 0 ctx [sock] w')"

section \<open>\<open>examples/multipart_messages.cpp\<close>\<close>

type_synonym 'w out_state = "unit event list \<times> 'w"

text \<open>The two sockets, connected through the endpoint that the first was bound to.\<close>

definition multipart_setup ::
  "('m, 'w, 'x) sock_api_scheme \<Rightarrow> ('w out_state, context_t \<times> socket_t \<times> socket_t) comp" where
  "multipart_setup api =
     bnd (on_lib (context_default api)) (\<lambda>ctx.
     bnd (on_lib (socket_t_ctor api ctx Sock_push)) (\<lambda>sock1.
     bnd (on_lib (socket_t_ctor api ctx Sock_pull)) (\<lambda>sock2.
     bnd (on_lib (sock_bind api sock1 ''tcp://127.0.0.1:*'')) (\<lambda>_.
     bnd (on_lib (sock_get_string api sock1 AO_last_endpoint 1024)) (\<lambda>last_endpoint.
     bnd (emit (Out (''Connecting to '' @ last_endpoint))) (\<lambda>_.
     bnd (on_lib (sock_connect api sock2 last_endpoint)) (\<lambda>_.
     ret (ctx, sock1, sock2))))))))"

text \<open>Sending and receiving: the exit code of \<open>main\<close>.\<close>

definition multipart_exchange ::
  "('m, 'w, 'x) sock_api_scheme \<Rightarrow> socket_t \<Rightarrow> socket_t \<Rightarrow> 'w out_state \<Rightarrow> (int res \<times> 'w out_state) option" where
  "multipart_exchange api sock1 sock2 = (\<lambda>(tr, w).
     let send_msgs = [bytes_of_string ''foo'', bytes_of_string ''bar!''] in
     case send_multipart_buffers api (socket_ref_of_socket sock1) send_msgs send_flags_none w of
       (Inl e, w1) \<Rightarrow> Some (Inl e, (tr, w1))
     | (Inr None, w1) \<Rightarrow> Some (Inr 1, (tr, w1))
     | (Inr (Some _), w1) \<Rightarrow>
         (case recv_multipart api (socket_ref_of_socket sock2) recv_flags_none ([], w1) of
            None \<Rightarrow> None
          | Some (Inl e, _, w2) \<Rightarrow> Some (Inl e, (tr, w2))
          | Some (Inr None, _, w2) \<Rightarrow> Some (Inr 1, (tr, w2))
          | Some (Inr (Some n), _, w2) \<Rightarrow> Some (Inr 0, (tr @ [Out (''Got '' @ show_nat n @ '' messages'')], w2))))"

definition multipart_messages ::
  "('m, 'w, 'x) sock_api_scheme \<Rightarrow> 'w out_state \<Rightarrow> (int res \<times> 'w out_state) option" where
  "multipart_messages api st =
     (case multipart_setup api st of
        (Inl e, st1) \<Rightarrow> Some (Inl e, st1)
      | (Inr (ctx, sock1, sock2), st1) \<Rightarrow>
          (case multipart_exchange api sock1 sock2 st1 of
             None \<Rightarrow> None
           | Some (Inl e, st2) \<Rightarrow> Some (Inl e, st2)
           | Some (Inr rc, (tr, w)) \<Rightarrow>
               map_option (\<lambda>(r, w'). (r, (tr, w'))) (main_return api rc ctx [sock2, sock1] w)))"

section \<open>What they do\<close>

text \<open>
  Two connected sockets: what the first sends with \<open>zmq_send\<close> waits, in order, at the second.
\<close>

definition pipe :: "('m, 'w, 'x) sock_api_scheme \<Rightarrow> ptr \<Rightarrow> ptr \<Rightarrow> ('w \<Rightarrow> (byte list \<times> bool) list) \<Rightarrow> bool" where
  "pipe api h1 h2 q \<longleftrightarrow> inbound api h2 q \<and> ZMQ_SNDMORE api \<noteq> 0
     \<and> (\<forall>bs fl w. \<exists>w'. zmq_send api h1 bs fl w = (int (length bs), w')
          \<and> q w' = q w @ [(bs, fl AND ZMQ_SNDMORE api \<noteq> 0)])"

lemma pipe_send:
  assumes "pipe api (sb_handle s) h2 q"
  shows "\<exists>w'. sock_send_buffer api s bs fl w = (Inr (Some (length bs)), w')
    \<and> q w' = q w @ [(bs, fl AND ZMQ_SNDMORE api \<noteq> 0)]"
proof -
  obtain w' where "zmq_send api (sb_handle s) bs fl w = (int (length bs), w')"
    "q w' = q w @ [(bs, fl AND ZMQ_SNDMORE api \<noteq> 0)]"
    using assms unfolding pipe_def by blast
  then show ?thesis by (simp add: sock_send_buffer_def bnd_def call_def io_result_def)
qed

lemma send_multipart_buffers_pipe:
  assumes "pipe api (sb_handle s) h2 q" "fl AND ZMQ_SNDMORE api = 0"
  shows "\<exists>w'. send_multipart_buffers_loop api s fl cnt bs w = (Inr (Some (cnt + length bs)), w')
    \<and> q w' = q w @ wire bs"
proof (induction bs arbitrary: cnt w)
  case (Cons b bs)
  let ?fl = "send_flags_or fl (if bs = [] then send_flags_none else send_flags_sndmore api)"
  obtain w1 where s: "sock_send_buffer api s b ?fl w = (Inr (Some (length b)), w1)"
    "q w1 = q w @ [(b, ?fl AND ZMQ_SNDMORE api \<noteq> 0)]"
    using pipe_send [OF assms(1)] by blast
  have "ZMQ_SNDMORE api \<noteq> 0" using assms(1) by (simp add: pipe_def)
  with assms(2) have "?fl AND ZMQ_SNDMORE api \<noteq> 0 \<longleftrightarrow> bs \<noteq> []"
    by (auto simp: flag_ops send_flags_none_def send_flags_sndmore_def bit_eq_iff bit_simps)
  with s Cons.IH [of "Suc cnt" w1] show ?case by (auto simp: bnd_def Let_def)
qed simp

text \<open>Over connected sockets the exchange of \<open>multipart_messages.cpp\<close> gets both parts and returns 0.\<close>

lemma multipart_exchange_runs:
  assumes "pipe api (sb_handle sock1) (sb_handle sock2) q" "msg_api_ok api" "q w = []"
  shows "\<exists>w'. multipart_exchange api sock1 sock2 (tr, w) = Some (Inr 0, (tr @ [Out ''Got 2 messages''], w')) \<and> q w' = []"
proof -
  let ?bs = "[bytes_of_string ''foo'', bytes_of_string ''bar!'']"
  let ?s1 = "socket_ref_of_socket sock1" and ?s2 = "socket_ref_of_socket sock2"
  have h: "sb_handle ?s1 = sb_handle sock1" "sb_handle ?s2 = sb_handle sock2"
    by (simp_all add: socket_ref_of_socket_def socket_ref_from_handle_def socket_base_of_def)
  have "pipe api (sb_handle ?s1) (sb_handle sock2) q" "send_flags_none AND ZMQ_SNDMORE api = 0"
    using assms(1) h by (simp_all add: send_flags_none_def)
  from send_multipart_buffers_pipe [OF this, of 0 ?bs w] assms(3) obtain w1 where
    s: "send_multipart_buffers_loop api ?s1 send_flags_none 0 ?bs w = (Inr (Some 2), w1)" "q w1 = wire ?bs @ []"
    by (metis add_0 append_Nil append_Nil2 length_Cons list.size(3) numeral_2_eq_2)
  from assms(1) h have i: "inbound api (sb_handle ?s2) q" by (simp add: pipe_def)
  obtain ms w2 where r: "recv_multipart api ?s2 recv_flags_none ([], w1) = Some (Inr (Some 2), ms, w2)" "q w2 = []"
    using detail_recv_multipart_wire [OF i assms(2) _ s(2) refl, of False 0 recv_flags_none "[]"]
    by (auto simp: recv_multipart_def numeral_2_eq_2)
  have "show_nat 2 = ''2''" by (simp add: show_nat_def show_base.simps lower_digits_def)
  with s r show ?thesis by (simp add: multipart_exchange_def send_multipart_buffers_def Let_def)
qed

text \<open>The demo returns 0 when a context can be made and closed.\<close>

lemma demo_main_returns:
  assumes "zmq_ctx_new api w = (p, w1)" "p \<noteq> 0" "zmq_ctx_term api p w1 = (0, w2)"
  shows "demo_main api w = Some (Inr 0, w2)"
proof -
  have "ctx_term_loop api p w1 = Some (0, w2)"
    using assms(3) by (subst ctx_term_loop.simps) simp
  with assms(2) have "context_close api (\<lparr>ctx_ptr = p\<rparr>, w1) = Some (Inr (), (\<lparr>ctx_ptr = 0\<rparr>, w2))"
    by (simp add: context_close_def)
  with assms(1,2) show ?thesis
    by (simp add: demo_main_def context_default_def bnd_def call_def main_return_def context_dtor_def)
qed

end
