(* ===== verification/Inventory.thy ===== *)
theory Inventory
  imports RobotWorker
begin

text \<open>
  The part of the inventory service that the robots talk to: its handler of \<open>ReportJobStatus\<close>
  (\<open>inventory/internal/handler/grpc.go\<close>) and the counters behind it (\<open>inventory/internal/store/memory.go\<close>).
  The service runs one goroutine per call, and all share two databases of a Redis server, so a
  goroutine is modelled as a task: what it does up to its next command, and how it goes on with the reply.
  The Redis server is a parameter. Its client sends a command again when its reply does not come in time,
  so Redis can execute a command more often than the code issues it; this is part of the model. Log lines
  are left out. Of the finalization that the handler starts,
  only its end is seen here, the removal of the order's keys; theories \<open>Finalization\<close> and \<open>FinalizedOrders\<close>
  hold the whole of it and show that it is seen rightly.
\<close>

section \<open>Goroutines and the Redis client\<close>

datatype 'a task =
    Return 'a
  | Incr nat string "string + int \<Rightarrow> 'a task"             \<comment> \<open>\<open>client.Incr(ctx, key).Result()\<close>\<close>
  | SetNX nat string string "string + bool \<Rightarrow> 'a task"    \<comment> \<open>\<open>client.SetNX(ctx, key, value, ttl).Result()\<close>\<close>
  | Del nat "string list" "'a task"                       \<comment> \<open>\<open>client.Del(ctx, keys...)\<close>\<close>
  | Finalize string bool "'a task"                        \<comment> \<open>\<open>go h.finalizeOrder(orderID, isRestock)\<close>\<close>

text \<open>A client is the number of its database.\<close>

definition clientClient :: nat where "clientClient = 0"
definition restockClient :: nat where "restockClient = 1"

definition IncrementClientRobotCount :: "string \<Rightarrow> (string + int \<Rightarrow> 'a task) \<Rightarrow> 'a task" where
  "IncrementClientRobotCount orderID k = (let key = orderID @ '':count'' in Incr clientClient key k)"

definition IncrementRestockRobotCount :: "string \<Rightarrow> (string + int \<Rightarrow> 'a task) \<Rightarrow> 'a task" where
  "IncrementRestockRobotCount orderID k = (let key = orderID @ '':count'' in Incr restockClient key k)"

definition DeleteOrderData :: "string \<Rightarrow> bool \<Rightarrow> 'a task \<Rightarrow> 'a task" where
  "DeleteOrderData orderID isRestock k =
     (if isRestock
      then Del restockClient [orderID @ '':items'', orderID @ '':count'', orderID @ '':finalized''] k
      else Del clientClient [orderID @ '':items'', orderID @ '':count'', orderID @ '':finalized''] k)"

definition TryMarkOrderFinalized :: "string \<Rightarrow> bool \<Rightarrow> (string + bool \<Rightarrow> 'a task) \<Rightarrow> 'a task" where
  "TryMarkOrderFinalized orderID isRestock k =
     (let key = orderID @ '':finalized'' in
      if isRestock then SetNX restockClient key ''1'' k else SetNX clientClient key ''1'' k)"

text \<open>The handler: the error, or the response's success flag.\<close>

definition ReportJobStatus :: "report_request \<Rightarrow> (string + bool) task" where
  "ReportJobStatus req =
     (let orderID = rq_order_id req;
          orderType = rq_order_type req;
          isRestock = (orderType = ''RESTOCK'')
      in (if isRestock then IncrementRestockRobotCount orderID else IncrementClientRobotCount orderID) (\<lambda>r.
         case r of
           Inl err \<Rightarrow> Return (Inl err)
         | Inr count \<Rightarrow>
             if count \<ge> 5 then
               TryMarkOrderFinalized orderID isRestock (\<lambda>r.
               case r of
                 Inl markErr \<Rightarrow> Return (Inl markErr)
               | Inr marked \<Rightarrow>
                   if marked then Finalize orderID isRestock (Return (Inr True)) else Return (Inr True))
             else Return (Inr True)))"

section \<open>The Redis server\<close>

record 'r redis_api =
  rd_incr :: "nat \<Rightarrow> string \<Rightarrow> 'r \<Rightarrow> (string + int) \<times> 'r"
  rd_setnx :: "nat \<Rightarrow> string \<Rightarrow> string \<Rightarrow> 'r \<Rightarrow> (string + bool) \<times> 'r"
  rd_del :: "nat \<Rightarrow> string list \<Rightarrow> 'r \<Rightarrow> 'r"

text \<open>
  What Redis documents, over the contents of its databases: INCR counts a missing value as 0 and replies
  the new value, SETNX replies whether it has set the value, DEL removes keys. This is one attempt at a
  command, the last one for its caller; if it ends in an error, it has been executed or not. The attempts
  before it are the stray commands below.
\<close>

type_synonym redis_db = "nat \<times> string \<Rightarrow> string option"

definition redis_num :: "string option \<Rightarrow> int \<Rightarrow> bool" where
  "redis_num v i = (case v of None \<Rightarrow> i = 0 | Some s \<Rightarrow> s = show_int i)"

definition incr_done :: "nat \<times> string \<Rightarrow> redis_db \<Rightarrow> int \<Rightarrow> redis_db \<Rightarrow> bool" where
  "incr_done k db n db' \<longleftrightarrow> redis_num (db k) (n - 1) \<and> db' = db(k \<mapsto> show_int n)"

definition setnx_done :: "nat \<times> string \<Rightarrow> string \<Rightarrow> redis_db \<Rightarrow> bool \<Rightarrow> redis_db \<Rightarrow> bool" where
  "setnx_done k v db b db' \<longleftrightarrow> b = (db k = None) \<and> db' = (if b then db(k \<mapsto> v) else db)"

definition del_done :: "nat \<Rightarrow> string list \<Rightarrow> redis_db \<Rightarrow> redis_db" where
  "del_done d keys db = (\<lambda>k. if fst k = d \<and> snd k \<in> set keys then None else db k)"

definition redis_ok :: "'r redis_api \<Rightarrow> ('r \<Rightarrow> redis_db) \<Rightarrow> bool" where
  "redis_ok rd view \<longleftrightarrow>
     (\<forall>d key r x r'. rd_incr rd d key r = (x, r') \<longrightarrow>
        (case x of
           Inr n \<Rightarrow> incr_done (d, key) (view r) n (view r')
         | Inl _ \<Rightarrow> view r' = view r \<or> (\<exists>n. incr_done (d, key) (view r) n (view r'))))
   \<and> (\<forall>d key v r x r'. rd_setnx rd d key v r = (x, r') \<longrightarrow>
        (case x of
           Inr b \<Rightarrow> setnx_done (d, key) v (view r) b (view r')
         | Inl _ \<Rightarrow> view r' = view r \<or> (\<exists>b. setnx_done (d, key) v (view r) b (view r'))))
   \<and> (\<forall>d keys r. view (rd_del rd d keys r) \<in> {view r, del_done d keys (view r)})"

text \<open>A server that answers every command (INCR of a number).\<close>

definition redis_up :: "'r redis_api \<Rightarrow> ('r \<Rightarrow> redis_db) \<Rightarrow> bool" where
  "redis_up rd view \<longleftrightarrow>
     (\<forall>d key r i. redis_num (view r (d, key)) i \<longrightarrow> (\<exists>n. fst (rd_incr rd d key r) = Inr n))
   \<and> (\<forall>d key v r. \<exists>b. fst (rd_setnx rd d key v r) = Inr b)
   \<and> (\<forall>d keys r. view (rd_del rd d keys r) = del_done d keys (view r))"

section \<open>The service\<close>

text \<open>
  Its state: the calls that have arrived, the task of each, the Redis server, the finalizations that were
  started, in order, those among them that still run, and the stray commands: attempts whose callers did
  not wait for the reply (it came too late or was lost) but sent the command again. Redis executes a stray
  command at any later time or never. \<open>sv_again\<close> records the counters that stray INCRs have been
  executed on (also when the last attempt then was not); it is there for the statements only.
\<close>

record 'r server =
  sv_calls :: "report_request list"
  sv_tasks :: "(string + bool) task list"
  sv_redis :: 'r
  sv_finals :: "(string \<times> bool) list"
  sv_running :: "(string \<times> bool) list"
  sv_strays :: "unit task list"
  sv_again :: "(nat \<times> string) list"

definition server_start :: "'r \<Rightarrow> 'r server" where
  "server_start r = \<lparr>sv_calls = [], sv_tasks = [], sv_redis = r, sv_finals = [], sv_running = [],
     sv_strays = [], sv_again = []\<rparr>"

definition receive_call :: "report_request \<Rightarrow> 'r server \<Rightarrow> 'r server" where
  "receive_call rq sv = sv\<lparr>sv_calls := sv_calls sv @ [rq], sv_tasks := sv_tasks sv @ [ReportJobStatus rq]\<rparr>"

text \<open>One command of a task: how it goes on, what finalization it starts, and the server after it.\<close>

fun task_step :: "'r redis_api \<Rightarrow> 'a task \<Rightarrow> 'r \<Rightarrow> ('a task \<times> (string \<times> bool) list \<times> 'r) option" where
  "task_step rd (Return x) r = None"
| "task_step rd (Incr d key k) r = (case rd_incr rd d key r of (x, r') \<Rightarrow> Some (k x, [], r'))"
| "task_step rd (SetNX d key v k) r = (case rd_setnx rd d key v r of (x, r') \<Rightarrow> Some (k x, [], r'))"
| "task_step rd (Del d keys k) r = Some (k, [], rd_del rd d keys r)"
| "task_step rd (Finalize orderID isRestock k) r = Some (k, [(orderID, isRestock)], r)"

text \<open>The removal of its keys with which a finalization ends.\<close>

definition delete_order :: "'r redis_api \<Rightarrow> string \<times> bool \<Rightarrow> 'r \<Rightarrow> 'r" where
  "delete_order rd k r = (case task_step rd (DeleteOrderData (fst k) (snd k) (Return ())) r of
     Some (_, _, r') \<Rightarrow> r' | None \<Rightarrow> r)"

text \<open>
  The options of the clients (\<open>NewMemoryStore\<close>) leave \<open>MaxRetries\<close> at go-redis' default: up to three times
  the client sends a command again whose reply it could not read, INCR not excepted. The attempts before
  the last one are commands with no one to take the reply.
\<close>

fun stray_of :: "'a task \<Rightarrow> unit task list" where
  "stray_of (Incr d key k) = [Incr d key (\<lambda>_. Return ())]"
| "stray_of (SetNX d key v k) = [SetNX d key v (\<lambda>_. Return ())]"
| "stray_of (Del d keys k) = [Del d keys (Return ())]"
| "stray_of t = []"

fun counted :: "'a task \<Rightarrow> (nat \<times> string) list" where
  "counted (Incr d key k) = [(d, key)]"
| "counted t = []"

text \<open>A command is sent again, and a stray command is executed. The model bounds the attempts by no number.\<close>

definition send_again :: "'a task \<Rightarrow> 'r server \<Rightarrow> 'r server" where
  "send_again t sv = sv\<lparr>sv_strays := sv_strays sv @ stray_of t\<rparr>"

definition after_stray :: "nat \<Rightarrow> 'r \<Rightarrow> 'r server \<Rightarrow> 'r server" where
  "after_stray j r sv = sv\<lparr>sv_redis := r, sv_strays := take j (sv_strays sv) @ drop (Suc j) (sv_strays sv),
     sv_again := sv_again sv @ counted (sv_strays sv ! j)\<rparr>"

text \<open>
  What happens inside the service: a task runs its next command; a finalization ends; and, among the
  \<open>faults\<close>, a finalization ends early and leaves its keys, or other keys than the counters change (the
  others expire after an hour and belong to other handlers too; the counters have no time to live), or the
  next command of a task or the removal at the end of a finalization is sent again, or Redis executes a
  stray command.
\<close>

definition counters_kept :: "redis_db \<Rightarrow> redis_db \<Rightarrow> bool" where
  "counters_kept db db' \<longleftrightarrow> (\<forall>d oid. db' (d, oid @ '':count'') = db (d, oid @ '':count''))"

inductive server_step :: "'r redis_api \<Rightarrow> ('r \<Rightarrow> redis_db) \<Rightarrow> bool \<Rightarrow> 'r server \<Rightarrow> 'r server \<Rightarrow> bool"
  for rd view faults where
  serve: "j < length (sv_tasks sv) \<Longrightarrow> task_step rd (sv_tasks sv ! j) (sv_redis sv) = Some (t, gs, r) \<Longrightarrow>
    server_step rd view faults sv (sv\<lparr>sv_tasks := (sv_tasks sv)[j := t], sv_redis := r,
      sv_finals := sv_finals sv @ gs, sv_running := sv_running sv @ gs\<rparr>)"
| finish: "k \<in> set (sv_running sv) \<Longrightarrow>
    server_step rd view faults sv (sv\<lparr>sv_redis := delete_order rd k (sv_redis sv),
      sv_running := remove1 k (sv_running sv)\<rparr>)"
| give_up: "faults \<Longrightarrow> k \<in> set (sv_running sv) \<Longrightarrow>
    server_step rd view faults sv (sv\<lparr>sv_running := remove1 k (sv_running sv)\<rparr>)"
| expire: "faults \<Longrightarrow> counters_kept (view (sv_redis sv)) (view r) \<Longrightarrow>
    server_step rd view faults sv (sv\<lparr>sv_redis := r\<rparr>)"
| resend: "faults \<Longrightarrow> j < length (sv_tasks sv) \<Longrightarrow>
    server_step rd view faults sv (send_again (sv_tasks sv ! j) sv)"
| redelete: "faults \<Longrightarrow> k \<in> set (sv_running sv) \<Longrightarrow>
    server_step rd view faults sv (send_again (DeleteOrderData (fst k) (snd k) (Return ())) sv)"
| stray: "faults \<Longrightarrow> j < length (sv_strays sv) \<Longrightarrow>
    task_step rd (sv_strays sv ! j) (sv_redis sv) = Some (t, gs, r) \<Longrightarrow>
    server_step rd view faults sv (after_stray j r sv)"

section \<open>The tasks of a call\<close>

text \<open>What the service counts by: the order and which of the two databases it is in.\<close>

type_synonym order_key = "string \<times> bool"

definition req_key :: "report_request \<Rightarrow> order_key" where
  "req_key rq = (rq_order_id rq, rq_order_type rq = ''RESTOCK'')"

definition db_of :: "order_key \<Rightarrow> nat" where
  "db_of k = (if snd k then restockClient else clientClient)"

definition count_key :: "order_key \<Rightarrow> nat \<times> string" where
  "count_key k = (db_of k, fst k @ '':count'')"

definition mark_key :: "order_key \<Rightarrow> nat \<times> string" where
  "mark_key k = (db_of k, fst k @ '':finalized'')"

text \<open>The three places at which a call waits for its next command.\<close>

definition final_task :: "order_key \<Rightarrow> (string + bool) task" where
  "final_task k = Finalize (fst k) (snd k) (Return (Inr True))"

definition mark_task :: "order_key \<Rightarrow> (string + bool) task" where
  "mark_task k = SetNX (db_of k) (fst k @ '':finalized'') ''1'' (\<lambda>r. case r of
     Inl e \<Rightarrow> Return (Inl e) | Inr marked \<Rightarrow> if marked then final_task k else Return (Inr True))"

definition start_task :: "order_key \<Rightarrow> (string + bool) task" where
  "start_task k = Incr (db_of k) (fst k @ '':count'') (\<lambda>r. case r of
     Inl e \<Rightarrow> Return (Inl e) | Inr count \<Rightarrow> if count \<ge> 5 then mark_task k else Return (Inr True))"

lemmas task_defs = start_task_def mark_task_def final_task_def

text \<open>The stray commands there can be.\<close>

definition stray_incr :: "order_key \<Rightarrow> unit task" where
  "stray_incr k = Incr (db_of k) (fst k @ '':count'') (\<lambda>_. Return ())"

definition stray_setnx :: "order_key \<Rightarrow> unit task" where
  "stray_setnx k = SetNX (db_of k) (fst k @ '':finalized'') ''1'' (\<lambda>_. Return ())"

definition stray_del :: "order_key \<Rightarrow> unit task" where
  "stray_del k = DeleteOrderData (fst k) (snd k) (Return ())"

lemma stray_of_simps [simp]:
  "stray_of (start_task k) = [stray_incr k]" "stray_of (mark_task k) = [stray_setnx k]"
  "stray_of (final_task k) = []" "stray_of (DeleteOrderData (fst k) (snd k) t) = [stray_del k]"
  by (simp_all add: task_defs stray_incr_def stray_setnx_def stray_del_def DeleteOrderData_def)

lemma counted_simps [simp]:
  "counted (stray_incr k) = [count_key k]" "counted (stray_setnx k) = []" "counted (stray_del k) = []"
  by (simp_all add: stray_incr_def stray_setnx_def stray_del_def DeleteOrderData_def count_key_def)

lemma ReportJobStatus_start: "ReportJobStatus rq = start_task (req_key rq)"
  by (simp add: ReportJobStatus_def task_defs req_key_def db_of_def Let_def IncrementClientRobotCount_def
      IncrementRestockRobotCount_def TryMarkOrderFinalized_def fun_eq_iff split: sum.split)

lemma db_of_inj [simp]: "db_of k = db_of k' \<longleftrightarrow> snd k = snd k'"
  by (simp add: db_of_def clientClient_def restockClient_def)

lemma key_inj [simp]:
  "count_key k = count_key k' \<longleftrightarrow> k = k'" "mark_key k = mark_key k' \<longleftrightarrow> k = k'"
  "count_key k \<noteq> mark_key k'" "mark_key k \<noteq> count_key k'"
  by (auto simp: count_key_def mark_key_def prod_eq_iff dest: arg_cong [where f = last] arg_cong [where f = rev])

lemma task_inj [simp]:
  "start_task k = start_task k' \<longleftrightarrow> k = k'" "mark_task k = mark_task k' \<longleftrightarrow> k = k'"
  "final_task k = final_task k' \<longleftrightarrow> k = k'"
proof -
  have "start_task k = start_task k' \<Longrightarrow> k = k'" "mark_task k = mark_task k' \<Longrightarrow> k = k'"
    "final_task k = final_task k' \<Longrightarrow> k = k'"
    by (simp_all add: task_defs prod_eq_iff)
  then show "start_task k = start_task k' \<longleftrightarrow> k = k'" "mark_task k = mark_task k' \<longleftrightarrow> k = k'"
    "final_task k = final_task k' \<longleftrightarrow> k = k'" by auto
qed

lemma task_distinct [simp]:
  "start_task k \<noteq> mark_task k'" "start_task k \<noteq> final_task k'" "mark_task k \<noteq> final_task k'"
  "mark_task k \<noteq> start_task k'" "final_task k \<noteq> start_task k'" "final_task k \<noteq> mark_task k'"
  "Return x \<noteq> start_task k" "Return x \<noteq> mark_task k" "Return x \<noteq> final_task k"
  "start_task k \<noteq> Return x" "mark_task k \<noteq> Return x" "final_task k \<noteq> Return x"
  by (simp_all add: task_defs)

text \<open>What a task of a call can be.\<close>

definition call_task :: "(string + bool) task \<Rightarrow> bool" where
  "call_task t \<longleftrightarrow> (\<exists>k. t = start_task k \<or> t = mark_task k \<or> t = final_task k) \<or> (\<exists>x. t = Return x)"

lemma call_task_simps [simp]:
  "call_task (start_task k)" "call_task (mark_task k)" "call_task (final_task k)" "call_task (Return x)"
  by (auto simp: call_task_def)

end
