(* ===== verification/ReportBarrier.thy ===== *)
theory ReportBarrier
  imports Inventory
begin

text \<open>
  The inventory service as a barrier: what it does for one order, seen as counters (the abstract
  specification), that the service refines it, and what follows: an order is finalized at most once,
  after five reports, whatever the interleaving of the calls and whatever fails, as long as no INCR
  that the Redis client sends again is counted a second time; and what happens when one is.
\<close>

section \<open>The barrier of one order\<close>

record barrier =
  br_arrived :: nat                 \<comment> \<open>reports that have arrived, and reports counted again\<close>
  br_pending :: nat                 \<comment> \<open>calls that have yet to count their report\<close>
  br_marking :: nat                 \<comment> \<open>calls that have seen the threshold and will try the marker\<close>
  br_going :: nat                   \<comment> \<open>calls that will start the finalization\<close>
  br_finals :: nat                  \<comment> \<open>finalizations started\<close>
  br_running :: nat                 \<comment> \<open>those among them that run\<close>
  br_count :: "string option"       \<comment> \<open>the counter in Redis\<close>
  br_marker :: "string option"      \<comment> \<open>the marker in Redis\<close>

inductive barrier_step :: "bool \<Rightarrow> barrier \<Rightarrow> barrier \<Rightarrow> bool" for faults where
  b_idle: "barrier_step faults b b"
| b_count: "0 < br_pending b \<Longrightarrow> redis_num (br_count b) (n - 1) \<Longrightarrow>
    barrier_step faults b (b\<lparr>br_pending := br_pending b - 1, br_count := Some (show_int n),
      br_marking := br_marking b + (if n \<ge> 5 then 1 else 0)\<rparr>)"
| b_count_lost: "faults \<Longrightarrow> 0 < br_pending b \<Longrightarrow>
    c = br_count b \<or> (\<exists>n. redis_num (br_count b) (n - 1) \<and> c = Some (show_int n)) \<Longrightarrow>
    barrier_step faults b (b\<lparr>br_pending := br_pending b - 1, br_count := c\<rparr>)"
| b_mark: "0 < br_marking b \<Longrightarrow> br_marker b = None \<Longrightarrow>
    barrier_step faults b (b\<lparr>br_marking := br_marking b - 1, br_going := Suc (br_going b), br_marker := Some v\<rparr>)"
| b_no_mark: "0 < br_marking b \<Longrightarrow> faults \<or> br_marker b \<noteq> None \<Longrightarrow> faults \<or> m = br_marker b \<Longrightarrow>
    barrier_step faults b (b\<lparr>br_marking := br_marking b - 1, br_marker := m\<rparr>)"
| b_final: "0 < br_going b \<Longrightarrow>
    barrier_step faults b (b\<lparr>br_going := br_going b - 1, br_finals := Suc (br_finals b),
      br_running := Suc (br_running b)\<rparr>)"
| b_clear: "0 < br_running b \<Longrightarrow>
    barrier_step faults b (b\<lparr>br_running := br_running b - 1, br_count := None, br_marker := None\<rparr>)"
| b_give_up: "faults \<Longrightarrow> 0 < br_running b \<Longrightarrow> barrier_step faults b (b\<lparr>br_running := br_running b - 1\<rparr>)"
| b_expire: "faults \<Longrightarrow> barrier_step faults b (b\<lparr>br_marker := m\<rparr>)"
| b_clear_again: "faults \<Longrightarrow> 0 < br_finals b \<Longrightarrow>
    barrier_step faults b (b\<lparr>br_count := None, br_marker := None\<rparr>)"

definition b_receive :: "barrier \<Rightarrow> barrier" where
  "b_receive b = b\<lparr>br_arrived := Suc (br_arrived b), br_pending := Suc (br_pending b)\<rparr>"

definition b_start :: barrier where
  "b_start = \<lparr>br_arrived = 0, br_pending = 0, br_marking = 0, br_going = 0, br_finals = 0, br_running = 0,
     br_count = None, br_marker = None\<rparr>"

text \<open>
  The invariant, as long as no more than five reports have arrived: the threshold is reached at most once,
  by the last of five reports; until a finalization starts, the counter and the calls that have yet to count
  account for the reports that have arrived.
\<close>

definition reached :: "barrier \<Rightarrow> nat" where
  "reached b = br_marking b + br_going b + br_finals b"

definition barrier_ok :: "barrier \<Rightarrow> bool" where
  "barrier_ok b \<longleftrightarrow> br_running b \<le> br_finals b \<and> (br_arrived b \<le> 5 \<longrightarrow>
     reached b \<le> 1 \<and> (reached b = 1 \<longrightarrow> br_pending b = 0 \<and> br_arrived b = 5)
     \<and> (br_finals b = 0 \<longrightarrow> (\<exists>c. redis_num (br_count b) (int c) \<and> c + br_pending b \<le> br_arrived b)))"

lemma redis_num_unique: "redis_num v i \<Longrightarrow> redis_num v j \<Longrightarrow> i = j"
  by (auto simp: redis_num_def show_int_inj split: option.splits)

lemma redis_num_Some [simp]: "redis_num (Some (show_int i)) j \<longleftrightarrow> i = j"
  by (simp add: redis_num_def show_int_inj)

lemma redis_num_Ex [simp]: "Ex (redis_num (Some (show_int i)))" "Ex (redis_num None)"
  by (rule exI [of _ i], simp) (rule exI [of _ 0], simp add: redis_num_def)

lemma barrier_ok_start: "barrier_ok b_start"
  by (auto simp: barrier_ok_def b_start_def reached_def redis_num_def intro: exI [of _ 0])

lemma barrier_ok_receive: "barrier_ok b \<Longrightarrow> barrier_ok (b_receive b)"
  by (fastforce simp: barrier_ok_def b_receive_def reached_def)

lemma barrier_okI:
  assumes "br_running b \<le> br_finals b" "reached b \<le> 1"
    and "reached b = 1 \<Longrightarrow> br_pending b = 0 \<and> br_arrived b = 5"
    and "\<exists>c. redis_num (br_count b) (int c) \<and> c + br_pending b \<le> br_arrived b"
  shows "barrier_ok b"
  unfolding barrier_ok_def using assms by blast

lemma barrier_pending:
  assumes "barrier_ok b" "br_arrived b \<le> 5" "0 < br_pending b"
  obtains c where "reached b = 0" "redis_num (br_count b) (int c)" "c + br_pending b \<le> br_arrived b"
proof -
  from assms have "reached b \<le> 1" "reached b \<noteq> 1" unfolding barrier_ok_def by auto
  then have "reached b = 0" by simp
  moreover from this have "br_finals b = 0" by (simp add: reached_def)
  ultimately show ?thesis using assms(1,2) that unfolding barrier_ok_def by blast
qed

lemma barrier_ok_step:
  assumes "barrier_step faults b b'" "barrier_ok b"
  shows "barrier_ok b'"
  using assms(1)
proof cases
  case (b_count n)
  show ?thesis
  proof (cases "br_arrived b \<le> 5")
    case True
    obtain c where c: "reached b = 0" "redis_num (br_count b) (int c)" "c + br_pending b \<le> br_arrived b"
      using barrier_pending [OF assms(2) True b_count(2)] .
    from redis_num_unique [OF c(2) b_count(3)] have n: "n = int (Suc c)" by simp
    have "redis_num (br_count b') (int (Suc c))" "Suc c + br_pending b' \<le> br_arrived b'"
      using c(3) b_count(2) n unfolding b_count(1) by simp_all
    then have "\<exists>c. redis_num (br_count b') (int c) \<and> c + br_pending b' \<le> br_arrived b'" by blast
    moreover have "br_pending b' = 0 \<and> br_arrived b' = 5" if "n \<ge> 5"
      using that n c(3) True b_count(2) unfolding b_count(1) by auto
    moreover have "reached b' = (if n \<ge> 5 then 1 else 0)" "br_running b' \<le> br_finals b'"
      using c(1) assms(2) unfolding b_count(1) by (simp_all add: reached_def barrier_ok_def)
    ultimately show ?thesis by (cases "n \<ge> 5") (auto intro!: barrier_okI)
  next
    case False
    then show ?thesis using assms(2) unfolding b_count(1) by (simp add: barrier_ok_def)
  qed
next
  case (b_count_lost c)
  show ?thesis
  proof (cases "br_arrived b \<le> 5")
    case True
    obtain d where d: "reached b = 0" "redis_num (br_count b) (int d)" "d + br_pending b \<le> br_arrived b"
      using barrier_pending [OF assms(2) True b_count_lost(3)] .
    have "\<exists>e. redis_num c (int e) \<and> e \<le> Suc d"
    proof (cases "c = br_count b")
      case False
      with b_count_lost(4) obtain n where n: "redis_num (br_count b) (n - 1)" "c = Some (show_int n)" by blast
      from redis_num_unique [OF d(2) n(1)] have "n = int (Suc d)" by simp
      with n(2) show ?thesis by (intro exI [of _ "Suc d"]) simp
    qed (use d(2) in \<open>auto intro: exI [of _ d]\<close>)
    with d(3) b_count_lost(3) have "\<exists>e. redis_num (br_count b') (int e) \<and> e + br_pending b' \<le> br_arrived b'"
      unfolding b_count_lost(1) by fastforce
    moreover have "reached b' = 0" "br_running b' \<le> br_finals b'"
      using d(1) assms(2) unfolding b_count_lost(1) by (simp_all add: reached_def barrier_ok_def)
    ultimately show ?thesis by (intro barrier_okI) simp_all
  next
    case False
    then show ?thesis using assms(2) unfolding b_count_lost(1) by (simp add: barrier_ok_def)
  qed
qed (use assms(2) in \<open>auto simp: barrier_ok_def reached_def\<close>)

text \<open>
  Without faults no report is lost: the counter accounts for all of them, the threshold cannot be missed,
  and the last finalization leaves neither counter nor marker.
\<close>

definition barrier_live :: "barrier \<Rightarrow> bool" where
  "barrier_live b \<longleftrightarrow> (br_arrived b \<le> 5 \<longrightarrow>
     (br_finals b = 0 \<longrightarrow> (\<exists>c. redis_num (br_count b) (int c) \<and> c + br_pending b = br_arrived b
        \<and> (5 \<le> c \<longrightarrow> reached b = 1)))
     \<and> (br_going b = 0 \<and> br_finals b = 0 \<longrightarrow> br_marker b = None)
     \<and> (br_finals b = 1 \<and> br_running b = 0 \<longrightarrow> br_count b = None \<and> br_marker b = None))"

lemma barrier_live_start: "barrier_live b_start"
  by (auto simp: barrier_live_def b_start_def redis_num_def intro: exI [of _ 0])

lemma barrier_live_count:
  assumes "redis_num (br_count b) (int c)" "c + br_pending b = br_arrived b" "5 \<le> c \<Longrightarrow> reached b = 1"
    and "br_going b = 0 \<Longrightarrow> br_marker b = None" "br_finals b = 0"
  shows "barrier_live b"
  unfolding barrier_live_def using assms by auto

lemma barrier_live_receive:
  assumes "barrier_ok b" "barrier_live b"
  shows "barrier_live (b_receive b)"
proof (cases "Suc (br_arrived b) \<le> 5")
  case True
  with assms(1) have "reached b = 0" unfolding barrier_ok_def by auto
  then have z: "br_marking b = 0" "br_going b = 0" "br_finals b = 0" by (simp_all add: reached_def)
  with assms(2) True obtain c where c: "redis_num (br_count b) (int c)" "c + br_pending b = br_arrived b"
    "br_marker b = None" unfolding barrier_live_def by auto
  show ?thesis
    by (rule barrier_live_count [where c = c]) (use c z True in \<open>simp_all add: b_receive_def\<close>)
qed (simp add: barrier_live_def b_receive_def)

lemma barrier_live_step:
  assumes "barrier_step False b b'" "barrier_ok b" "barrier_live b"
  shows "barrier_live b'"
proof (cases "br_arrived b \<le> 5")
  case False
  with assms(1) show ?thesis by cases (simp_all add: barrier_live_def)
next
  case True
  have r: "reached b \<le> 1" using assms(2) True unfolding barrier_ok_def by blast
  from assms(1) show ?thesis
  proof cases
    case (b_count n)
    from assms(2) True b_count(2) have z: "reached b = 0" by (rule barrier_pending)
    then have z': "br_marking b = 0" "br_going b = 0" "br_finals b = 0" by (simp_all add: reached_def)
    with assms(3) True obtain c where c: "redis_num (br_count b) (int c)" "c + br_pending b = br_arrived b"
      "br_marker b = None" unfolding barrier_live_def by auto
    have n: "n = int (Suc c)" using redis_num_unique [OF c(1) b_count(3)] by simp
    show ?thesis
      by (rule barrier_live_count [where c = "Suc c"])
        (use c z' b_count(2) n in \<open>simp_all add: b_count(1) reached_def\<close>)
  next
    case (b_mark v)
    then have z: "br_marking b = 1" "br_going b = 0" "br_finals b = 0" using r by (simp_all add: reached_def)
    with assms(3) True obtain c where c: "redis_num (br_count b) (int c)" "c + br_pending b = br_arrived b"
      unfolding barrier_live_def by auto
    show ?thesis
      by (rule barrier_live_count [where c = c]) (use c z in \<open>simp_all add: b_mark(1) reached_def\<close>)
  next
    case (b_no_mark m)
    then have "br_going b = 0" "br_finals b = 0" using r by (simp_all add: reached_def)
    with assms(3) True have "br_marker b = None" unfolding barrier_live_def by blast
    with b_no_mark(3) show ?thesis by simp
  next
    case b_clear
    moreover from this have "0 < br_finals b" using assms(2) unfolding barrier_ok_def by simp
    ultimately show ?thesis by (simp add: barrier_live_def)
  qed (use assms(3) in \<open>simp_all add: barrier_live_def\<close>)
qed

text \<open>When nothing is left to do and all five reports have arrived, the order has been finalized.\<close>

lemma barrier_live_end:
  assumes "barrier_ok b" "barrier_live b" "br_arrived b = 5"
    and "br_pending b = 0" "br_marking b = 0" "br_going b = 0" "br_running b = 0"
  shows "br_finals b = 1" "br_count b = None" "br_marker b = None"
proof -
  have r: "reached b \<le> 1" using assms(1,3) unfolding barrier_ok_def by simp
  have "br_finals b \<noteq> 0"
  proof
    assume f: "br_finals b = 0"
    with assms(2-4) have "reached b = 1" unfolding barrier_live_def by auto
    with f assms(5,6) show False by (simp add: reached_def)
  qed
  with r show f: "br_finals b = 1" by (simp add: reached_def)
  with assms(2,3,7) show "br_count b = None" "br_marker b = None" unfolding barrier_live_def by auto
qed

section \<open>The service refines it\<close>

text \<open>The reports on an order: those that have arrived, and those that a repeated INCR has counted again.\<close>

definition tally :: "order_key \<Rightarrow> 'r server \<Rightarrow> nat" where
  "tally k sv = count_list (map req_key (sv_calls sv)) k + count_list (sv_again sv) (count_key k)"

definition barrier_of :: "('r \<Rightarrow> redis_db) \<Rightarrow> order_key \<Rightarrow> 'r server \<Rightarrow> barrier" where
  "barrier_of view k sv = \<lparr>br_arrived = tally k sv,
     br_pending = count_list (sv_tasks sv) (start_task k), br_marking = count_list (sv_tasks sv) (mark_task k),
     br_going = count_list (sv_tasks sv) (final_task k), br_finals = count_list (sv_finals sv) k,
     br_running = count_list (sv_running sv) k, br_count = view (sv_redis sv) (count_key k),
     br_marker = view (sv_redis sv) (mark_key k)\<rparr>"

lemmas seen_defs = barrier_of_def tally_def

text \<open>
  All tasks belong to calls, and the counters hold numbers; the stray commands are those of calls and of
  finalizations that were started.
\<close>

definition stray_ok :: "order_key list \<Rightarrow> unit task \<Rightarrow> bool" where
  "stray_ok fs t \<longleftrightarrow> (\<exists>k. t = stray_incr k \<or> t = stray_setnx k \<or> t = stray_del k \<and> k \<in> set fs)"

lemma stray_ok_simps [simp]:
  "stray_ok fs (stray_incr k)" "stray_ok fs (stray_setnx k)" "k \<in> set fs \<Longrightarrow> stray_ok fs (stray_del k)"
  unfolding stray_ok_def by blast+

lemma stray_ok_append: "stray_ok fs t \<Longrightarrow> stray_ok (fs @ gs) t"
  unfolding stray_ok_def by auto

definition server_wf :: "('r \<Rightarrow> redis_db) \<Rightarrow> 'r server \<Rightarrow> bool" where
  "server_wf view sv \<longleftrightarrow> list_all call_task (sv_tasks sv)
     \<and> (\<forall>k. \<exists>i. redis_num (view (sv_redis sv) (count_key k)) i)
     \<and> set (sv_running sv) \<subseteq> set (sv_finals sv) \<and> list_all (stray_ok (sv_finals sv)) (sv_strays sv)"

lemma count_list_update:
  "j < length xs \<Longrightarrow> count_list (xs[j := y]) x =
     count_list xs x - (if xs ! j = x then 1 else 0) + (if y = x then 1 else 0)"
proof (induction xs arbitrary: j)
  case (Cons a xs)
  show ?case
  proof (cases j)
    case (Suc i)
    have "0 < count_list xs x" if "xs ! i = x"
      using that Cons.prems Suc by (metis Suc_less_eq count_list_0_iff gr0I length_Cons nth_mem)
    with Cons.IH [of i] Cons.prems Suc show ?thesis by auto
  qed simp
qed simp

lemma list_all_update: "list_all P xs \<Longrightarrow> P y \<Longrightarrow> list_all P (xs[j := y])"
  using set_update_subset_insert [of xs j y] by (auto simp: list_all_iff)

lemma count_list_pos: "x \<in> set xs \<Longrightarrow> 0 < count_list xs x"
  by (metis count_list_0_iff gr0I)

lemma count_list_nth: "j < length xs \<Longrightarrow> 0 < count_list xs (xs ! j)"
  by (simp add: count_list_pos)

lemma count_list_remove1:
  "count_list (remove1 y xs) x = count_list xs x - (if x = y \<and> y \<in> set xs then 1 else 0)"
  by (induction xs) (auto simp: count_list_0_iff Suc_diff_le count_notin)

lemma barrier_of_receive:
  "barrier_of view k (receive_call rq sv) =
     (if req_key rq = k then b_receive (barrier_of view k sv) else barrier_of view k sv)"
  by (simp add: barrier_of_def tally_def receive_call_def b_receive_def ReportJobStatus_start)

lemma server_wf_receive: "server_wf view sv \<Longrightarrow> server_wf view (receive_call rq sv)"
  by (simp add: server_wf_def receive_call_def ReportJobStatus_start)

lemma redis_up_incr:
  "redis_up rd view \<Longrightarrow> redis_num (view r (d, key)) i \<Longrightarrow> rd_incr rd d key r = (x, r') \<Longrightarrow> \<exists>n. x = Inr n"
  unfolding redis_up_def by (metis fst_conv)

lemma redis_up_setnx: "redis_up rd view \<Longrightarrow> rd_setnx rd d key v r = (x, r') \<Longrightarrow> \<exists>b. x = Inr b"
  unfolding redis_up_def by (metis fst_conv)

text \<open>What a command does to the server's state as one order sees it.\<close>

definition after_task ::
  "nat \<Rightarrow> (string + bool) task \<Rightarrow> order_key list \<Rightarrow> 'r \<Rightarrow> 'r server \<Rightarrow> 'r server" where
  "after_task j t gs r sv = sv\<lparr>sv_tasks := (sv_tasks sv)[j := t], sv_redis := r,
     sv_finals := sv_finals sv @ gs, sv_running := sv_running sv @ gs\<rparr>"

lemma server_wf_after_task:
  assumes "server_wf view sv" "call_task t" "\<And>k. \<exists>i. redis_num (view r (count_key k)) i"
  shows "server_wf view (after_task j t gs r sv)"
proof -
  have "list_all (stray_ok (sv_finals sv @ gs)) (sv_strays sv)"
    using assms(1) by (auto simp: server_wf_def list_all_iff stray_ok_append)
  with assms show ?thesis by (auto simp: server_wf_def after_task_def list_all_update)
qed

lemma serve_count:
  assumes "redis_ok rd view" "server_wf view sv" "faults \<or> redis_up rd view"
    and "j < length (sv_tasks sv)" "sv_tasks sv ! j = start_task k0"
    and "task_step rd (start_task k0) (sv_redis sv) = Some (t, gs, r)"
  shows "barrier_step faults (barrier_of view k sv) (barrier_of view k (after_task j t gs r sv))
    \<and> server_wf view (after_task j t gs r sv)"
proof -
  let ?v = "view (sv_redis sv)"
  obtain x where x: "rd_incr rd (db_of k0) (fst k0 @ '':count'') (sv_redis sv) = (x, r)" "gs = []"
    and t: "t = (case x of Inl e \<Rightarrow> Return (Inl e)
      | Inr count \<Rightarrow> if count \<ge> 5 then mark_task k0 else Return (Inr True))"
    using assms(6) by (auto simp: start_task_def split: prod.splits)
  have pend: "0 < br_pending (barrier_of view k0 sv)"
    using count_list_nth [OF assms(4)] assms(5) by (simp add: seen_defs)
  have ck: "(db_of k0, fst k0 @ '':count'') = count_key k0" by (simp add: count_key_def)
  have r: "case x of Inr n \<Rightarrow> incr_done (count_key k0) ?v n (view r)
      | Inl _ \<Rightarrow> view r = ?v \<or> (\<exists>n. incr_done (count_key k0) ?v n (view r))"
    using assms(1) x(1) unfolding redis_ok_def ck [symmetric] by blast
  have wf: "server_wf view (after_task j t gs r sv)"
    by (rule server_wf_after_task [OF assms(2)])
      (use assms(2) t r in \<open>auto simp: server_wf_def incr_done_def split: sum.splits\<close>)
  have other: "barrier_of view k (after_task j t gs r sv) = barrier_of view k sv" if "k \<noteq> k0"
    using that assms(4,5) t r x(2)
    by (auto simp: seen_defs after_task_def count_list_update incr_done_def split: sum.splits)
  show ?thesis
  proof (cases "k = k0")
    case True
    show ?thesis
    proof (cases x)
      case (Inr n)
      with r have i: "redis_num (?v (count_key k)) (n - 1)" "view r = ?v(count_key k \<mapsto> show_int n)"
        by (simp_all add: incr_done_def True)
      have "barrier_of view k (after_task j t gs r sv) = (barrier_of view k sv)
          \<lparr>br_pending := br_pending (barrier_of view k sv) - 1, br_count := Some (show_int n),
           br_marking := br_marking (barrier_of view k sv) + (if n \<ge> 5 then 1 else 0)\<rparr>"
        using assms(4,5) Inr t i x(2) True by (simp add: seen_defs after_task_def count_list_update)
      moreover have "redis_num (br_count (barrier_of view k sv)) (n - 1)" using i(1) by (simp add: seen_defs)
      ultimately show ?thesis using b_count pend True wf by metis
    next
      case (Inl e)
      have "faults"
      proof (rule ccontr)
        assume "\<not> faults"
        with assms(3) have "redis_up rd view" by simp
        moreover obtain i where "redis_num (?v (count_key k0)) i" using assms(2) unfolding server_wf_def by blast
        ultimately have "\<exists>n. x = Inr n" using redis_up_incr [OF _ _ x(1)] unfolding ck by blast
        with Inl show False by simp
      qed
      from r Inl have c: "view r (count_key k) = ?v (count_key k)
          \<or> (\<exists>n. redis_num (?v (count_key k)) (n - 1) \<and> view r (count_key k) = Some (show_int n))"
        and m: "view r (mark_key k) = ?v (mark_key k)"
        by (auto simp: incr_done_def True)
      have "barrier_of view k (after_task j t gs r sv) = (barrier_of view k sv)
          \<lparr>br_pending := br_pending (barrier_of view k sv) - 1, br_count := view r (count_key k)\<rparr>"
        using assms(4,5) Inl t m x(2) True by (simp add: seen_defs after_task_def count_list_update)
      moreover have "br_count (barrier_of view k sv) = ?v (count_key k)" by (simp add: seen_defs)
      ultimately show ?thesis using b_count_lost [OF \<open>faults\<close>] pend True wf c by metis
    qed
  qed (use other wf b_idle in simp)
qed

lemma serve_mark:
  assumes "redis_ok rd view" "server_wf view sv" "faults \<or> redis_up rd view"
    and "j < length (sv_tasks sv)" "sv_tasks sv ! j = mark_task k0"
    and "task_step rd (mark_task k0) (sv_redis sv) = Some (t, gs, r)"
  shows "barrier_step faults (barrier_of view k sv) (barrier_of view k (after_task j t gs r sv))
    \<and> server_wf view (after_task j t gs r sv)"
proof -
  let ?v = "view (sv_redis sv)"
  obtain x where x: "rd_setnx rd (db_of k0) (fst k0 @ '':finalized'') ''1'' (sv_redis sv) = (x, r)" "gs = []"
    and t: "t = (case x of Inl e \<Rightarrow> Return (Inl e)
      | Inr marked \<Rightarrow> if marked then final_task k0 else Return (Inr True))"
    using assms(6) by (auto simp: mark_task_def split: prod.splits)
  have marking: "0 < br_marking (barrier_of view k0 sv)"
    using count_list_nth [OF assms(4)] assms(5) by (simp add: seen_defs)
  have mk: "(db_of k0, fst k0 @ '':finalized'') = mark_key k0" by (simp add: mark_key_def)
  have r: "case x of Inr b \<Rightarrow> setnx_done (mark_key k0) ''1'' ?v b (view r)
      | Inl _ \<Rightarrow> view r = ?v \<or> (\<exists>b. setnx_done (mark_key k0) ''1'' ?v b (view r))"
    using assms(1) x(1) unfolding redis_ok_def mk [symmetric] by blast
  then have counts: "view r (count_key k') = ?v (count_key k')" for k'
    by (auto simp: setnx_done_def split: sum.splits)
  have wf: "server_wf view (after_task j t gs r sv)"
    by (rule server_wf_after_task [OF assms(2)])
      (use assms(2) t counts in \<open>auto simp: server_wf_def split: sum.splits\<close>)
  have other: "barrier_of view k (after_task j t gs r sv) = barrier_of view k sv" if "k \<noteq> k0"
    using that assms(4,5) t r x(2)
    by (auto simp: seen_defs after_task_def count_list_update setnx_done_def split: sum.splits)
  show ?thesis
  proof (cases "k = k0")
    case True
    have marker: "br_marker (barrier_of view k sv) = ?v (mark_key k)" by (simp add: seen_defs)
    show ?thesis
    proof (cases "x = Inr True")
      case ok: True
      with r have i: "?v (mark_key k) = None" "view r = ?v(mark_key k \<mapsto> ''1'')"
        by (simp_all add: setnx_done_def True)
      have "barrier_of view k (after_task j t gs r sv) = (barrier_of view k sv)
          \<lparr>br_marking := br_marking (barrier_of view k sv) - 1, br_going := Suc (br_going (barrier_of view k sv)),
           br_marker := Some ''1''\<rparr>"
        using assms(4,5) ok t i x(2) True by (simp add: seen_defs after_task_def count_list_update)
      with i(1) show ?thesis using b_mark marking True wf marker by metis
    next
      case False
      have why: "faults \<or> ?v (mark_key k) \<noteq> None" "faults \<or> view r (mark_key k) = ?v (mark_key k)"
        using False r assms(3) redis_up_setnx [OF _ x(1)] True by (cases x; fastforce simp: setnx_done_def)+
      have "barrier_of view k (after_task j t gs r sv) = (barrier_of view k sv)
          \<lparr>br_marking := br_marking (barrier_of view k sv) - 1, br_marker := view r (mark_key k)\<rparr>"
        using assms(4,5) False t counts x(2) True
        by (auto simp: seen_defs after_task_def count_list_update split: sum.splits)
      with why show ?thesis using b_no_mark marking True wf marker by metis
    qed
  qed (use other wf b_idle in simp)
qed

lemma serve_final:
  assumes "server_wf view sv" "j < length (sv_tasks sv)" "sv_tasks sv ! j = final_task k0"
    and "task_step rd (final_task k0) (sv_redis sv) = Some (t, gs, r)"
  shows "barrier_step faults (barrier_of view k sv) (barrier_of view k (after_task j t gs r sv))
    \<and> server_wf view (after_task j t gs r sv)"
proof -
  have t: "t = Return (Inr True)" "gs = [k0]" "r = sv_redis sv" using assms(4) by (auto simp: final_task_def)
  have wf: "server_wf view (after_task j t gs r sv)"
    by (rule server_wf_after_task [OF assms(1)]) (use assms(1) t in \<open>auto simp: server_wf_def\<close>)
  show ?thesis
  proof (cases "k = k0")
    case True
    have "0 < br_going (barrier_of view k sv)"
      using count_list_nth [OF assms(2)] assms(3) True by (simp add: seen_defs)
    moreover have "barrier_of view k (after_task j t gs r sv) = (barrier_of view k sv)
        \<lparr>br_going := br_going (barrier_of view k sv) - 1, br_finals := Suc (br_finals (barrier_of view k sv)),
         br_running := Suc (br_running (barrier_of view k sv))\<rparr>"
      using assms(2,3) t True by (simp add: seen_defs after_task_def count_list_update)
    ultimately show ?thesis using b_final wf by metis
  next
    case False
    then have "barrier_of view k (after_task j t gs r sv) = barrier_of view k sv"
      using assms(2,3) t by (simp add: seen_defs after_task_def count_list_update)
    with wf b_idle show ?thesis by simp
  qed
qed

lemma view_delete_order:
  assumes "redis_ok rd view"
  shows "view (delete_order rd k r) = view r \<or> view (delete_order rd k r) =
    (\<lambda>k'. if k' \<in> {(db_of k, fst k @ '':items''), count_key k, mark_key k} then None else view r k')"
proof -
  let ?keys = "[fst k @ '':items'', fst k @ '':count'', fst k @ '':finalized'']"
  have d: "delete_order rd k r = rd_del rd (db_of k) ?keys r"
    by (simp add: delete_order_def DeleteOrderData_def db_of_def)
  have "view (rd_del rd (db_of k) ?keys r) \<in> {view r, del_done (db_of k) ?keys (view r)}"
    using assms unfolding redis_ok_def by blast
  moreover have "del_done (db_of k) ?keys (view r) =
      (\<lambda>k'. if k' \<in> {(db_of k, fst k @ '':items''), count_key k, mark_key k} then None else view r k')"
    by (auto simp: del_done_def count_key_def mark_key_def)
  ultimately show ?thesis unfolding d by auto
qed

lemma items_key [simp]: "(d, s @ '':items'') \<noteq> count_key k" "(d, s @ '':items'') \<noteq> mark_key k"
  "count_key k \<noteq> (d, s @ '':items'')" "mark_key k \<noteq> (d, s @ '':items'')"
  by (auto simp: count_key_def mark_key_def dest: arg_cong [where f = rev])

lemma finish_step:
  assumes "redis_ok rd view" "server_wf view sv" "faults \<or> redis_up rd view" "k0 \<in> set (sv_running sv)"
  shows "barrier_step faults (barrier_of view k sv) (barrier_of view k
      (sv\<lparr>sv_redis := delete_order rd k0 (sv_redis sv), sv_running := remove1 k0 (sv_running sv)\<rparr>))
    \<and> server_wf view (sv\<lparr>sv_redis := delete_order rd k0 (sv_redis sv), sv_running := remove1 k0 (sv_running sv)\<rparr>)"
    (is "barrier_step _ ?b (barrier_of view k ?sv) \<and> _")
proof -
  let ?v = "view (sv_redis sv)" and ?v' = "view (delete_order rd k0 (sv_redis sv))"
  let ?cleared = "\<lambda>k'. if k' \<in> {(db_of k0, fst k0 @ '':items''), count_key k0, mark_key k0} then None else ?v k'"
  note r = view_delete_order [OF assms(1), of k0 "sv_redis sv"]
  then have wf: "server_wf view ?sv"
    using assms(2) set_remove1_subset [of k0 "sv_running sv"] by (auto simp: server_wf_def)
  show ?thesis
  proof (cases "k = k0")
    case True
    have running: "0 < br_running ?b"
      using assms(4) True by (simp add: seen_defs count_list_pos)
    show ?thesis
    proof (cases "?v' = ?cleared")
      case True
      with \<open>k = k0\<close> assms(4) have "barrier_of view k ?sv =
          ?b\<lparr>br_running := br_running ?b - 1, br_count := None, br_marker := None\<rparr>"
        by (simp add: seen_defs count_list_remove1)
      with b_clear [OF running] wf show ?thesis by simp
    next
      case False
      with r have v: "?v' = ?v" by blast
      have "faults"
      proof (rule ccontr)
        assume "\<not> faults"
        with assms(3) have "?v' = del_done (db_of k0) [fst k0 @ '':items'', fst k0 @ '':count'', fst k0 @ '':finalized''] ?v"
          by (simp add: redis_up_def delete_order_def DeleteOrderData_def db_of_def)
        also have "\<dots> = ?cleared" by (auto simp: del_done_def count_key_def mark_key_def)
        finally show False using False by simp
      qed
      moreover have "barrier_of view k ?sv = ?b\<lparr>br_running := br_running ?b - 1\<rparr>"
        using \<open>k = k0\<close> assms(4) v by (simp add: seen_defs count_list_remove1)
      ultimately show ?thesis using b_give_up running wf by metis
    qed
  next
    case False
    with r have "barrier_of view k ?sv = ?b" by (auto simp: seen_defs count_list_remove1)
    with b_idle wf show ?thesis by simp
  qed
qed

text \<open>A command that is sent again is not seen by any order.\<close>

lemma server_wf_send_again:
  "server_wf view sv \<Longrightarrow> list_all (stray_ok (sv_finals sv)) (stray_of t) \<Longrightarrow> server_wf view (send_again t sv)"
  by (simp add: server_wf_def send_again_def)

lemma barrier_of_send_again [simp]: "barrier_of view k (send_again t sv) = barrier_of view k sv"
  by (simp add: seen_defs send_again_def)

text \<open>The execution of a stray command: a repeated INCR is a report that arrives and whose caller is not answered.\<close>

lemma server_wf_after_stray:
  assumes "server_wf view sv" "\<And>k. \<exists>i. redis_num (view r (count_key k)) i"
  shows "server_wf view (after_stray j r sv)"
  using assms set_take_subset [of j "sv_strays sv"] set_drop_subset [of "Suc j" "sv_strays sv"]
  by (auto simp: server_wf_def after_stray_def list_all_iff)

lemma barrier_of_after_stray:
  "barrier_of view k (after_stray j r sv) = (barrier_of view k sv)
     \<lparr>br_arrived := br_arrived (barrier_of view k sv) + count_list (counted (sv_strays sv ! j)) (count_key k),
      br_count := view r (count_key k), br_marker := view r (mark_key k)\<rparr>"
  by (simp add: seen_defs after_stray_def)

lemma stray_step:
  assumes "redis_ok rd view" "server_wf view sv" "faults" "j < length (sv_strays sv)"
    and "task_step rd (sv_strays sv ! j) (sv_redis sv) = Some (t, gs, r)"
  shows "(barrier_step faults (barrier_of view k sv) (barrier_of view k (after_stray j r sv))
      \<or> barrier_step faults (b_receive (barrier_of view k sv)) (barrier_of view k (after_stray j r sv)))
    \<and> server_wf view (after_stray j r sv)"
proof -
  let ?v = "view (sv_redis sv)" and ?b = "barrier_of view k sv" and ?sv = "after_stray j r sv"
  have num: "\<exists>i. redis_num (?v (count_key k')) i" for k' using assms(2) unfolding server_wf_def by blast
  have "stray_ok (sv_finals sv) (sv_strays sv ! j)"
    using assms(2,4) unfolding server_wf_def by (metis list_all_length)
  then consider (incr) k0 where "sv_strays sv ! j = stray_incr k0"
    | (setnx) k0 where "sv_strays sv ! j = stray_setnx k0"
    | (del) k0 where "sv_strays sv ! j = stray_del k0" "k0 \<in> set (sv_finals sv)"
    unfolding stray_ok_def by blast
  then show ?thesis
  proof cases
    case incr
    then obtain x where x: "rd_incr rd (db_of k0) (fst k0 @ '':count'') (sv_redis sv) = (x, r)"
      using assms(5) by (auto simp: stray_incr_def split: prod.splits)
    have ck: "(db_of k0, fst k0 @ '':count'') = count_key k0" by (simp add: count_key_def)
    have "case x of Inr n \<Rightarrow> incr_done (count_key k0) ?v n (view r)
        | Inl _ \<Rightarrow> view r = ?v \<or> (\<exists>n. incr_done (count_key k0) ?v n (view r))"
      using assms(1) x unfolding redis_ok_def ck [symmetric] by blast
    then have r: "view r = ?v \<or> (\<exists>n. incr_done (count_key k0) ?v n (view r))"
      by (auto split: sum.splits)
    have wf: "server_wf view ?sv"
      by (rule server_wf_after_stray [OF assms(2)]) (use num r in \<open>auto simp: incr_done_def\<close>)
    show ?thesis
    proof (cases "k = k0")
      case True
      have "barrier_of view k ?sv = (b_receive ?b)
          \<lparr>br_pending := br_pending (b_receive ?b) - 1, br_count := view r (count_key k)\<rparr>"
        unfolding barrier_of_after_stray b_receive_def
        using r incr True by (auto simp: incr_done_def barrier_of_def)
      moreover have "view r (count_key k) = br_count (b_receive ?b)
          \<or> (\<exists>n. redis_num (br_count (b_receive ?b)) (n - 1) \<and> view r (count_key k) = Some (show_int n))"
        using r True by (auto simp: b_receive_def incr_done_def barrier_of_def)
      moreover have "0 < br_pending (b_receive ?b)" by (simp add: b_receive_def)
      ultimately show ?thesis using b_count_lost [OF assms(3)] wf by metis
    next
      case False
      then have "barrier_of view k ?sv = ?b"
        unfolding barrier_of_after_stray using r incr by (auto simp: incr_done_def barrier_of_def)
      with b_idle wf show ?thesis by simp
    qed
  next
    case setnx
    then obtain x where x: "rd_setnx rd (db_of k0) (fst k0 @ '':finalized'') ''1'' (sv_redis sv) = (x, r)"
      using assms(5) by (auto simp: stray_setnx_def split: prod.splits)
    have mk: "(db_of k0, fst k0 @ '':finalized'') = mark_key k0" by (simp add: mark_key_def)
    have "case x of Inr b \<Rightarrow> setnx_done (mark_key k0) ''1'' ?v b (view r)
        | Inl _ \<Rightarrow> view r = ?v \<or> (\<exists>b. setnx_done (mark_key k0) ''1'' ?v b (view r))"
      using assms(1) x unfolding redis_ok_def mk [symmetric] by blast
    then have counts: "view r (count_key k') = ?v (count_key k')" for k'
      by (auto simp: setnx_done_def split: sum.splits)
    have "barrier_of view k ?sv = ?b\<lparr>br_marker := view r (mark_key k)\<rparr>"
      unfolding barrier_of_after_stray using setnx counts by (simp add: barrier_of_def)
    with b_expire [OF assms(3)] server_wf_after_stray [OF assms(2)] num counts show ?thesis by metis
  next
    case del
    then have "r = delete_order rd k0 (sv_redis sv)"
      using assms(5) by (simp add: stray_del_def delete_order_def)
    from view_delete_order [OF assms(1), of k0 "sv_redis sv", folded this]
    consider "view r = ?v" | "view r = (\<lambda>k'. if k' \<in> {(db_of k0, fst k0 @ '':items''), count_key k0, mark_key k0} then None else ?v k')"
      by blast
    then show ?thesis
    proof cases
      case 1
      then have "barrier_of view k ?sv = ?b" unfolding barrier_of_after_stray
        using del(1) by (simp add: barrier_of_def)
      with b_idle server_wf_after_stray [OF assms(2)] num 1 show ?thesis by metis
    next
      case 2
      then have wf: "server_wf view ?sv" using num by (intro server_wf_after_stray [OF assms(2)]) auto
      show ?thesis
      proof (cases "k = k0")
        case True
        then have "barrier_of view k ?sv = ?b\<lparr>br_count := None, br_marker := None\<rparr>"
          unfolding barrier_of_after_stray using 2 del(1) by (simp add: barrier_of_def)
        moreover have "0 < br_finals ?b" using del(2) True by (simp add: barrier_of_def count_list_pos)
        ultimately show ?thesis using b_clear_again [OF assms(3)] wf by metis
      next
        case False
        then have "barrier_of view k ?sv = ?b" unfolding barrier_of_after_stray
          using 2 del(1) by (simp add: barrier_of_def)
        with b_idle wf show ?thesis by simp
      qed
    qed
  qed
qed

text \<open>
  The simulation: every step of the service is a step of the barrier of each order, or, among the faults,
  the arrival of a report and a step.
\<close>

lemma server_step_barrier:
  assumes "server_step rd view f sv sv'" "redis_ok rd view" "server_wf view sv" "faults \<or> redis_up rd view \<and> \<not> f"
  shows "(barrier_step faults (barrier_of view k sv) (barrier_of view k sv')
      \<or> faults \<and> barrier_step faults (b_receive (barrier_of view k sv)) (barrier_of view k sv')) \<and> server_wf view sv'"
  using assms(1)
proof cases
  case (serve j t gs r)
  have up: "faults \<or> redis_up rd view" using assms(4) by blast
  have "call_task (sv_tasks sv ! j)"
    using assms(3) serve(2) by (simp add: server_wf_def list_all_length)
  then consider k0 where "sv_tasks sv ! j = start_task k0" | k0 where "sv_tasks sv ! j = mark_task k0"
    | k0 where "sv_tasks sv ! j = final_task k0"
    using serve(3) by (auto simp: call_task_def)
  then show ?thesis
    using serve_count [OF assms(2,3) up serve(2)] serve_mark [OF assms(2,3) up serve(2)]
      serve_final [OF assms(3) serve(2)] serve(1,3)
    unfolding after_task_def by cases metis+
next
  case (finish k0)
  then show ?thesis using finish_step [OF assms(2,3), of faults k0 k] assms(4) by blast
next
  case (give_up k0)
  have "server_wf view sv'"
    using give_up assms(3) set_remove1_subset [of k0 "sv_running sv"] by (auto simp: server_wf_def)
  moreover have "barrier_step faults (barrier_of view k sv) (barrier_of view k sv')"
  proof (cases "k = k0")
    case True
    have "0 < br_running (barrier_of view k sv)"
      using give_up(3) True by (simp add: seen_defs count_list_pos)
    moreover have "barrier_of view k sv' = (barrier_of view k sv)\<lparr>br_running := br_running (barrier_of view k sv) - 1\<rparr>"
      using give_up True by (simp add: seen_defs count_list_remove1)
    ultimately show ?thesis using b_give_up give_up(2) assms(4) by metis
  next
    case False
    then have "barrier_of view k sv' = barrier_of view k sv"
      using give_up by (simp add: seen_defs count_list_remove1)
    with b_idle show ?thesis by simp
  qed
  ultimately show ?thesis by simp
next
  case (expire r)
  then have c: "view r (count_key k') = view (sv_redis sv) (count_key k')" for k'
    by (simp add: counters_kept_def count_key_def)
  with expire(1) assms(3) have "server_wf view sv'" by (simp add: server_wf_def)
  moreover have "barrier_of view k sv' = (barrier_of view k sv)\<lparr>br_marker := view r (mark_key k)\<rparr>"
    using expire(1) c by (simp add: seen_defs)
  moreover have faults using expire(2) assms(4) by blast
  ultimately show ?thesis using b_expire by metis
next
  case (resend j)
  have "call_task (sv_tasks sv ! j)"
    using assms(3) resend(3) by (simp add: server_wf_def list_all_length)
  then have "list_all (stray_ok (sv_finals sv)) (stray_of (sv_tasks sv ! j))"
    by (auto simp: call_task_def)
  with resend assms(3) b_idle show ?thesis by (simp add: server_wf_send_again)
next
  case (redelete k0)
  then have "k0 \<in> set (sv_finals sv)" using assms(3) unfolding server_wf_def by blast
  with redelete assms(3) b_idle show ?thesis by (simp add: server_wf_send_again)
next
  case (stray j t gs r)
  with stray_step [OF assms(2,3) _ stray(3,4)] assms(4) show ?thesis by blast
qed

section \<open>Once per order\<close>

text \<open>Calls arrive at any time, next to what happens inside.\<close>

inductive service_step :: "'r redis_api \<Rightarrow> ('r \<Rightarrow> redis_db) \<Rightarrow> bool \<Rightarrow> 'r server \<Rightarrow> 'r server \<Rightarrow> bool"
  for rd view faults where
  arrive: "service_step rd view faults sv (receive_call rq sv)"
| inside: "server_step rd view faults sv sv' \<Longrightarrow> service_step rd view faults sv sv'"

definition service_ok :: "('r \<Rightarrow> redis_db) \<Rightarrow> 'r server \<Rightarrow> bool" where
  "service_ok view sv \<longleftrightarrow> server_wf view sv \<and> (\<forall>k. barrier_ok (barrier_of view k sv))"

lemma service_ok_start:
  assumes "\<And>k. view r (count_key k) = None"
  shows "service_ok view (server_start r)"
proof -
  have "barrier_ok (barrier_of view k (server_start r))" for k
    using barrier_ok_start assms
    by (simp add: seen_defs server_start_def barrier_ok_def b_start_def reached_def)
  then show ?thesis using assms by (simp add: service_ok_def server_wf_def server_start_def)
qed

lemma service_ok_receive: "service_ok view sv \<Longrightarrow> service_ok view (receive_call rq sv)"
  by (simp add: service_ok_def server_wf_receive barrier_of_receive barrier_ok_receive)

lemma service_ok_inside:
  assumes "redis_ok rd view" "server_step rd view faults sv sv'" "service_ok view sv"
  shows "service_ok view sv'"
  using server_step_barrier [OF assms(2,1), of True] assms(3) barrier_ok_step barrier_ok_receive
  unfolding service_ok_def by blast

lemma service_ok_run:
  assumes "redis_ok rd view" "(service_step rd view faults)\<^sup>*\<^sup>* sv sv'" "service_ok view sv"
  shows "service_ok view sv'"
  using assms(2)
proof (induction rule: rtranclp_induct)
  case (step sv1 sv2)
  from step.hyps(2) show ?case
    by cases (use step.IH service_ok_receive service_ok_inside [OF assms(1)] in blast)+
qed (rule assms(3))

text \<open>Without faults no INCR is executed again.\<close>

lemma server_step_again: "server_step rd view False sv sv' \<Longrightarrow> sv_again sv' = sv_again sv"
  by (erule server_step.cases) simp_all

lemma service_run_again:
  assumes "(service_step rd view False)\<^sup>*\<^sup>* (server_start r) sv"
  shows "sv_again sv = []"
  using assms
proof (induction rule: rtranclp_induct)
  case (step sv1 sv2)
  from step.hyps(2) show ?case
  proof cases
    case inside
    from server_step_again [OF inside] step.IH show ?thesis by simp
  qed (use step.IH in \<open>simp add: receive_call_def\<close>)
qed (simp add: server_start_def)

lemma finals_once:
  assumes "redis_ok rd view" "\<And>k. view r (count_key k) = None"
    and "(service_step rd view faults)\<^sup>*\<^sup>* (server_start r) sv"
    and "tally k sv \<le> 5"
  shows "count_list (sv_finals sv) k \<le> 1 \<and> (k \<in> set (sv_finals sv) \<longrightarrow>
    tally k sv = 5 \<and> start_task k \<notin> set (sv_tasks sv))"
proof -
  have "service_ok view (server_start r)" by (rule service_ok_start) (rule assms(2))
  then have "barrier_ok (barrier_of view k sv)"
    using service_ok_run [OF assms(1,3)] unfolding service_ok_def by blast
  with assms(4) have r: "reached (barrier_of view k sv) \<le> 1"
    "reached (barrier_of view k sv) = 1 \<Longrightarrow> br_pending (barrier_of view k sv) = 0 \<and> br_arrived (barrier_of view k sv) = 5"
    unfolding barrier_ok_def by (simp_all add: seen_defs)
  then have once: "count_list (sv_finals sv) k \<le> 1" by (simp add: reached_def seen_defs)
  have "reached (barrier_of view k sv) = 1" if "k \<in> set (sv_finals sv)"
    using count_list_pos [OF that] r(1) by (simp add: reached_def seen_defs)
  with r(2) once show ?thesis by (auto simp: seen_defs count_list_0_iff)
qed

text \<open>
  C13. The inventory service finalizes an order at most once, and only after the last report. Started with
  empty counters, with calls of \<open>ReportJobStatus\<close> arriving at any time and running concurrently, with
  commands that fail or are sent again, expiring keys, and finalizations that end at any time: an order for
  which at most five reports have been made, a report that an INCR sent again has counted once more
  included, has been finalized at most once, and if so, five reports have been made and all of them are
  counted. Where no INCR is executed again, these are the reports that have arrived.
\<close>

theorem order_finalized_once:
  assumes "redis_ok rd view" "\<And>k. view r (count_key k) = None"
    and "(service_step rd view faults)\<^sup>*\<^sup>* (server_start r) sv"
    and "tally k sv \<le> 5"
  shows "count_list (sv_finals sv) k \<le> 1 \<and> (k \<in> set (sv_finals sv) \<longrightarrow>
    tally k sv = 5 \<and> start_task k \<notin> set (sv_tasks sv))"
  by (rule finals_once [OF assms])

text \<open>The barrier with its arrivals.\<close>

inductive barrier_next :: "bool \<Rightarrow> barrier \<Rightarrow> barrier \<Rightarrow> bool" for faults where
  "barrier_next faults b (b_receive b)"
| "barrier_step faults b b' \<Longrightarrow> barrier_next faults b b'"

lemma barrier_run:
  assumes "redis_ok rd view" "\<And>k. view r (count_key k) = None \<and> view r (mark_key k) = None"
    and "(service_step rd view f)\<^sup>*\<^sup>* (server_start r) sv" "faults \<or> redis_up rd view \<and> \<not> f"
  shows "(barrier_next faults)\<^sup>*\<^sup>* b_start (barrier_of view k sv)"
proof -
  have "(barrier_next faults)\<^sup>*\<^sup>* b_start (barrier_of view k sv) \<and> server_wf view sv"
    using assms(3)
  proof (induction rule: rtranclp_induct)
    case base
    have "barrier_of view k (server_start r) = b_start"
      using assms(2) by (simp add: seen_defs server_start_def b_start_def)
    then show ?case using assms(2) by (simp add: server_wf_def server_start_def)
  next
    case (step sv1 sv2)
    from step.hyps(2) show ?case
    proof cases
      case (arrive rq)
      with step.IH server_wf_receive show ?thesis
        using rtranclp.rtrancl_into_rtrancl [of "barrier_next faults", OF _ barrier_next.intros(1)]
        by (auto simp: barrier_of_receive)
    next
      case inside
      with server_step_barrier [OF inside assms(1) _ assms(4)] step.IH show ?thesis
        by (meson rtranclp.rtrancl_into_rtrancl barrier_next.intros)
    qed
  qed
  then show ?thesis by blast
qed

text \<open>
  C14. The inventory service refines the barrier. Whatever calls arrive and however their goroutines
  interleave on the shared Redis server, what one order sees of the service (its reports, the calls at each
  stage, the finalizations, its two keys) is a run of the abstract barrier: calls count, the one that sees
  the threshold tries the marker, its setter starts the finalization, whose end clears both keys; an INCR
  executed again is a further report whose call gets no reply. If nothing fails, it is a run of the barrier
  without faults.
\<close>

theorem service_refines_barrier:
  assumes "redis_ok rd view" "\<And>k. view r (count_key k) = None \<and> view r (mark_key k) = None"
    and "(service_step rd view f)\<^sup>*\<^sup>* (server_start r) sv" "faults \<or> redis_up rd view \<and> \<not> f"
  shows "(barrier_next faults)\<^sup>*\<^sup>* b_start (barrier_of view k sv)"
  by (rule barrier_run [OF assms])

section \<open>An example\<close>

text \<open>A Redis server whose state is the contents of its databases.\<close>

definition map_incr :: "nat \<Rightarrow> string \<Rightarrow> redis_db \<Rightarrow> (string + int) \<times> redis_db" where
  "map_incr d key db = (case db (d, key) of
     None \<Rightarrow> (Inr 1, db((d, key) \<mapsto> show_int 1))
   | Some s \<Rightarrow>
       (let n = read_int s in
        if s = show_int n then (Inr (n + 1), db((d, key) \<mapsto> show_int (n + 1)))
        else (Inl ''ERR value is not an integer or out of range'', db)))"

definition map_redis :: "redis_db redis_api" where
  "map_redis = \<lparr>rd_incr = map_incr,
     rd_setnx = (\<lambda>d key v db. if db (d, key) = None then (Inr True, db((d, key) \<mapsto> v)) else (Inr False, db)),
     rd_del = (\<lambda>d keys db. del_done d keys db)\<rparr>"

lemma map_redis_ok: "redis_ok map_redis (\<lambda>db. db)"
  by (auto simp: redis_ok_def map_redis_def map_incr_def incr_done_def setnx_done_def redis_num_def Let_def
      split: option.splits if_splits)

lemma map_redis_up: "redis_up map_redis (\<lambda>db. db)"
  by (auto simp: redis_up_def map_redis_def map_incr_def redis_num_def Let_def read_show_int split: option.splits)

text \<open>Running the commands of the tasks with the given numbers, one after the other.\<close>

fun serve_all :: "'r redis_api \<Rightarrow> nat list \<Rightarrow> 'r server \<Rightarrow> 'r server" where
  "serve_all rd [] sv = sv"
| "serve_all rd (j # js) sv =
     (if j < length (sv_tasks sv) then
        (case task_step rd (sv_tasks sv ! j) (sv_redis sv) of
           None \<Rightarrow> serve_all rd js sv
         | Some (t, gs, r) \<Rightarrow> serve_all rd js (after_task j t gs r sv))
      else serve_all rd js sv)"

lemma serve_all_run: "(service_step rd view faults)\<^sup>*\<^sup>* sv (serve_all rd js sv)"
proof (induction rd js sv rule: serve_all.induct)
  case (2 rd j js sv)
  show ?case
  proof (cases "j < length (sv_tasks sv) \<and> task_step rd (sv_tasks sv ! j) (sv_redis sv) \<noteq> None")
    case True
    then obtain t gs r where t: "task_step rd (sv_tasks sv ! j) (sv_redis sv) = Some (t, gs, r)" by auto
    with True have "service_step rd view faults sv (after_task j t gs r sv)"
      unfolding after_task_def by (intro inside serve) simp_all
    with 2(2) [of "(t, gs, r)"] True t show ?thesis by (simp add: converse_rtranclp_into_rtranclp)
  next
    case False
    with 2(1,3) show ?thesis by (auto split: option.splits)
  qed
qed simp

lemma receive_run: "(service_step rd view faults)\<^sup>*\<^sup>* sv (fold receive_call rqs sv)"
proof (induction rqs arbitrary: sv)
  case (Cons rq rqs)
  show ?case by (simp add: converse_rtranclp_into_rtranclp [where r = "service_step rd view faults", OF arrive Cons])
qed simp

text \<open>Five reports on one order whose calls run at the same time.\<close>

definition five_reports :: "report_request list" where
  "five_reports = replicate 5 (empty_request\<lparr>rq_order_id := ''o1'', rq_order_type := ''CUSTOMER''\<rparr>)"

definition five_served :: "redis_db server" where
  "five_served = serve_all map_redis [0, 1, 2, 3, 4, 4, 4] (fold receive_call five_reports (server_start Map.empty))"

lemma five_served_run: "(service_step map_redis (\<lambda>db. db) False)\<^sup>*\<^sup>* (server_start Map.empty) five_served"
  unfolding five_served_def by (rule rtranclp_trans [OF receive_run serve_all_run])

lemma five_served_finals: "sv_finals five_served = [(''o1'', False)]"
  by code_simp

theorem order_finalized_once_witness:
  "count_list (sv_finals five_served) (''o1'', False) \<le> 1 \<and> (''o1'', False) \<in> set (sv_finals five_served)
    \<and> tally (''o1'', False) five_served = 5"
proof -
  have reports: "tally (''o1'', False) five_served \<le> 5" by code_simp
  from order_finalized_once [OF map_redis_ok _ five_served_run reports] show ?thesis by (simp add: five_served_finals)
qed

theorem service_refines_barrier_witness:
  "(barrier_next False)\<^sup>*\<^sup>* b_start (barrier_of (\<lambda>db. db) (''o1'', False) five_served)
    \<and> br_finals (barrier_of (\<lambda>db. db) (''o1'', False) five_served) = 1"
proof
  show "(barrier_next False)\<^sup>*\<^sup>* b_start (barrier_of (\<lambda>db. db) (''o1'', False) five_served)"
    by (rule service_refines_barrier [OF map_redis_ok _ five_served_run]) (simp_all add: map_redis_up)
qed (simp add: barrier_of_def five_served_finals)

text \<open>Six reports: two calls see the threshold, and the first finalization ends before the second call's SETNX.\<close>

definition six_served :: "redis_db server" where
  "six_served =
     (let sv = serve_all map_redis [0, 1, 2, 3, 4, 5, 4, 4]
           (fold receive_call (replicate 6 (hd five_reports)) (server_start Map.empty))
      in serve_all map_redis [5, 5] (sv\<lparr>sv_redis := delete_order map_redis (''o1'', False) (sv_redis sv),
           sv_running := remove1 (''o1'', False) (sv_running sv)\<rparr>))"

text \<open>
  C15. The bound of five is sharp, and the marker is not a one-time marker. When a sixth report on an order
  arrives (from a second robot of an aisle, say), two calls can see the threshold, and the end of the
  first finalization removes the marker together with the counter: the second call sets it again, and a
  second finalization of the order is started, without any fault.
\<close>

theorem finalized_twice:
  "(service_step map_redis (\<lambda>db. db) False)\<^sup>*\<^sup>* (server_start Map.empty) six_served
    \<and> count_list (map req_key (sv_calls six_served)) (''o1'', False) = 6
    \<and> sv_finals six_served = [(''o1'', False), (''o1'', False)]"
proof
  let ?sv = "serve_all map_redis [0, 1, 2, 3, 4, 5, 4, 4]
    (fold receive_call (replicate 6 (hd five_reports)) (server_start Map.empty))"
  have "(''o1'', False) \<in> set (sv_running ?sv)" by code_simp
  then have "service_step map_redis (\<lambda>db. db) False ?sv
      (?sv\<lparr>sv_redis := delete_order map_redis (''o1'', False) (sv_redis ?sv),
        sv_running := remove1 (''o1'', False) (sv_running ?sv)\<rparr>)"
    by (intro inside finish)
  then have "(service_step map_redis (\<lambda>db. db) False)\<^sup>*\<^sup>* (server_start Map.empty)
      (?sv\<lparr>sv_redis := delete_order map_redis (''o1'', False) (sv_redis ?sv),
        sv_running := remove1 (''o1'', False) (sv_running ?sv)\<rparr>)"
    using rtranclp_trans [OF receive_run serve_all_run] by (rule rtranclp.rtrancl_into_rtrancl [rotated])
  then show "(service_step map_redis (\<lambda>db. db) False)\<^sup>*\<^sup>* (server_start Map.empty) six_served"
    unfolding six_served_def Let_def using serve_all_run by (rule rtranclp_trans)
  show "count_list (map req_key (sv_calls six_served)) (''o1'', False) = 6
    \<and> sv_finals six_served = [(''o1'', False), (''o1'', False)]" by code_simp
qed

text \<open>
  Commands sent again. Four reports, of which the first call's INCR is executed, its reply lost, and
  executed again. Five reports, and the same with the SETNX of the call that sees the threshold.
\<close>

definition run_stray :: "redis_db server \<Rightarrow> redis_db server" where
  "run_stray sv = (case task_step map_redis (sv_strays sv ! 0) (sv_redis sv) of
     Some (t, gs, r) \<Rightarrow> after_stray 0 r sv | None \<Rightarrow> sv)"

definition again :: "nat \<Rightarrow> redis_db server \<Rightarrow> redis_db server" where
  "again j sv = run_stray (send_again (sv_tasks sv ! j) sv)"

lemma again_run:
  assumes "j < length (sv_tasks sv)" "stray_of (sv_tasks sv ! j) \<noteq> []" "sv_strays sv = []"
  shows "(service_step map_redis (\<lambda>db. db) True)\<^sup>*\<^sup>* sv (again j sv)"
proof -
  let ?sv = "send_again (sv_tasks sv ! j) sv"
  from assms(1) have 1: "service_step map_redis (\<lambda>db. db) True sv ?sv" by (intro inside resend) simp_all
  have j: "0 < length (sv_strays ?sv)" using assms(2) by (simp add: send_again_def)
  show ?thesis
  proof (cases "task_step map_redis (sv_strays ?sv ! 0) (sv_redis ?sv)")
    case None
    with 1 show ?thesis by (simp add: again_def run_stray_def)
  next
    case (Some x)
    then obtain t gs r where x: "task_step map_redis (sv_strays ?sv ! 0) (sv_redis ?sv) = Some (t, gs, r)"
      by (cases x) auto
    with j have "service_step map_redis (\<lambda>db. db) True ?sv (after_stray 0 r ?sv)" by (intro inside stray) simp_all
    with 1 x show ?thesis by (simp add: again_def run_stray_def)
  qed
qed

definition four_served :: "redis_db server" where
  "four_served = serve_all map_redis [0, 1, 2, 3, 3, 3]
     (again 0 (fold receive_call (replicate 4 (hd five_reports)) (server_start Map.empty)))"

definition stuck_served :: "redis_db server" where
  "stuck_served = serve_all map_redis [4] (again 4 (serve_all map_redis [0, 1, 2, 3, 4]
     (fold receive_call five_reports (server_start Map.empty))))"

text \<open>
  C16. The retries of the Redis client break the barrier both ways. INCR is not idempotent: when the
  reply to one INCR is lost and the client sends it again, four reports finalize an order, before the
  fifth robot has reported. SETNX is not either: when the reply to the marker's SETNX is lost, the client's
  second attempt finds the marker set, and after five reports, with every call answered with success,
  the order is not finalized, and no command is left that would do it.
\<close>

theorem retries_break_barrier:
  "(service_step map_redis (\<lambda>db. db) True)\<^sup>*\<^sup>* (server_start Map.empty) four_served
    \<and> count_list (map req_key (sv_calls four_served)) (''o1'', False) = 4
    \<and> sv_finals four_served = [(''o1'', False)]
    \<and> (service_step map_redis (\<lambda>db. db) True)\<^sup>*\<^sup>* (server_start Map.empty) stuck_served
    \<and> count_list (map req_key (sv_calls stuck_served)) (''o1'', False) = 5
    \<and> list_all (\<lambda>t. case t of Return (Inr True) \<Rightarrow> True | _ \<Rightarrow> False) (sv_tasks stuck_served)
    \<and> sv_finals stuck_served = [] \<and> sv_strays stuck_served = []"
proof (intro conjI)
  let ?four = "fold receive_call (replicate 4 (hd five_reports)) (server_start Map.empty)"
  have "(service_step map_redis (\<lambda>db. db) True)\<^sup>*\<^sup>* ?four (again 0 ?four)"
    by (rule again_run) code_simp+
  with receive_run have "(service_step map_redis (\<lambda>db. db) True)\<^sup>*\<^sup>* (server_start Map.empty) (again 0 ?four)"
    by (rule rtranclp_trans)
  then show "(service_step map_redis (\<lambda>db. db) True)\<^sup>*\<^sup>* (server_start Map.empty) four_served"
    unfolding four_served_def using serve_all_run by (rule rtranclp_trans)
  let ?five = "serve_all map_redis [0, 1, 2, 3, 4] (fold receive_call five_reports (server_start Map.empty))"
  have "(service_step map_redis (\<lambda>db. db) True)\<^sup>*\<^sup>* ?five (again 4 ?five)"
    by (rule again_run) code_simp+
  with rtranclp_trans [OF receive_run serve_all_run]
  have "(service_step map_redis (\<lambda>db. db) True)\<^sup>*\<^sup>* (server_start Map.empty) (again 4 ?five)"
    by (rule rtranclp_trans)
  then show "(service_step map_redis (\<lambda>db. db) True)\<^sup>*\<^sup>* (server_start Map.empty) stuck_served"
    unfolding stuck_served_def using serve_all_run by (rule rtranclp_trans)
  show "count_list (map req_key (sv_calls four_served)) (''o1'', False) = 4" by code_simp
  show "sv_finals four_served = [(''o1'', False)]" by code_simp
  show "count_list (map req_key (sv_calls stuck_served)) (''o1'', False) = 5" by code_simp
  show "list_all (\<lambda>t. case t of Return (Inr True) \<Rightarrow> True | _ \<Rightarrow> False) (sv_tasks stuck_served)" by code_simp
  show "sv_finals stuck_served = []" "sv_strays stuck_served = []" by code_simp+
qed

end
