(* ===== verification/Fleet.thy ===== *)
theory Fleet
  imports ReportBarrier "HOL-Library.Sublist"
begin

text \<open>
  The whole order pipeline: the inventory service publishes orders, every robot of the fleet receives
  them over its own connection, works and reports, and the service counts the reports and finalizes.
  The processes run concurrently and share nothing but the network, so a step is one published
  message, one message that arrives at (or is lost on its way to) a robot, one iteration of a robot's
  loop, or one step inside the service. A robot goes on without waiting for the task of its call, which
  allows more interleavings than the program has.
\<close>

section \<open>The system\<close>

text \<open>
  Its parameters: the robots with their subscribed sockets, what waits at the socket in the state of a
  robot's libraries, the calls that a robot's channel has brought to the service, the arrival of a
  message, and the service's Redis server.
\<close>

record ('m, 'w, 'v, 'f, 'r) fleet_env =
  fe_env :: "('m, 'w, 'v, 'f) robot_env"
  fe_robots :: "(robot_worker \<times> socket_t) list"
  fe_inq :: "'w \<Rightarrow> (byte list \<times> bool) list"
  fe_sent :: "'w \<Rightarrow> report_request list"
  fe_deliver :: "byte list \<Rightarrow> 'w \<Rightarrow> 'w"
  fe_redis :: "'r redis_api"
  fe_view :: "'r \<Rightarrow> redis_db"

text \<open>
  Its state: the messages that will be published, those on their way to each robot, each robot's trace
  and libraries, the robots that have ended with an exception, and the service.
\<close>

record ('w, 'r) fleet =
  fl_todo :: "byte list list"
  fl_net :: "byte list list list"
  fl_procs :: "(report_request event list \<times> 'w) list"
  fl_down :: "nat set"
  fl_server :: "'r server"

text \<open>The calls that an iteration has brought to the service.\<close>

definition new_calls :: "('m, 'w, 'v, 'f, 'r) fleet_env \<Rightarrow> 'w \<Rightarrow> 'w \<Rightarrow> report_request list" where
  "new_calls E w w' = drop (length (fe_sent E w)) (fe_sent E w')"

inductive fleet_step ::
  "('m, 'w, 'v, 'f, 'r) fleet_env \<Rightarrow> bool \<Rightarrow> ('w, 'r) fleet \<Rightarrow> ('w, 'r) fleet \<Rightarrow> bool" for E faults where
  publish: "fl_todo s = m # ms \<Longrightarrow>
    fleet_step E faults s (s\<lparr>fl_todo := ms, fl_net := map (\<lambda>q. q @ [m]) (fl_net s)\<rparr>)"
| deliver: "i < length (fl_net s) \<Longrightarrow> fl_net s ! i = m # ms \<Longrightarrow> fl_procs s ! i = (tr, w) \<Longrightarrow>
    fleet_step E faults s (s\<lparr>fl_net := (fl_net s)[i := ms], fl_procs := (fl_procs s)[i := (tr, fe_deliver E m w)]\<rparr>)"
| lose: "faults \<Longrightarrow> i < length (fl_net s) \<Longrightarrow> fl_net s ! i = m # ms \<Longrightarrow>
    fleet_step E faults s (s\<lparr>fl_net := (fl_net s)[i := ms]\<rparr>)"
| handle: "i < length (fe_robots E) \<Longrightarrow> i \<notin> fl_down s \<Longrightarrow> fe_robots E ! i = (robot, sub) \<Longrightarrow>
    fl_procs s ! i = (tr, w) \<Longrightarrow> fe_inq E w \<noteq> [] \<Longrightarrow>
    robot_iter (fe_env E) robot sub (tr, w) = (res, (tr', w')) \<Longrightarrow>
    fleet_step E faults s (s\<lparr>fl_procs := (fl_procs s)[i := (tr', w')],
      fl_down := (case res of Inl _ \<Rightarrow> insert i (fl_down s) | Inr _ \<Rightarrow> fl_down s),
      fl_server := fold receive_call (new_calls E w w') (fl_server s)\<rparr>)"
| service: "server_step (fe_redis E) (fe_view E) faults (fl_server s) sv \<Longrightarrow>
    fleet_step E faults s (s\<lparr>fl_server := sv\<rparr>)"

text \<open>
  What the libraries of the robots document: libzmq takes messages off the socket's queue and does not
  touch the gRPC channel; a call takes no message off the queue and reaches the service at most once, and
  exactly once if its status is OK; a message that arrives joins the queue.
\<close>

definition fleet_lib :: "('m, 'w, 'v, 'f, 'r) fleet_env \<Rightarrow> bool" where
  "fleet_lib E \<longleftrightarrow> (let api = re_api (fe_env E) in msg_api_ok api
     \<and> (\<forall>(robot, sub) \<in> set (fe_robots E). inbound api (sb_handle sub) (fe_inq E)
          \<and> (\<forall>rq w st w'. re_rpc (fe_env E) (stub robot) rq w = (st, w') \<longrightarrow> fe_inq E w' = fe_inq E w
               \<and> (fe_sent E w' = fe_sent E w @ [rq] \<or> \<not> st_ok st \<and> fe_sent E w' = fe_sent E w)))
     \<and> (\<forall>w. fe_sent E (snd (zmq_msg_init api w)) = fe_sent E w)
     \<and> (\<forall>h m fl w. fe_sent E (snd (zmq_msg_recv api h m fl w)) = fe_sent E w)
     \<and> (\<forall>m w. fe_inq E (fe_deliver E m w) = fe_inq E w @ [(m, False)] \<and> fe_sent E (fe_deliver E m w) = fe_sent E w))"

text \<open>All calls succeed.\<close>

definition calls_succeed :: "('m, 'w, 'v, 'f, 'r) fleet_env \<Rightarrow> bool" where
  "calls_succeed E \<longleftrightarrow> (\<forall>(robot, sub) \<in> set (fe_robots E). \<forall>rq w. st_ok (fst (re_rpc (fe_env E) (stub robot) rq w)))"

text \<open>
  The orders that will be published, with their messages: each message can be read as its order, and no
  order is published twice. The start: all robots subscribed and idle, the service with no counters and
  markers.
\<close>

definition key_of_order :: "order \<Rightarrow> order_key" where
  "key_of_order = (\<lambda>(oid, ty, items). (oid, ty = ''RESTOCK''))"

definition orders_ok :: "('m, 'w, 'v, 'f, 'r) fleet_env \<Rightarrow> (byte list \<times> order) list \<Rightarrow> bool" where
  "orders_ok E msgs \<longleftrightarrow> (\<forall>(bs, ord) \<in> set msgs. order_read (re_rt (fe_env E)) bs = Inr (order_content ord))
     \<and> distinct (map (\<lambda>(bs, ord). key_of_order ord) msgs)"

definition fleet_start ::
  "('m, 'w, 'v, 'f, 'r) fleet_env \<Rightarrow> (byte list \<times> order) list \<Rightarrow> ('w, 'r) fleet \<Rightarrow> bool" where
  "fleet_start E msgs s \<longleftrightarrow> fl_todo s = map fst msgs \<and> fl_net s = replicate (length (fe_robots E)) []
     \<and> length (fl_procs s) = length (fe_robots E)
     \<and> (\<forall>(tr, w) \<in> set (fl_procs s). rpcs tr = [] \<and> fe_inq E w = [] \<and> fe_sent E w = [])
     \<and> fl_down s = {} \<and> (\<exists>r. fl_server s = server_start r
          \<and> (\<forall>k. fe_view E r (count_key k) = None \<and> fe_view E r (mark_key k) = None))"

section \<open>Who picks an item\<close>

lemma own_items_set: "(s, q) \<in> set (own_items robot items) \<longleftrightarrow> (s, q, aisle_type robot) \<in> set items"
  by (force simp: own_items_def)

lemma own_items_distinct: "distinct (map fst items) \<Longrightarrow> distinct (map fst (own_items robot items))"
proof (induction items)
  case (Cons x items)
  obtain s q a where x: "x = (s, q, a)" by (cases x)
  have "s \<notin> fst ` set (own_items robot items)"
    using Cons.prems x by (force simp: own_items_set)
  with Cons x show ?case by simp
qed simp

lemma owed_quantity:
  assumes "distinct (map fst items)"
  shows "rq_processed_items (owed_report robot (oid, ty, items)) s = Some q \<longleftrightarrow> (s, q, aisle_type robot) \<in> set items"
proof -
  have d: "distinct (map fst (rev (own_items robot items)))"
    using own_items_distinct [OF assms, of robot] by (simp add: rev_map [symmetric] del: map_map)
  have "rq_processed_items (owed_report robot (oid, ty, items)) s = Some q
      \<longleftrightarrow> (s, q) \<in> set (rev (own_items robot items))"
    using map_of_eq_Some_iff [OF d] by (simp add: owed_report_def)
  then show ?thesis by (simp add: own_items_set)
qed

text \<open>With one robot per aisle, an item of a served aisle is in the report of exactly one robot.\<close>

lemma one_picker:
  assumes "distinct (map aisle_type robots)" "distinct (map fst items)" "(s, q, a) \<in> set items"
    and "a \<in> set (map aisle_type robots)"
  shows "\<exists>!i. i < length robots \<and> rq_processed_items (owed_report (robots ! i) (oid, ty, items)) s = Some q"
proof -
  from assms(4) obtain i where i: "i < length robots" "a = aisle_type (robots ! i)"
    by (fastforce simp: in_set_conv_nth)
  have same: "b = a" if "(s, q, b) \<in> set items" for b
    using assms(2,3) that by (metis eq_key_imp_eq_value prod.inject)
  show ?thesis
  proof (intro ex1I [of _ i] conjI)
    fix j assume "j < length robots \<and> rq_processed_items (owed_report (robots ! j) (oid, ty, items)) s = Some q"
    then have j: "j < length robots" "aisle_type (robots ! j) = a"
      using same by (auto simp: owed_quantity [OF assms(2)])
    with i have "map aisle_type robots ! j = map aisle_type robots ! i" by simp
    with i(1) j(1) show "j = i" using nth_eq_iff_index_eq [OF assms(1)] by simp
  qed (use i assms(3) in \<open>simp_all add: owed_quantity [OF assms(2)]\<close>)
qed

section \<open>One robot\<close>

lemma fleet_libD:
  assumes "fleet_lib E"
  shows "msg_api_ok (re_api (fe_env E))"
    and "\<And>w rc m w'. zmq_msg_init (re_api (fe_env E)) w = ((rc, m), w') \<Longrightarrow> fe_sent E w' = fe_sent E w"
    and "\<And>h m fl w x w'. zmq_msg_recv (re_api (fe_env E)) h m fl w = (x, w') \<Longrightarrow> fe_sent E w' = fe_sent E w"
    and "\<And>m w. fe_inq E (fe_deliver E m w) = fe_inq E w @ [(m, False)]"
    and "\<And>m w. fe_sent E (fe_deliver E m w) = fe_sent E w"
    and "\<And>robot sub. (robot, sub) \<in> set (fe_robots E) \<Longrightarrow> inbound (re_api (fe_env E)) (sb_handle sub) (fe_inq E)"
    and "\<And>robot sub rq w st w'. (robot, sub) \<in> set (fe_robots E) \<Longrightarrow>
      re_rpc (fe_env E) (stub robot) rq w = (st, w') \<Longrightarrow> fe_inq E w' = fe_inq E w
        \<and> (fe_sent E w' = fe_sent E w @ [rq] \<or> \<not> st_ok st \<and> fe_sent E w' = fe_sent E w)"
proof -
  note l = assms [unfolded fleet_lib_def Let_def]
  show "msg_api_ok (re_api (fe_env E))" using l by blast
  show "fe_sent E w' = fe_sent E w" if "zmq_msg_init (re_api (fe_env E)) w = ((rc, m), w')" for w rc m w'
  proof -
    from l have "fe_sent E (snd (zmq_msg_init (re_api (fe_env E)) w)) = fe_sent E w" by blast
    with that show ?thesis by simp
  qed
  show "fe_sent E w' = fe_sent E w" if "zmq_msg_recv (re_api (fe_env E)) h m fl w = (x, w')" for h m fl w x w'
  proof -
    from l have "fe_sent E (snd (zmq_msg_recv (re_api (fe_env E)) h m fl w)) = fe_sent E w" by blast
    with that show ?thesis by simp
  qed
  show "fe_inq E (fe_deliver E m w) = fe_inq E w @ [(m, False)]" "fe_sent E (fe_deliver E m w) = fe_sent E w" for m w
    using l by blast+
  show "inbound (re_api (fe_env E)) (sb_handle sub) (fe_inq E)" if "(robot, sub) \<in> set (fe_robots E)" for robot sub
    using l that by blast
  show "fe_inq E w' = fe_inq E w \<and> (fe_sent E w' = fe_sent E w @ [rq] \<or> \<not> st_ok st \<and> fe_sent E w' = fe_sent E w)"
    if "(robot, sub) \<in> set (fe_robots E)" "re_rpc (fe_env E) (stub robot) rq w = (st, w')" for robot sub rq w st w'
    using l that by blast
qed

lemma recv_message_sent:
  assumes "fleet_lib E" "recv_message (re_api (fe_env E)) sub w = (Inr x, w')"
  shows "fe_sent E w' = fe_sent E w"
proof -
  let ?api = "re_api (fe_env E)"
  obtain rc m w1 where i: "zmq_msg_init ?api w = ((rc, m), w1)" by (metis surj_pair)
  with msg_initD [OF fleet_libD(1) [OF assms(1)] i] have d: "message_default ?api w = (Inr m, w1)"
    by (simp add: message_default_def bnd_def call_def)
  obtain n m2 w2 where z: "zmq_msg_recv ?api (sb_handle sub) m recv_flags_none w1 = ((n, m2), w2)"
    by (metis surj_pair)
  have "w' = w2"
    using assms(2) d z by (auto simp: recv_message_def sock_recv_def bnd_def on_this_def on_lib_def zmq_assert_def
        split: if_splits)
  with fleet_libD(2) [OF assms(1) i] fleet_libD(3) [OF assms(1) z] show ?thesis by simp
qed

text \<open>An iteration with a readable message.\<close>

lemma robot_iter_fleet:
  assumes "fleet_lib E" "(robot, sub) \<in> set (fe_robots E)"
    and "order_read (re_rt (fe_env E)) bs = Inr (order_content ord)" "fe_inq E w = (bs, mo) # rest"
  shows "\<exists>tr' w'. robot_iter (fe_env E) robot sub (tr, w) = (Inr (), (tr @ tr', w')) \<and> fe_inq E w' = rest
    \<and> rpcs tr' = [owed_report robot ord]
    \<and> (fe_sent E w' = fe_sent E w @ [owed_report robot ord] \<or> \<not> calls_succeed E \<and> fe_sent E w' = fe_sent E w)"
proof -
  obtain tr' msg w1 where it: "recv_message (re_api (fe_env E)) sub w = (Inr (Some (length bs), msg), w1)"
    "fe_inq E w1 = rest" "rpcs tr' = [owed_report robot ord]"
    "robot_iter (fe_env E) robot sub (tr, w) =
      (Inr (), (tr @ tr', snd (re_rpc (fe_env E) (stub robot) (owed_report robot ord) w1)))"
    using robot_iter_run [OF fleet_libD(6) [OF assms(1,2)] fleet_libD(1) [OF assms(1)] assms(3,4), of robot tr] by blast
  obtain st w' where rpc: "re_rpc (fe_env E) (stub robot) (owed_report robot ord) w1 = (st, w')" by (metis surj_pair)
  have "st_ok st" if "calls_succeed E"
  proof -
    from that assms(2) have "st_ok (fst (re_rpc (fe_env E) (stub robot) (owed_report robot ord) w1))"
      unfolding calls_succeed_def by blast
    with rpc show ?thesis by simp
  qed
  with fleet_libD(7) [OF assms(1,2) rpc] recv_message_sent [OF assms(1) it(1)] it rpc show ?thesis
    by auto
qed

text \<open>
  What holds of a robot, given the messages that are yet to be published and those on their way to it:
  it has handled some orders, others wait at its socket, and all of them in turn, with those on their
  way and those to come, are among the published ones, in order (all of them, in an ideal run).
  It has made the owed report on each order it handled, and some (all) of these have reached the service.
\<close>

definition robot_ok ::
  "('m, 'w, 'v, 'f, 'r) fleet_env \<Rightarrow> (byte list \<times> order) list \<Rightarrow> bool \<Rightarrow> robot_worker \<Rightarrow> byte list list
     \<Rightarrow> byte list list \<Rightarrow> report_request event list \<times> 'w \<Rightarrow> bool" where
  "robot_ok E msgs ideal robot todo net = (\<lambda>(tr, w). \<exists>h q n t. todo = map fst t \<and> net = map fst n
     \<and> fe_inq E w = map (\<lambda>(bs, ord). (bs, False)) q \<and> rpcs tr = map (\<lambda>(bs, ord). owed_report robot ord) h
     \<and> subseq (fe_sent E w) (rpcs tr) \<and> subseq (h @ q @ n @ t) msgs
     \<and> (ideal \<longrightarrow> fe_sent E w = rpcs tr \<and> h @ q @ n @ t = msgs))"

lemma robot_okE:
  assumes "robot_ok E msgs ideal robot todo net (tr, w)"
  obtains h q n t where "todo = map fst t" "net = map fst n" "fe_inq E w = map (\<lambda>(bs, ord). (bs, False)) q"
    "rpcs tr = map (\<lambda>(bs, ord). owed_report robot ord) h" "subseq (fe_sent E w) (rpcs tr)"
    "subseq (h @ q @ n @ t) msgs" "ideal \<longrightarrow> fe_sent E w = rpcs tr \<and> h @ q @ n @ t = msgs"
  using assms unfolding robot_ok_def prod.case by blast

lemma robot_okI:
  assumes "todo = map fst t" "net = map fst n" "fe_inq E w = map (\<lambda>(bs, ord). (bs, False)) q"
    "rpcs tr = map (\<lambda>(bs, ord). owed_report robot ord) h" "subseq (fe_sent E w) (rpcs tr)"
    "subseq (h @ q @ n @ t) msgs" "ideal \<longrightarrow> fe_sent E w = rpcs tr \<and> h @ q @ n @ t = msgs"
  shows "robot_ok E msgs ideal robot todo net (tr, w)"
  unfolding robot_ok_def prod.case using assms by blast

lemma subseq_set: "subseq xs ys \<Longrightarrow> set xs \<subseteq> set ys"
  by (auto dest: list_emb_set)

lemma subseq_distinct: "subseq xs ys \<Longrightarrow> distinct ys \<Longrightarrow> distinct xs"
  by (induction rule: list_emb.induct) (auto dest: subseq_set)

lemma robot_ok_start:
  assumes "rpcs tr = []" "fe_inq E w = []" "fe_sent E w = []"
  shows "robot_ok E msgs ideal robot (map fst msgs) [] (tr, w)"
  by (rule robot_okI [where h = "[]" and q = "[]" and n = "[]" and t = msgs]) (use assms in simp_all)

lemma robot_ok_publish:
  assumes "robot_ok E msgs ideal robot (m # ms) net (tr, w)"
  shows "robot_ok E msgs ideal robot ms (net @ [m]) (tr, w)"
  using assms
proof (rule robot_okE)
  fix h q n t
  assume r: "m # ms = map fst t" "net = map fst n" "fe_inq E w = map (\<lambda>(bs, ord). (bs, False)) q"
    "rpcs tr = map (\<lambda>(bs, ord). owed_report robot ord) h" "subseq (fe_sent E w) (rpcs tr)"
    "subseq (h @ q @ n @ t) msgs" "ideal \<longrightarrow> fe_sent E w = rpcs tr \<and> h @ q @ n @ t = msgs"
  then obtain x t' where t: "t = x # t'" "m = fst x" "ms = map fst t'" by (cases t) auto
  show ?thesis by (rule robot_okI [where h = h and q = q and n = "n @ [x]" and t = t']) (use r t in auto)
qed

lemma robot_ok_deliver:
  assumes "fleet_lib E" "robot_ok E msgs ideal robot todo (m # ms) (tr, w)"
  shows "robot_ok E msgs ideal robot todo ms (tr, fe_deliver E m w)"
  using assms(2)
proof (rule robot_okE)
  fix h q n t
  assume r: "todo = map fst t" "m # ms = map fst n" "fe_inq E w = map (\<lambda>(bs, ord). (bs, False)) q"
    "rpcs tr = map (\<lambda>(bs, ord). owed_report robot ord) h" "subseq (fe_sent E w) (rpcs tr)"
    "subseq (h @ q @ n @ t) msgs" "ideal \<longrightarrow> fe_sent E w = rpcs tr \<and> h @ q @ n @ t = msgs"
  then obtain ord n' where n: "n = (m, ord) # n'" "ms = map fst n'" by (cases n) auto
  show ?thesis
    by (rule robot_okI [where h = h and q = "q @ [(m, ord)]" and n = n' and t = t])
      (use r n fleet_libD(4,5) [OF assms(1)] in auto)
qed

lemma robot_ok_lose:
  assumes "robot_ok E msgs False robot todo (m # ms) (tr, w)"
  shows "robot_ok E msgs False robot todo ms (tr, w)"
  using assms
proof (rule robot_okE)
  fix h q n t
  assume r: "todo = map fst t" "m # ms = map fst n" "fe_inq E w = map (\<lambda>(bs, ord). (bs, False)) q"
    "rpcs tr = map (\<lambda>(bs, ord). owed_report robot ord) h" "subseq (fe_sent E w) (rpcs tr)"
    "subseq (h @ q @ n @ t) msgs"
  then obtain x n' where n: "n = x # n'" "ms = map fst n'" by (cases n) auto
  have "subseq (h @ q @ n' @ t) (h @ q @ n @ t)" unfolding n(1) by (auto simp: subseq_append' intro: list_emb_Cons)
  with r(6) have "subseq (h @ q @ n' @ t) msgs" by (rule subseq_order.order_trans [rotated])
  with r n(2) show ?thesis by (intro robot_okI [where h = h and q = q and n = n' and t = t]) auto
qed

lemma robot_ok_handle:
  assumes "fleet_lib E" "orders_ok E msgs" "(robot, sub) \<in> set (fe_robots E)"
    and "ideal \<longrightarrow> calls_succeed E" "robot_ok E msgs ideal robot todo net (tr, w)" "fe_inq E w \<noteq> []"
    and "robot_iter (fe_env E) robot sub (tr, w) = (res, (tr', w'))"
  shows "res = Inr () \<and> robot_ok E msgs ideal robot todo net (tr', w') \<and> fe_sent E w' = fe_sent E w @ new_calls E w w'
    \<and> length (fe_inq E w') < length (fe_inq E w) \<and> length (new_calls E w w') \<le> 1"
  using assms(5)
proof (rule robot_okE)
  fix h q n t
  assume r: "todo = map fst t" "net = map fst n" "fe_inq E w = map (\<lambda>(bs, ord). (bs, False)) q"
    "rpcs tr = map (\<lambda>(bs, ord). owed_report robot ord) h" "subseq (fe_sent E w) (rpcs tr)"
    "subseq (h @ q @ n @ t) msgs" "ideal \<longrightarrow> fe_sent E w = rpcs tr \<and> h @ q @ n @ t = msgs"
  with assms(6) obtain bs ord q' where q: "q = (bs, ord) # q'" by (cases q) auto
  have "(bs, ord) \<in> set msgs" using subseq_set [OF r(6)] q by auto
  with assms(2) have "order_read (re_rt (fe_env E)) bs = Inr (order_content ord)" by (auto simp: orders_ok_def)
  moreover have "fe_inq E w = (bs, False) # map (\<lambda>(bs, ord). (bs, False)) q'" using r(3) q by simp
  ultimately obtain tr1 w1 where it: "robot_iter (fe_env E) robot sub (tr, w) = (Inr (), (tr @ tr1, w1))"
    "fe_inq E w1 = map (\<lambda>(bs, ord). (bs, False)) q'" "rpcs tr1 = [owed_report robot ord]"
    "fe_sent E w1 = fe_sent E w @ [owed_report robot ord] \<or> \<not> calls_succeed E \<and> fe_sent E w1 = fe_sent E w"
    using robot_iter_fleet [OF assms(1,3)] by blast
  with assms(7) have e: "res = Inr ()" "tr' = tr @ tr1" "w' = w1" by simp_all
  have new: "fe_sent E w' = fe_sent E w @ new_calls E w w'" "length (new_calls E w w') \<le> 1"
    using it(4) e by (auto simp: new_calls_def)
  have tr': "rpcs tr' = rpcs tr @ [owed_report robot ord]" using it(3) e by simp
  have sub: "subseq (fe_sent E w') (rpcs tr')"
    using it(4) r(5) unfolding tr' e(3) by (auto intro: subseq_rev_drop_many list_emb_append_mono)
  have "robot_ok E msgs ideal robot todo net (tr', w')"
    by (rule robot_okI [where h = "h @ [(bs, ord)]" and q = q' and n = n and t = t])
      (use r it(2,4) e(3) tr' q sub assms(4) in auto)
  with e(1) new r(3) q it(2) e(3) show ?thesis by simp
qed

text \<open>Of each order, at most one report of a robot has reached the service.\<close>

lemma count_list_distinct: "distinct xs \<Longrightarrow> count_list xs x = (if x \<in> set xs then 1 else 0)"
  by (induction xs) (auto simp: count_list_0_iff)

lemma req_key_owed [simp]: "req_key (owed_report robot ord) = key_of_order ord"
  by (cases ord) (simp add: req_key_def owed_report_def key_of_order_def)

lemma robot_ok_distinct:
  assumes "orders_ok E msgs" "robot_ok E msgs ideal robot todo net (tr, w)"
  shows "distinct (map req_key (fe_sent E w))" "distinct (map req_key (rpcs tr))"
proof -
  from assms(2) obtain h q n t where
    r: "rpcs tr = map (\<lambda>(bs, ord). owed_report robot ord) h" "subseq (fe_sent E w) (rpcs tr)"
    "subseq (h @ q @ n @ t) msgs" by (rule robot_okE)
  have "subseq h (h @ q @ n @ t)" by (simp add: list_emb_append2 prefix_imp_subseq)
  then have "subseq h msgs" using r(3) by (rule subseq_order.order_trans)
  then have "subseq (map (\<lambda>(bs, ord). key_of_order ord) h) (map (\<lambda>(bs, ord). key_of_order ord) msgs)"
    by (rule subseq_map)
  with assms(1) have "distinct (map (\<lambda>(bs, ord). key_of_order ord) h)"
    unfolding orders_ok_def by (blast intro: subseq_distinct)
  moreover have "map req_key (rpcs tr) = map (\<lambda>(bs, ord). key_of_order ord) h"
    using r(1) by (simp add: comp_def case_prod_unfold)
  ultimately show "distinct (map req_key (rpcs tr))" by simp
  with subseq_map [OF r(2)] show "distinct (map req_key (fe_sent E w))" by (rule subseq_distinct)
qed

section \<open>The fleet and the service\<close>

definition reports_of :: "('m, 'w, 'v, 'f, 'r) fleet_env \<Rightarrow> order_key \<Rightarrow> report_request event list \<times> 'w \<Rightarrow> nat" where
  "reports_of E k = (\<lambda>(tr, w). count_list (map req_key (fe_sent E w)) k)"

definition fleet_inv ::
  "('m, 'w, 'v, 'f, 'r) fleet_env \<Rightarrow> (byte list \<times> order) list \<Rightarrow> bool \<Rightarrow> ('w, 'r) fleet \<Rightarrow> bool" where
  "fleet_inv E msgs ideal s \<longleftrightarrow> length (fl_net s) = length (fe_robots E) \<and> length (fl_procs s) = length (fe_robots E)
     \<and> fl_down s = {}
     \<and> (\<forall>i < length (fe_robots E).
          robot_ok E msgs ideal (fst (fe_robots E ! i)) (fl_todo s) (fl_net s ! i) (fl_procs s ! i))
     \<and> (\<forall>k. count_list (map req_key (sv_calls (fl_server s))) k = sum_list (map (reports_of E k) (fl_procs s)))
     \<and> service_ok (fe_view E) (fl_server s) \<and> (ideal \<longrightarrow> sv_again (fl_server s) = [])"

lemma fleet_inv_start:
  assumes "fleet_start E msgs s"
  shows "fleet_inv E msgs ideal s"
proof -
  from assms obtain r where r: "fl_server s = server_start r" "\<And>k. fe_view E r (count_key k) = None"
    unfolding fleet_start_def by blast
  have idle: "rpcs tr = [] \<and> fe_inq E w = [] \<and> fe_sent E w = []" if "(tr, w) \<in> set (fl_procs s)" for tr w
    using assms that unfolding fleet_start_def by blast
  have "robot_ok E msgs ideal (fst (fe_robots E ! i)) (fl_todo s) (fl_net s ! i) (fl_procs s ! i)"
    if "i < length (fe_robots E)" for i
  proof -
    obtain tr w where p: "fl_procs s ! i = (tr, w)" by (cases "fl_procs s ! i")
    with that assms have "(tr, w) \<in> set (fl_procs s)" unfolding fleet_start_def by (metis nth_mem)
    with idle robot_ok_start [of tr E w] that assms p show ?thesis by (simp add: fleet_start_def)
  qed
  moreover have "sum_list (map (reports_of E k) (fl_procs s)) = 0" for k
    using idle by (auto simp: reports_of_def)
  moreover have "service_ok (fe_view E) (fl_server s)" unfolding r(1) by (rule service_ok_start) (rule r(2))
  ultimately show ?thesis using assms r(1) by (simp add: fleet_inv_def fleet_start_def server_start_def)
qed

lemma server_step_calls: "server_step rd view faults sv sv' \<Longrightarrow> sv_calls sv' = sv_calls sv"
  by (erule server_step.cases) (simp_all add: send_again_def after_stray_def)

lemma receive_calls [simp]: "sv_calls (fold receive_call rqs sv) = sv_calls sv @ rqs"
  "sv_again (fold receive_call rqs sv) = sv_again sv"
  by (induction rqs arbitrary: sv) (simp_all add: receive_call_def)

lemma service_ok_calls: "service_ok view sv \<Longrightarrow> service_ok view (fold receive_call rqs sv)"
  by (induction rqs arbitrary: sv) (simp_all add: service_ok_receive)

lemma map_update_same: "f y = f (xs ! i) \<Longrightarrow> map f (xs[i := y]) = map f xs"
proof (rule nth_equalityI)
  fix j assume "f y = f (xs ! i)" "j < length (map f (xs[i := y]))"
  then show "map f (xs[i := y]) ! j = map f xs ! j" by (cases "j = i") simp_all
qed simp

text \<open>Every step keeps the invariant; the ideal one when nothing is lost and all calls succeed.\<close>

lemma fleet_inv_handle:
  assumes "fleet_lib E" "orders_ok E msgs" "ideal \<longrightarrow> calls_succeed E" "fleet_inv E msgs ideal s"
    and "i < length (fe_robots E)" "fe_robots E ! i = (robot, sub)" "fl_procs s ! i = (tr, w)" "fe_inq E w \<noteq> []"
    and "robot_iter (fe_env E) robot sub (tr, w) = (res, (tr', w'))"
  shows "res = Inr () \<and> fleet_inv E msgs ideal (s\<lparr>fl_procs := (fl_procs s)[i := (tr', w')],
    fl_server := fold receive_call (new_calls E w w') (fl_server s)\<rparr>)"
proof -
  note inv = assms(4) [unfolded fleet_inv_def]
  have "robot_ok E msgs ideal robot (fl_todo s) (fl_net s ! i) (tr, w)" using inv assms(5-7) by auto
  moreover have "(robot, sub) \<in> set (fe_robots E)" using assms(5,6) by (metis nth_mem)
  ultimately have r: "res = Inr ()" "robot_ok E msgs ideal robot (fl_todo s) (fl_net s ! i) (tr', w')"
    "fe_sent E w' = fe_sent E w @ new_calls E w w'"
    using robot_ok_handle [OF assms(1,2) _ assms(3) _ assms(8,9)] by blast+
  have "sum_list (map (reports_of E k) ((fl_procs s)[i := (tr', w')])) =
      sum_list (map (reports_of E k) (fl_procs s)) + count_list (map req_key (new_calls E w w')) k" for k
  proof -
    have i: "i < length (map (reports_of E k) (fl_procs s))" using inv assms(5) by simp
    have "map (reports_of E k) (fl_procs s) ! i \<le> sum_list (map (reports_of E k) (fl_procs s))"
      using i by (simp add: member_le_sum_list)
    with i assms(7) r(3) show ?thesis
      by (simp add: map_update sum_list_update reports_of_def)
  qed
  with inv r assms(5,6) show ?thesis
    by (auto simp: fleet_inv_def nth_list_update service_ok_calls)
qed

lemma fleet_inv_step:
  assumes "fleet_lib E" "redis_ok (fe_redis E) (fe_view E)" "orders_ok E msgs"
    and "ideal \<longrightarrow> calls_succeed E \<and> \<not> faults" "fleet_step E faults s s'" "fleet_inv E msgs ideal s"
  shows "fleet_inv E msgs ideal s'"
  using assms(5)
proof cases
  case (publish m ms)
  have "robot_ok E msgs ideal (fst (fe_robots E ! i)) ms (fl_net s ! i @ [m]) (fl_procs s ! i)"
    if "i < length (fe_robots E)" for i
    using assms(6) that publish(2) robot_ok_publish unfolding fleet_inv_def by (metis surj_pair)
  with assms(6) publish(1) show ?thesis by (simp add: fleet_inv_def)
next
  case (deliver i m ms tr w)
  have i: "i < length (fe_robots E)" using deliver(2) assms(6) by (simp add: fleet_inv_def)
  with assms(6) deliver(3,4) have "robot_ok E msgs ideal (fst (fe_robots E ! i)) (fl_todo s) (m # ms) (tr, w)"
    unfolding fleet_inv_def by metis
  note this [THEN robot_ok_deliver [OF assms(1)]]
  moreover have "reports_of E k (tr, fe_deliver E m w) = reports_of E k (fl_procs s ! i)" for k
    using deliver(4) fleet_libD(5) [OF assms(1)] by (simp add: reports_of_def)
  then have "map (reports_of E k) ((fl_procs s)[i := (tr, fe_deliver E m w)]) = map (reports_of E k) (fl_procs s)" for k
    by (rule map_update_same)
  ultimately show ?thesis using assms(6) deliver(1) i
    by (auto simp: fleet_inv_def nth_list_update)
next
  case (lose i m ms)
  have i: "i < length (fe_robots E)" using lose(3) assms(6) by (simp add: fleet_inv_def)
  have ideal: "ideal = False" using lose(2) assms(4) by simp
  obtain tr w where p: "fl_procs s ! i = (tr, w)" by (cases "fl_procs s ! i")
  from assms(6) i lose(4) p have "robot_ok E msgs False (fst (fe_robots E ! i)) (fl_todo s) (m # ms) (tr, w)"
    unfolding fleet_inv_def ideal by metis
  note this [THEN robot_ok_lose]
  with assms(6) lose(1) i p ideal show ?thesis by (auto simp: fleet_inv_def nth_list_update)
next
  case (handle i robot sub tr w res tr' w')
  from fleet_inv_handle [OF assms(1,3) _ assms(6) handle(2,4,5,6,7)] assms(4) handle(1)
  show ?thesis by auto
next
  case (service sv)
  have "service_ok (fe_view E) sv" "sv_calls sv = sv_calls (fl_server s)"
    using service_ok_inside [OF assms(2) service(2)] server_step_calls [OF service(2)] assms(6)
    by (simp_all add: fleet_inv_def)
  moreover have "sv_again sv = []" if ideal
  proof -
    from that assms(4) have "faults = False" by simp
    from server_step_again [OF service(2) [unfolded this]] that assms(6) show ?thesis by (simp add: fleet_inv_def)
  qed
  ultimately show ?thesis using assms(6) service(1) by (simp add: fleet_inv_def)
qed

lemma fleet_inv_run:
  assumes "fleet_lib E" "redis_ok (fe_redis E) (fe_view E)" "orders_ok E msgs"
    and "ideal \<longrightarrow> calls_succeed E \<and> \<not> faults" "fleet_start E msgs s0" "(fleet_step E faults)\<^sup>*\<^sup>* s0 s"
  shows "fleet_inv E msgs ideal s"
  using assms(6)
  by (induction rule: rtranclp_induct) (use assms(5) fleet_inv_start fleet_inv_step [OF assms(1-4)] in blast)+

end
