(* ===== verification/FleetLive.thy ===== *)
theory FleetLive
  imports Fleet
begin

text \<open>
  What the fleet and the service achieve: when an order is finalized, every robot has reported on it; and
  when nothing is lost, every run ends, with every order finalized once.
\<close>

section \<open>Systems with a measure\<close>

text \<open>A step relation whose steps keep an invariant and leave less work: its runs are bounded and end.\<close>

locale measured =
  fixes step :: "'s \<Rightarrow> 's \<Rightarrow> bool" and inv :: "'s \<Rightarrow> bool" and work :: "'s \<Rightarrow> nat"
  assumes step_less: "inv s \<Longrightarrow> step s s' \<Longrightarrow> inv s' \<and> work s' < work s"
begin

lemma run_bound:
  assumes "inv s0" "(step ^^ n) s0 s"
  shows "inv s \<and> work s + n \<le> work s0"
  using assms(2)
proof (induction n arbitrary: s)
  case (Suc n)
  then obtain s1 where s1: "(step ^^ n) s0 s1" "step s1 s" by auto
  from Suc.IH [OF s1(1)] step_less [OF _ s1(2)] show ?case by force
qed (use assms(1) in simp)

lemma run_ends: "inv s \<Longrightarrow> \<exists>n s'. (step ^^ n) s s' \<and> (\<nexists>s''. step s' s'')"
proof (induction "work s" arbitrary: s rule: less_induct)
  case less
  show ?case
  proof (cases "\<exists>s1. step s s1")
    case True
    then obtain s1 where s1: "step s s1" ..
    with step_less [OF less.prems s1] less.hyps obtain n s' where
      n: "(step ^^ n) s1 s'" "\<nexists>s''. step s' s''" by blast
    from relpowp_Suc_I2 [OF s1 n(1)] n(2) show ?thesis by blast
  next
    case False
    then show ?thesis using relpowp_0_I [of step s] by blast
  qed
qed

end

section \<open>When an order is finalized\<close>

lemma filter_key:
  "distinct (map f xs) \<Longrightarrow> x \<in> set xs \<Longrightarrow> filter (\<lambda>y. f y = f x) xs = [x]"
proof (induction xs)
  case (Cons a xs)
  show ?case
  proof (cases "x = a")
    case True
    have "f y \<noteq> f a" if "y \<in> set xs" for y
      using Cons.prems(1) imageI [OF that, of f] by auto
    with True show ?thesis by (simp add: filter_False)
  next
    case False
    with Cons.prems have "x \<in> set xs" "f a \<noteq> f x" by auto
    with Cons.IH Cons.prems(1) show ?thesis by simp
  qed
qed simp

lemma sum_list_all_one:
  "\<forall>x \<in> set xs. f x \<le> (1 :: nat) \<Longrightarrow> sum_list (map f xs) = length xs \<Longrightarrow> \<forall>x \<in> set xs. f x = 1"
proof (induction xs)
  case (Cons a xs)
  have "sum_list (map f xs) \<le> sum_list (map (\<lambda>_. 1) xs)"
    using Cons.prems(1) by (intro sum_list_mono) simp
  then have le: "sum_list (map f xs) \<le> length xs" by (simp add: sum_list_triv)
  have "f a \<le> 1" "f a + sum_list (map f xs) = Suc (length xs)" using Cons.prems by simp_all
  with le have "f a = 1" "sum_list (map f xs) = length xs" by linarith+
  with Cons.IH Cons.prems(1) show ?case by simp
qed simp

lemma count_le_1_distinct: "(\<And>x. count_list xs x \<le> 1) \<Longrightarrow> distinct xs"
proof (induction xs)
  case (Cons a xs)
  have "count_list xs a = 0" using Cons.prems [of a] by simp
  moreover have "count_list xs x \<le> 1" for x using Cons.prems [of x] by (simp split: if_splits)
  ultimately show ?case using Cons.IH by (simp add: count_list_0_iff)
qed simp

lemma fleet_reports_le:
  assumes "orders_ok E msgs" "fleet_inv E msgs ideal s" "p \<in> set (fl_procs s)"
  shows "reports_of E k p \<le> 1"
proof -
  obtain tr w where p: "p = (tr, w)" by (cases p)
  from assms(2,3) obtain i where "i < length (fe_robots E)" "fl_procs s ! i = (tr, w)"
    unfolding fleet_inv_def p by (auto simp: in_set_conv_nth)
  with assms(2) have "robot_ok E msgs ideal (fst (fe_robots E ! i)) (fl_todo s) (fl_net s ! i) (tr, w)"
    unfolding fleet_inv_def by metis
  from robot_ok_distinct(1) [OF assms(1) this] show ?thesis
    by (simp add: p reports_of_def count_list_distinct)
qed

lemma fleet_arrived:
  assumes "fleet_inv E msgs ideal s"
  shows "count_list (map req_key (sv_calls (fl_server s))) k = sum_list (map (reports_of E k) (fl_procs s))"
    and "br_arrived (barrier_of (fe_view E) k (fl_server s)) =
      sum_list (map (reports_of E k) (fl_procs s)) + count_list (sv_again (fl_server s)) (count_key k)"
    and "barrier_ok (barrier_of (fe_view E) k (fl_server s))" "length (fl_procs s) = length (fe_robots E)"
proof -
  show e: "count_list (map req_key (sv_calls (fl_server s))) k = sum_list (map (reports_of E k) (fl_procs s))"
    using assms unfolding fleet_inv_def by blast
  then show "br_arrived (barrier_of (fe_view E) k (fl_server s)) =
      sum_list (map (reports_of E k) (fl_procs s)) + count_list (sv_again (fl_server s)) (count_key k)"
    by (simp add: seen_defs)
  show "barrier_ok (barrier_of (fe_view E) k (fl_server s))"
    using assms unfolding fleet_inv_def service_ok_def by blast
  show "length (fl_procs s) = length (fe_robots E)" using assms unfolding fleet_inv_def by blast
qed

lemma fleet_arrived_le:
  assumes "orders_ok E msgs" "fleet_inv E msgs ideal s" "count_key k \<notin> set (sv_again (fl_server s))"
  shows "br_arrived (barrier_of (fe_view E) k (fl_server s)) \<le> length (fe_robots E)"
proof -
  have "sum_list (map (reports_of E k) (fl_procs s)) \<le> sum_list (map (\<lambda>_. 1) (fl_procs s))"
    by (rule sum_list_mono) (rule fleet_reports_le [OF assms(1,2)])
  then show ?thesis using fleet_arrived(2,4) [OF assms(2)] assms(3) by (simp add: sum_list_triv)
qed

lemma fleet_reported:
  assumes "orders_ok E msgs" "fleet_inv E msgs ideal s" "i < length (fe_robots E)" "(bs, ord) \<in> set msgs"
    and "reports_of E (key_of_order ord) (fl_procs s ! i) = 1"
  shows "filter (\<lambda>rq. req_key rq = key_of_order ord) (fe_sent E (snd (fl_procs s ! i)))
    = [owed_report (fst (fe_robots E ! i)) ord]"
proof -
  obtain tr w where p: "fl_procs s ! i = (tr, w)" by (cases "fl_procs s ! i")
  with assms(2,3) have ok: "robot_ok E msgs ideal (fst (fe_robots E ! i)) (fl_todo s) (fl_net s ! i) (tr, w)"
    unfolding fleet_inv_def by metis
  note d = robot_ok_distinct(1) [OF assms(1) ok]
  from assms(5) p d have "key_of_order ord \<in> req_key ` set (fe_sent E w)"
    by (simp add: reports_of_def count_list_distinct split: if_splits)
  then obtain rq where rq: "rq \<in> set (fe_sent E w)" "req_key rq = key_of_order ord" by auto
  from ok obtain h q n t where h: "rpcs tr = map (\<lambda>(bs, ord). owed_report (fst (fe_robots E ! i)) ord) h"
    "subseq (fe_sent E w) (rpcs tr)" "subseq (h @ q @ n @ t) msgs" by (rule robot_okE)
  from rq(1) subseq_set [OF h(2)] h(1) obtain bs' ord' where o: "(bs', ord') \<in> set h"
    "rq = owed_report (fst (fe_robots E ! i)) ord'" by auto
  with subseq_set [OF h(3)] have "(bs', ord') \<in> set msgs" by auto
  moreover have "key_of_order ord' = key_of_order ord" using o(2) rq(2) by simp
  ultimately have "ord' = ord"
    using assms(1,4) inj_onD [of "\<lambda>(bs, ord). key_of_order ord" "set msgs" "(bs', ord')" "(bs, ord)"]
    unfolding orders_ok_def distinct_map by simp
  with o(2) filter_key [OF d rq(1)] rq(2) p show ?thesis by simp
qed

text \<open>As long as no INCR for the order is executed again.\<close>

lemma fleet_finalized:
  assumes "orders_ok E msgs" "fleet_inv E msgs ideal s" "length (fe_robots E) = 5"
    and "count_key k \<notin> set (sv_again (fl_server s))"
  shows "count_list (sv_finals (fl_server s)) k \<le> 1"
    and "k \<in> set (sv_finals (fl_server s)) \<Longrightarrow> \<forall>p \<in> set (fl_procs s). reports_of E k p = 1"
proof -
  let ?b = "barrier_of (fe_view E) k (fl_server s)"
  have b: "reached ?b \<le> 1" "reached ?b = 1 \<Longrightarrow> br_arrived ?b = 5"
    using fleet_arrived(3) [OF assms(2), of k] fleet_arrived_le [OF assms(1,2,4)] assms(3)
    unfolding barrier_ok_def by auto
  have finals: "count_list (sv_finals (fl_server s)) k \<le> reached ?b"
    by (simp add: reached_def barrier_of_def)
  with b(1) show "count_list (sv_finals (fl_server s)) k \<le> 1" by simp
  assume "k \<in> set (sv_finals (fl_server s))"
  with count_list_pos [OF this] finals b(1) have "reached ?b = 1" by linarith
  with b(2) fleet_arrived(2) [OF assms(2), of k] fleet_arrived(4) [OF assms(2)] assms(3,4)
  have "sum_list (map (reports_of E k) (fl_procs s)) = length (fl_procs s)" by simp
  with fleet_reports_le [OF assms(1,2)] show "\<forall>p \<in> set (fl_procs s). reports_of E k p = 1"
    by (intro sum_list_all_one) auto
qed

lemma fleet_finals_distinct:
  assumes "orders_ok E msgs" "fleet_inv E msgs True s" "length (fe_robots E) = 5"
  shows "distinct (sv_finals (fl_server s))"
  by (rule count_le_1_distinct, rule fleet_finalized(1) [OF assms])
    (use assms(2) in \<open>simp add: fleet_inv_def\<close>)

text \<open>The finalized orders are published ones.\<close>

lemma fleet_report_key:
  assumes "fleet_inv E msgs ideal s" "p \<in> set (fl_procs s)" "0 < reports_of E k p"
  shows "\<exists>(bs, ord) \<in> set msgs. k = key_of_order ord"
proof -
  obtain tr w where p: "p = (tr, w)" by (cases p)
  from assms(1,2) obtain i where "i < length (fe_robots E)" "fl_procs s ! i = (tr, w)"
    unfolding fleet_inv_def p by (auto simp: in_set_conv_nth)
  with assms(1) have "robot_ok E msgs ideal (fst (fe_robots E ! i)) (fl_todo s) (fl_net s ! i) (tr, w)"
    unfolding fleet_inv_def by metis
  then obtain h q n t where h: "rpcs tr = map (\<lambda>(bs, ord). owed_report (fst (fe_robots E ! i)) ord) h"
    "subseq (fe_sent E w) (rpcs tr)" "subseq (h @ q @ n @ t) msgs" by (rule robot_okE)
  from assms(3) have "k \<in> req_key ` set (fe_sent E w)"
    by (simp add: p reports_of_def count_list_0_iff flip: neq0_conv)
  with subseq_set [OF h(2)] obtain rq where "rq \<in> set (rpcs tr)" "k = req_key rq" by auto
  with h(1) obtain bs ord where "(bs, ord) \<in> set h" "k = key_of_order ord" by auto
  with subseq_set [OF h(3)] show ?thesis by auto
qed

text \<open>The reports of a robot on an order that have reached the service.\<close>

definition reported ::
  "('m, 'w, 'v, 'f, 'r) fleet_env \<Rightarrow> ('w, 'r) fleet \<Rightarrow> order_key \<Rightarrow> nat \<Rightarrow> report_request list" where
  "reported E s k i = filter (\<lambda>rq. req_key rq = k) (fe_sent E (snd (fl_procs s ! i)))"

lemma fleet_final_reports:
  assumes "orders_ok E msgs" "fleet_inv E msgs ideal s" "length (fe_robots E) = 5"
    and "count_key k \<notin> set (sv_again (fl_server s))" "k \<in> set (sv_finals (fl_server s))"
  shows "\<exists>bs ord. (bs, ord) \<in> set msgs \<and> k = key_of_order ord
    \<and> (\<forall>i < 5. reported E s k i = [owed_report (fst (fe_robots E ! i)) ord])"
proof -
  note all = fleet_finalized(2) [OF assms]
  have n: "length (fl_procs s) = 5" using assms(2,3) by (simp add: fleet_inv_def)
  then have "fl_procs s ! 0 \<in> set (fl_procs s)" by simp
  with all fleet_report_key [OF assms(2) this, of k] obtain bs ord where
    o: "(bs, ord) \<in> set msgs" "k = key_of_order ord" by auto
  have "reported E s k i = [owed_report (fst (fe_robots E ! i)) ord]" if "i < 5" for i
    using fleet_reported [OF assms(1,2) _ o(1)] all n that assms(3) o(2) unfolding reported_def by simp
  with o show ?thesis by blast
qed

section \<open>Every run ends\<close>

text \<open>The work that is left: of a task, of the service, of the fleet.\<close>

fun task_work :: "'a task \<Rightarrow> nat" where
  "task_work (Return x) = 0"
| "task_work (Incr d key k) = 4"
| "task_work (SetNX d key v k) = 3"
| "task_work (Finalize orderID isRestock k) = 2"
| "task_work (Del d keys k) = 1"

definition server_work :: "'r server \<Rightarrow> nat" where
  "server_work sv = sum_list (map task_work (sv_tasks sv)) + length (sv_running sv)"

definition fleet_work :: "('m, 'w, 'v, 'f, 'r) fleet_env \<Rightarrow> ('w, 'r) fleet \<Rightarrow> nat" where
  "fleet_work E s = (6 * length (fl_net s) + 1) * length (fl_todo s) + sum_list (map (\<lambda>q. 6 * length q) (fl_net s))
     + sum_list (map (\<lambda>(tr, w). 5 * length (fe_inq E w)) (fl_procs s)) + server_work (fl_server s)"

lemma task_step_work:
  "call_task t0 \<Longrightarrow> task_step rd t0 r = Some (t, gs, r') \<Longrightarrow> task_work t + length gs < task_work t0"
  by (auto simp: call_task_def task_defs split: prod.splits sum.splits if_splits)

lemma sum_list_update_le:
  "i < length xs \<Longrightarrow> f y + d \<le> f (xs ! i) \<Longrightarrow> sum_list (map f (xs[i := y])) + d \<le> (sum_list (map f xs) :: nat)"
proof (induction xs arbitrary: i)
  case (Cons a xs)
  then show ?case by (cases i) auto
qed simp

lemma sum_list_update_less:
  "i < length xs \<Longrightarrow> f y + d < f (xs ! i) \<Longrightarrow> sum_list (map f (xs[i := y])) + d < (sum_list (map f xs) :: nat)"
  using sum_list_update_le [of i xs f y "Suc d"] by simp

lemma server_step_work:
  assumes "server_step rd view False sv sv'" "list_all call_task (sv_tasks sv)"
  shows "server_work sv' < server_work sv"
  using assms(1)
proof cases
  case (serve j t gs r)
  have "call_task (sv_tasks sv ! j)" using assms(2) serve(2) by (simp add: list_all_length)
  from sum_list_update_less [OF serve(2) task_step_work [OF this serve(3)]] serve(1) show ?thesis
    by (simp add: server_work_def)
next
  case (finish k)
  then have "length (sv_running sv') < length (sv_running sv)"
    by (simp add: length_remove1) (metis diff_Suc_less length_pos_if_in_set)
  with finish(1) show ?thesis by (simp add: server_work_def)
qed simp_all

lemma receive_work: "server_work (fold receive_call rqs sv) = server_work sv + 4 * length rqs"
  by (induction rqs arbitrary: sv) (simp_all add: server_work_def receive_call_def ReportJobStatus_start start_task_def)

lemma publish_work: "sum_list (map (\<lambda>q. 6 * length q) (map (\<lambda>q. q @ [m]) net)) =
    sum_list (map (\<lambda>q. 6 * length q) net) + 6 * length net"
  by (induction net) simp_all

lemma fleet_step_work:
  assumes "fleet_lib E" "orders_ok E msgs" "fleet_inv E msgs ideal s" "ideal \<longrightarrow> calls_succeed E"
    and "fleet_step E False s s'"
  shows "fleet_work E s' < fleet_work E s"
  using assms(5)
proof cases
  case (publish m ms)
  then show ?thesis using publish_work [of m "fl_net s"] by (simp add: fleet_work_def comp_def)
next
  case (deliver i m ms tr w)
  have "sum_list (map (\<lambda>q. 6 * length q) ((fl_net s)[i := ms])) + 6 \<le> sum_list (map (\<lambda>q. 6 * length q) (fl_net s))"
    by (rule sum_list_update_le) (use deliver in simp_all)
  moreover have i: "i < length (fl_procs s)" using deliver(2) assms(3) by (simp add: fleet_inv_def)
  have "sum_list (map (\<lambda>(tr, w). 5 * length (fe_inq E w)) ((fl_procs s)[i := (tr, fe_deliver E m w)]))
      = sum_list (map (\<lambda>(tr, w). 5 * length (fe_inq E w)) (fl_procs s)) + 5"
    using i deliver(4) fleet_libD(4) [OF assms(1)]
      member_le_sum_list [of "map (\<lambda>(tr, w). 5 * length (fe_inq E w)) (fl_procs s) ! i"
        "map (\<lambda>(tr, w). 5 * length (fe_inq E w)) (fl_procs s)"]
    by (simp add: map_update sum_list_update)
  ultimately show ?thesis using deliver(1) by (simp add: fleet_work_def)
next
  case (handle i robot sub tr w res tr' w')
  have "robot_ok E msgs ideal robot (fl_todo s) (fl_net s ! i) (tr, w)"
    using assms(3) handle(2,4,5) unfolding fleet_inv_def by (metis fst_conv)
  moreover have "(robot, sub) \<in> set (fe_robots E)" using handle(2,4) by (metis nth_mem)
  ultimately have r: "length (fe_inq E w') < length (fe_inq E w)" "length (new_calls E w w') \<le> 1"
    using robot_ok_handle [OF assms(1,2) _ assms(4) _ handle(6,7)] by blast+
  have "sum_list (map (\<lambda>(tr, w). 5 * length (fe_inq E w)) ((fl_procs s)[i := (tr', w')])) + 5
      \<le> sum_list (map (\<lambda>(tr, w). 5 * length (fe_inq E w)) (fl_procs s))"
    by (rule sum_list_update_le) (use handle assms(3) r(1) in \<open>simp_all add: fleet_inv_def\<close>)
  with r(2) handle(1) show ?thesis by (simp add: fleet_work_def receive_work)
next
  case (service sv)
  have "list_all call_task (sv_tasks (fl_server s))"
    using assms(3) by (simp add: fleet_inv_def service_ok_def server_wf_def)
  with server_step_work [OF service(2)] service(1) show ?thesis by (simp add: fleet_work_def)
qed simp

section \<open>Every order is finalized\<close>

definition fleet_live ::
  "('m, 'w, 'v, 'f, 'r) fleet_env \<Rightarrow> (byte list \<times> order) list \<Rightarrow> ('w, 'r) fleet \<Rightarrow> bool" where
  "fleet_live E msgs s \<longleftrightarrow> fleet_inv E msgs True s \<and> (\<forall>k. barrier_live (barrier_of (fe_view E) k (fl_server s)))"

text \<open>The libraries, the Redis server and the network work without faults.\<close>

definition fleet_ideal :: "('m, 'w, 'v, 'f, 'r) fleet_env \<Rightarrow> bool" where
  "fleet_ideal E \<longleftrightarrow> fleet_lib E \<and> calls_succeed E \<and> redis_ok (fe_redis E) (fe_view E)
     \<and> redis_up (fe_redis E) (fe_view E)"

lemma fleet_live_start:
  assumes "fleet_start E msgs s"
  shows "fleet_live E msgs s"
proof -
  from assms obtain r where r: "fl_server s = server_start r"
    "\<And>k. fe_view E r (count_key k) = None \<and> fe_view E r (mark_key k) = None"
    unfolding fleet_start_def by blast
  then have "barrier_of (fe_view E) k (fl_server s) = b_start" for k
    by (simp add: seen_defs server_start_def b_start_def)
  with fleet_inv_start [OF assms] barrier_live_start show ?thesis by (simp add: fleet_live_def)
qed

lemma barrier_live_calls:
  "service_ok view sv \<Longrightarrow> \<forall>k. barrier_live (barrier_of view k sv) \<Longrightarrow>
   \<forall>k. barrier_live (barrier_of view k (fold receive_call rqs sv))"
proof (induction rqs arbitrary: sv)
  case (Cons rq rqs)
  have "barrier_live (barrier_of view k (receive_call rq sv))" for k
    using Cons.prems barrier_live_receive [of "barrier_of view k sv"]
    unfolding barrier_of_receive service_ok_def by presburger
  with Cons.IH [OF service_ok_receive [OF Cons.prems(1)]] show ?case by simp
qed simp

lemma fleet_live_step:
  assumes "fleet_ideal E" "orders_ok E msgs" "fleet_step E False s s'" "fleet_live E msgs s"
  shows "fleet_live E msgs s'"
proof -
  have inv: "fleet_inv E msgs True s'"
    using fleet_inv_step [OF _ _ assms(2) _ assms(3)] assms(1,4) by (simp add: fleet_ideal_def fleet_live_def)
  have sv: "service_ok (fe_view E) (fl_server s)" "\<forall>k. barrier_live (barrier_of (fe_view E) k (fl_server s))"
    using assms(4) by (simp_all add: fleet_live_def fleet_inv_def)
  have "\<forall>k. barrier_live (barrier_of (fe_view E) k (fl_server s'))"
    using assms(3)
  proof cases
    case (handle i robot sub tr w res tr' w')
    with barrier_live_calls [OF sv] show ?thesis by simp
  next
    case (service sv')
    have "barrier_live (barrier_of (fe_view E) k sv')" for k
      using server_step_barrier [OF service(2), of False k] sv assms(1) barrier_live_step
      unfolding fleet_ideal_def service_ok_def by blast
    with service(1) show ?thesis by simp
  qed (use sv(2) in simp_all)
  with inv show ?thesis by (simp add: fleet_live_def)
qed

text \<open>A state in which no step is left.\<close>

lemma task_stuck: "task_step rd t r = None \<longleftrightarrow> (\<exists>x. t = Return x)"
  by (cases t) (simp_all split: prod.split)

lemma server_stuck:
  assumes "\<nexists>sv'. server_step rd view False sv sv'"
  shows "sv_running sv = []" "\<And>t. t \<in> set (sv_tasks sv) \<Longrightarrow> \<exists>x. t = Return x"
proof -
  show "sv_running sv = []"
    using assms finish [of _ sv rd view False] by (metis list.set_intros(1) neq_Nil_conv)
  fix t assume "t \<in> set (sv_tasks sv)"
  then obtain j where j: "j < length (sv_tasks sv)" "sv_tasks sv ! j = t" by (auto simp: in_set_conv_nth)
  have "task_step rd t (sv_redis sv) = None"
  proof (rule ccontr)
    assume "task_step rd t (sv_redis sv) \<noteq> None"
    then obtain t' gs r where "task_step rd (sv_tasks sv ! j) (sv_redis sv) = Some (t', gs, r)" using j(2) by auto
    from serve [OF j(1) this, of view False] assms show False by blast
  qed
  then show "\<exists>x. t = Return x" by (simp add: task_stuck)
qed

lemma fleet_stuck:
  assumes "fleet_inv E msgs ideal s" "\<nexists>s'. fleet_step E False s s'"
  shows "fl_todo s = []" "\<And>i. i < length (fe_robots E) \<Longrightarrow> fl_net s ! i = []"
    "\<And>i. i < length (fe_robots E) \<Longrightarrow> fe_inq E (snd (fl_procs s ! i)) = []"
    "\<nexists>sv'. server_step (fe_redis E) (fe_view E) False (fl_server s) sv'"
proof -
  show "fl_todo s = []" using assms(2) publish [of s _ _ E False] by (metis neq_Nil_conv)
  show "fl_net s ! i = []" if "i < length (fe_robots E)" for i
  proof (cases "fl_net s ! i")
    case (Cons m ms)
    obtain tr w where "fl_procs s ! i = (tr, w)" by (cases "fl_procs s ! i")
    with deliver [OF _ Cons this, of E False] that assms show ?thesis unfolding fleet_inv_def by metis
  qed
  show "fe_inq E (snd (fl_procs s ! i)) = []" if "i < length (fe_robots E)" for i
  proof (rule ccontr)
    assume q: "fe_inq E (snd (fl_procs s ! i)) \<noteq> []"
    obtain tr w where p: "fl_procs s ! i = (tr, w)" by (cases "fl_procs s ! i")
    obtain robot sub where rs: "fe_robots E ! i = (robot, sub)" by (cases "fe_robots E ! i")
    obtain res tr' w' where "robot_iter (fe_env E) robot sub (tr, w) = (res, (tr', w'))" by (metis surj_pair)
    from handle [OF that _ rs p _ this, of False] q p assms show False unfolding fleet_inv_def by (metis empty_iff snd_conv)
  qed
  show "\<nexists>sv'. server_step (fe_redis E) (fe_view E) False (fl_server s) sv'"
    using assms(2) service [of E False s] by blast
qed

lemma fleet_stuck_robots:
  assumes "fleet_inv E msgs True s" "\<nexists>s'. fleet_step E False s s'" "i < length (fe_robots E)"
  shows "fe_sent E (snd (fl_procs s ! i)) = map (\<lambda>(bs, ord). owed_report (fst (fe_robots E ! i)) ord) msgs"
proof -
  obtain tr w where p: "fl_procs s ! i = (tr, w)" by (cases "fl_procs s ! i")
  with assms(1,3) have "robot_ok E msgs True (fst (fe_robots E ! i)) (fl_todo s) (fl_net s ! i) (tr, w)"
    unfolding fleet_inv_def by metis
  then obtain h q n t where h: "fl_todo s = map fst t" "fl_net s ! i = map fst n"
    "fe_inq E w = map (\<lambda>(bs, ord). (bs, False)) q"
    "rpcs tr = map (\<lambda>(bs, ord). owed_report (fst (fe_robots E ! i)) ord) h"
    "subseq (fe_sent E w) (rpcs tr)" "subseq (h @ q @ n @ t) msgs"
    "True \<longrightarrow> fe_sent E w = rpcs tr \<and> h @ q @ n @ t = msgs" by (rule robot_okE)
  have "fe_inq E w = []" using fleet_stuck(3) [OF assms] p by simp
  with h fleet_stuck(1,2) [OF assms(1,2)] assms(3) have "t = []" "n = []" "q = []" by simp_all
  with h p show ?thesis by simp
qed

lemma fleet_stuck_arrived:
  assumes "fleet_inv E msgs True s" "orders_ok E msgs" "\<nexists>s'. fleet_step E False s s'" "(bs, ord) \<in> set msgs"
  shows "br_arrived (barrier_of (fe_view E) (key_of_order ord) (fl_server s)) = length (fe_robots E)"
proof -
  have one: "reports_of E (key_of_order ord) p = 1" if "p \<in> set (fl_procs s)" for p
  proof -
    from assms(1) that obtain i where i: "i < length (fe_robots E)" "fl_procs s ! i = p"
      unfolding fleet_inv_def by (auto simp: in_set_conv_nth)
    have "map req_key (fe_sent E (snd p)) = map (\<lambda>(bs, ord). key_of_order ord) msgs"
      using fleet_stuck_robots [OF assms(1,3) i(1)] i(2) by (simp add: comp_def case_prod_unfold)
    moreover have "key_of_order ord \<in> set (map (\<lambda>(bs, ord). key_of_order ord) msgs)" using assms(4) by force
    moreover have "distinct (map (\<lambda>(bs, ord). key_of_order ord) msgs)" using assms(2) by (simp add: orders_ok_def)
    ultimately show ?thesis by (cases p) (simp add: reports_of_def count_list_distinct)
  qed
  then have "sum_list (map (reports_of E (key_of_order ord)) (fl_procs s)) = sum_list (map (\<lambda>_. 1) (fl_procs s))"
    by (metis (mono_tags, lifting) map_eq_conv)
  moreover have "sv_again (fl_server s) = []" using assms(1) by (simp add: fleet_inv_def)
  ultimately show ?thesis using fleet_arrived(2,4) [OF assms(1)] by (simp add: sum_list_triv)
qed

lemma fleet_end:
  assumes "fleet_live E msgs s" "orders_ok E msgs" "length (fe_robots E) = 5" "\<nexists>s'. fleet_step E False s s'"
  shows "sv_running (fl_server s) = []"
    and "set (sv_finals (fl_server s)) = (\<lambda>(bs, ord). key_of_order ord) ` set msgs"
    and "(bs, ord) \<in> set msgs \<Longrightarrow> fe_view E (sv_redis (fl_server s)) (count_key (key_of_order ord)) = None
      \<and> fe_view E (sv_redis (fl_server s)) (mark_key (key_of_order ord)) = None"
proof -
  let ?b = "\<lambda>k. barrier_of (fe_view E) k (fl_server s)"
  have inv: "fleet_inv E msgs True s" using assms(1) by (simp add: fleet_live_def)
  note stuck = server_stuck [OF fleet_stuck(4) [OF inv assms(4)]]
  show run: "sv_running (fl_server s) = []" by (rule stuck(1))
  have idle: "br_pending (?b k) = 0" "br_marking (?b k) = 0" "br_going (?b k) = 0" "br_running (?b k) = 0" for k
    using stuck(2) by (auto simp: barrier_of_def run count_list_0_iff dest!: stuck(2))
  have "barrier_ok (?b k)" "barrier_live (?b k)" for k
    using fleet_arrived(3) [OF inv] assms(1) unfolding fleet_live_def by blast+
  note done_order = barrier_live_end [OF this _ idle]
  have arrived: "br_arrived (?b (key_of_order ord)) = 5" if "(bs, ord) \<in> set msgs" for bs ord
    using fleet_stuck_arrived [OF inv assms(2,4) that] assms(3) by simp
  show "fe_view E (sv_redis (fl_server s)) (count_key (key_of_order ord)) = None
      \<and> fe_view E (sv_redis (fl_server s)) (mark_key (key_of_order ord)) = None" if "(bs, ord) \<in> set msgs"
    using done_order(2,3) [OF arrived [OF that]] by (simp add: barrier_of_def)
  have "key_of_order ord \<in> set (sv_finals (fl_server s))" if "(bs, ord) \<in> set msgs" for bs ord
  proof -
    have "count_list (sv_finals (fl_server s)) (key_of_order ord) = 1"
      using done_order(1) [OF arrived [OF that]] by (simp add: barrier_of_def)
    then show ?thesis using count_notin by fastforce
  qed
  moreover have "\<exists>(bs, ord) \<in> set msgs. k = key_of_order ord" if "k \<in> set (sv_finals (fl_server s))" for k
  proof -
    have "fl_procs s \<noteq> []" using fleet_arrived(4) [OF inv] assms(3) by auto
    then have p: "hd (fl_procs s) \<in> set (fl_procs s)" by simp
    have "count_key k \<notin> set (sv_again (fl_server s))" using inv by (simp add: fleet_inv_def)
    with p fleet_finalized(2) [OF assms(2) inv assms(3) _ that] have "0 < reports_of E k (hd (fl_procs s))" by simp
    from fleet_report_key [OF inv p this] show ?thesis .
  qed
  ultimately have "k \<in> set (sv_finals (fl_server s)) \<longleftrightarrow> (\<exists>(bs, ord) \<in> set msgs. k = key_of_order ord)" for k
    by blast
  then show "set (sv_finals (fl_server s)) = (\<lambda>(bs, ord). key_of_order ord) ` set msgs"
    by (intro set_eqI) (simp only: image_iff case_prod_unfold)
qed

lemma fleet_work_start:
  assumes "fleet_start E msgs s"
  shows "fleet_work E s = (6 * length (fe_robots E) + 1) * length msgs"
proof -
  have "(\<lambda>(tr, w). 5 * length (fe_inq E w)) p = 0" if "p \<in> set (fl_procs s)" for p
    using assms that unfolding fleet_start_def by fastforce
  then have "sum_list (map (\<lambda>(tr, w). 5 * length (fe_inq E w)) (fl_procs s)) = 0" by simp
  with assms show ?thesis
    by (auto simp: fleet_start_def fleet_work_def server_work_def server_start_def sum_list_replicate)
qed

text \<open>Every run stays within the work at its start, and a state without a step is reached.\<close>

interpretation fleet_run: measured "fleet_step E False" "\<lambda>s. fleet_ideal E \<and> orders_ok E msgs \<and> fleet_live E msgs s"
  "fleet_work E" for E msgs
proof unfold_locales
  fix s s' assume "fleet_ideal E \<and> orders_ok E msgs \<and> fleet_live E msgs s" "fleet_step E False s s'"
  then show "(fleet_ideal E \<and> orders_ok E msgs \<and> fleet_live E msgs s') \<and> fleet_work E s' < fleet_work E s"
    using fleet_live_step [of E msgs s s'] fleet_step_work [of E msgs True s s']
    by (simp add: fleet_ideal_def fleet_live_def)
qed

lemma fleet_live_run:
  assumes "fleet_ideal E" "orders_ok E msgs" "(fleet_step E False ^^ n) s0 s" "fleet_live E msgs s0"
  shows "fleet_live E msgs s \<and> fleet_work E s + n \<le> fleet_work E s0"
  using fleet_run.run_bound [OF _ assms(3), of msgs] assms(1,2,4) by blast

lemma fleet_ends:
  assumes "fleet_ideal E" "orders_ok E msgs" "fleet_live E msgs s"
  shows "\<exists>n s'. (fleet_step E False ^^ n) s s' \<and> (\<nexists>s''. fleet_step E False s' s'')"
  using fleet_run.run_ends [of E msgs s] assms by blast

end
