(* ===== verification/Dispatch.thy ===== *)
theory Dispatch
  imports Inventory ByteRuntime
begin

text \<open>
  The sending side of the order broadcasts, in the inventory service: the handlers \<open>ProcessCustomerOrder\<close> and
  \<open>RestockItemsOrder\<close> (\<open>inventory/internal/handler/grpc.go\<close>), the look-up of the aisles
  (\<open>inventory/internal/store/stock.go\<close>) and the publisher (\<open>inventory/internal/mq/publisher.go\<close>) with the code that
  the FlatBuffers compiler generated for Go (\<open>inventory/fbs/RobotMessages\<close>). The Go FlatBuffers runtime, the
  socket, the databases and the JSON encoding are parameters; so is the order in which \<open>range\<close> visits the
  entries of a map. Log lines are left out.
\<close>

section \<open>The Go FlatBuffers builder\<close>

record ('g, 'b) go_builder =
  NewBuilder :: "nat \<Rightarrow> 'g"
  GoCreateString :: "string \<Rightarrow> 'g \<Rightarrow> nat \<times> 'g"
  StartObject :: "nat \<Rightarrow> 'g \<Rightarrow> 'g"
  PrependUOffsetTSlot :: "nat \<Rightarrow> nat \<Rightarrow> nat \<Rightarrow> 'g \<Rightarrow> 'g"
  PrependInt32Slot :: "nat \<Rightarrow> 32 word \<Rightarrow> 32 word \<Rightarrow> 'g \<Rightarrow> 'g"
  EndObject :: "'g \<Rightarrow> nat \<times> 'g"
  StartVector :: "nat \<Rightarrow> nat \<Rightarrow> nat \<Rightarrow> 'g \<Rightarrow> 'g"
  PrependUOffsetT :: "nat \<Rightarrow> 'g \<Rightarrow> 'g"
  EndVector :: "nat \<Rightarrow> 'g \<Rightarrow> nat \<times> 'g"
  GoFinish :: "nat \<Rightarrow> 'g \<Rightarrow> 'g"
  FinishedBytes :: "'g \<Rightarrow> 'b"

text \<open>
  What the runtime documents, in the terms of the C++ one (theory \<open>Flatbuffers\<close>): slot \<open>n\<close> of a table is the
  field at offset \<open>4 + 2 * n\<close> of its virtual table; a vector is written back to front; and the C++ runtime
  \<open>rt\<close> reads the finished bytes.
\<close>

definition slot :: "nat \<Rightarrow> nat" where
  "slot n = 4 + 2 * n"

definition go_ok ::
  "('g, 'b) go_builder \<Rightarrow> ('b, 'v, 'f) fb_runtime \<Rightarrow> ('b, 'g) fb_ghost \<Rightarrow> ('g \<Rightarrow> nat list) \<Rightarrow> bool" where
  "go_ok gb rt g vec \<longleftrightarrow>
     (\<forall>s b p b'. GoCreateString gb s b = (p, b') \<longrightarrow>
        p \<noteq> 0 \<and> fb_obj g b p = None \<and> fb_obj g b' = (fb_obj g b)(p \<mapsto> FString s))
   \<and> (\<forall>n b. fb_obj g (StartObject gb n b) = fb_obj g b \<and> fb_open g (StartObject gb n b) = Map.empty)
   \<and> (\<forall>n x d b. fb_obj g (PrependUOffsetTSlot gb n x d b) = fb_obj g b
        \<and> fb_open g (PrependUOffsetTSlot gb n x d b) = store_field (fb_open g b) (slot n) (FOffset x) (FOffset d))
   \<and> (\<forall>n x d b. fb_obj g (PrependInt32Slot gb n x d b) = fb_obj g b
        \<and> fb_open g (PrependInt32Slot gb n x d b) = store_field (fb_open g b) (slot n) (F32 x) (F32 d))
   \<and> (\<forall>b p b'. EndObject gb b = (p, b') \<longrightarrow>
        p \<noteq> 0 \<and> fb_obj g b p = None \<and> fb_obj g b' = (fb_obj g b)(p \<mapsto> FTable (fb_open g b)))
   \<and> (\<forall>sz n al b. fb_obj g (StartVector gb sz n al b) = fb_obj g b \<and> vec (StartVector gb sz n al b) = [])
   \<and> (\<forall>x b. fb_obj g (PrependUOffsetT gb x b) = fb_obj g b \<and> vec (PrependUOffsetT gb x b) = x # vec b)
   \<and> (\<forall>n b p b'. EndVector gb n b = (p, b') \<longrightarrow> n = length (vec b) \<longrightarrow>
        p \<noteq> 0 \<and> fb_obj g b p = None \<and> fb_obj g b' = (fb_obj g b)(p \<mapsto> FVector (vec b)))
   \<and> (\<forall>root b. let buf = FinishedBytes gb (GoFinish gb root b) in
        reads rt g (fb_obj g b) buf \<and> GetRoot rt buf = Inr (fb_at g buf root))"

lemma go_okD:
  assumes "go_ok gb rt g vec"
  shows "GoCreateString gb s b = (p, b') \<Longrightarrow>
        p \<noteq> 0 \<and> fb_obj g b p = None \<and> fb_obj g b' = (fb_obj g b)(p \<mapsto> FString s)"
    and "fb_obj g (StartObject gb n b) = fb_obj g b \<and> fb_open g (StartObject gb n b) = Map.empty"
    and "fb_obj g (PrependUOffsetTSlot gb n x d b) = fb_obj g b
        \<and> fb_open g (PrependUOffsetTSlot gb n x d b) = store_field (fb_open g b) (slot n) (FOffset x) (FOffset d)"
    and "fb_obj g (PrependInt32Slot gb n y e b) = fb_obj g b
        \<and> fb_open g (PrependInt32Slot gb n y e b) = store_field (fb_open g b) (slot n) (F32 y) (F32 e)"
    and "EndObject gb b = (p, b') \<Longrightarrow>
        p \<noteq> 0 \<and> fb_obj g b p = None \<and> fb_obj g b' = (fb_obj g b)(p \<mapsto> FTable (fb_open g b))"
    and "fb_obj g (StartVector gb sz n al b) = fb_obj g b \<and> vec (StartVector gb sz n al b) = []"
    and "fb_obj g (PrependUOffsetT gb x b) = fb_obj g b \<and> vec (PrependUOffsetT gb x b) = x # vec b"
    and "EndVector gb n b = (p, b') \<Longrightarrow> n = length (vec b) \<Longrightarrow>
        p \<noteq> 0 \<and> fb_obj g b p = None \<and> fb_obj g b' = (fb_obj g b)(p \<mapsto> FVector (vec b))"
    and "reads rt g (fb_obj g b) (FinishedBytes gb (GoFinish gb root b))"
    and "GetRoot rt (FinishedBytes gb (GoFinish gb root b)) =
      Inr (fb_at g (FinishedBytes gb (GoFinish gb root b)) root)"
  using assms unfolding go_ok_def Let_def by metis+

section \<open>The generated code\<close>

definition ItemStart :: "('g, 'b) go_builder \<Rightarrow> 'g \<Rightarrow> 'g" where
  "ItemStart gb builder = StartObject gb 3 builder"

definition ItemAddSku :: "('g, 'b) go_builder \<Rightarrow> nat \<Rightarrow> 'g \<Rightarrow> 'g" where
  "ItemAddSku gb sku builder = PrependUOffsetTSlot gb 0 sku 0 builder"

definition ItemAddQuantity :: "('g, 'b) go_builder \<Rightarrow> 32 word \<Rightarrow> 'g \<Rightarrow> 'g" where
  "ItemAddQuantity gb quantity builder = PrependInt32Slot gb 1 quantity 0 builder"

definition ItemAddAisle :: "('g, 'b) go_builder \<Rightarrow> nat \<Rightarrow> 'g \<Rightarrow> 'g" where
  "ItemAddAisle gb aisle builder = PrependUOffsetTSlot gb 2 aisle 0 builder"

definition ItemEnd :: "('g, 'b) go_builder \<Rightarrow> 'g \<Rightarrow> nat \<times> 'g" where
  "ItemEnd gb builder = EndObject gb builder"

definition OrderBroadcastStart :: "('g, 'b) go_builder \<Rightarrow> 'g \<Rightarrow> 'g" where
  "OrderBroadcastStart gb builder = StartObject gb 3 builder"

definition OrderBroadcastAddOrderId :: "('g, 'b) go_builder \<Rightarrow> nat \<Rightarrow> 'g \<Rightarrow> 'g" where
  "OrderBroadcastAddOrderId gb orderId builder = PrependUOffsetTSlot gb 0 orderId 0 builder"

definition OrderBroadcastAddOrderType :: "('g, 'b) go_builder \<Rightarrow> nat \<Rightarrow> 'g \<Rightarrow> 'g" where
  "OrderBroadcastAddOrderType gb orderType builder = PrependUOffsetTSlot gb 1 orderType 0 builder"

definition OrderBroadcastAddItems :: "('g, 'b) go_builder \<Rightarrow> nat \<Rightarrow> 'g \<Rightarrow> 'g" where
  "OrderBroadcastAddItems gb items builder = PrependUOffsetTSlot gb 2 items 0 builder"

definition OrderBroadcastStartItemsVector :: "('g, 'b) go_builder \<Rightarrow> nat \<Rightarrow> 'g \<Rightarrow> 'g" where
  "OrderBroadcastStartItemsVector gb numElems builder = StartVector gb 4 numElems 4 builder"

definition OrderBroadcastEnd :: "('g, 'b) go_builder \<Rightarrow> 'g \<Rightarrow> nat \<times> 'g" where
  "OrderBroadcastEnd gb builder = EndObject gb builder"

section \<open>The publisher\<close>

record item_details =
  Quantity :: "32 word"
  Aisle :: string

text \<open>The loop over the entries of the map, in the order in which \<open>range\<close> visits them.\<close>

fun command_items ::
  "('g, 'b) go_builder \<Rightarrow> (string \<times> item_details) list \<Rightarrow> nat list \<Rightarrow> 'g \<Rightarrow> nat list \<times> 'g" where
  "command_items gb [] itemOffsets builder = (itemOffsets, builder)"
| "command_items gb ((sku, detail) # items) itemOffsets builder =
     (case GoCreateString gb sku builder of (s, builder) \<Rightarrow>
      case GoCreateString gb (Aisle detail) builder of (a, builder) \<Rightarrow>
      let builder = ItemStart gb builder;
          builder = ItemAddSku gb s builder;
          builder = ItemAddQuantity gb (Quantity detail) builder;
          builder = ItemAddAisle gb a builder
      in case ItemEnd gb builder of (offset, builder) \<Rightarrow>
         command_items gb items (itemOffsets @ [offset]) builder)"

text \<open>The bytes that \<open>SendRobotCommand\<close> hands to the socket.\<close>

definition command_payload ::
  "('g, 'b) go_builder \<Rightarrow> string \<Rightarrow> string \<Rightarrow> (string \<times> item_details) list \<Rightarrow> 'b" where
  "command_payload gb orderID orderType items =
     (let builder = NewBuilder gb 1024 in
      case command_items gb items [] builder of (itemOffsets, builder) \<Rightarrow>
      let builder = OrderBroadcastStartItemsVector gb (length itemOffsets) builder;
          builder = fold (PrependUOffsetT gb) (rev itemOffsets) builder
      in case EndVector gb (length itemOffsets) builder of (itemsVec, builder) \<Rightarrow>
      case GoCreateString gb orderID builder of (oid, builder) \<Rightarrow>
      case GoCreateString gb orderType builder of (otype, builder) \<Rightarrow>
      let builder = OrderBroadcastStart gb builder;
          builder = OrderBroadcastAddOrderId gb oid builder;
          builder = OrderBroadcastAddOrderType gb otype builder;
          builder = OrderBroadcastAddItems gb itemsVec builder
      in case OrderBroadcastEnd gb builder of (order, builder) \<Rightarrow>
      FinishedBytes gb (GoFinish gb order builder))"

text \<open>What a robot reads: the entries as items.\<close>

definition command_order :: "string \<Rightarrow> string \<Rightarrow> (string \<times> item_details) list \<Rightarrow> order" where
  "command_order orderID orderType items =
     (orderID, orderType, map (\<lambda>(sku, d). (sku, Quantity d, Aisle d)) items)"

lemma command_vector:
  "go_ok gb rt g vec \<Longrightarrow> fb_obj g (fold (PrependUOffsetT gb) xs b) = fb_obj g b
    \<and> vec (fold (PrependUOffsetT gb) xs b) = rev xs @ vec b"
  by (induction xs arbitrary: b) (auto simp: go_okD(7))

lemma go_string:
  assumes "go_ok gb rt g vec" "GoCreateString gb s b = (p, b')"
  shows "is_string (fb_obj g b') p (Some s)" "keeps (fb_obj g b) (fb_obj g b')"
  using go_okD(1) [OF assms] by (auto simp: is_string_def keeps_update)

lemma command_items_ok:
  assumes "go_ok gb rt g vec"
  shows "command_items gb items offs b = (ts, b') \<Longrightarrow> \<exists>us. ts = offs @ us \<and> keeps (fb_obj g b) (fb_obj g b')
    \<and> list_all2 (is_item (fb_obj g b')) us (map (\<lambda>(sku, d). (Some sku, Quantity d, Some (Aisle d))) items)"
proof (induction items arbitrary: offs b)
  case (Cons x items)
  obtain sku d where x: "x = (sku, d)" by (cases x)
  obtain p b1 where 1: "GoCreateString gb sku b = (p, b1)" by (metis surj_pair)
  obtain q b2 where 2: "GoCreateString gb (Aisle d) b1 = (q, b2)" by (metis surj_pair)
  let ?b = "ItemAddAisle gb q (ItemAddQuantity gb (Quantity d) (ItemAddSku gb p (ItemStart gb b2)))"
  obtain t b3 where 3: "EndObject gb ?b = (t, b3)" by (metis surj_pair)
  have "command_items gb items (offs @ [t]) b3 = (ts, b')"
    using Cons.prems x 1 2 3 by (simp add: ItemEnd_def Let_def)
  from Cons.IH [OF this] obtain us where us: "ts = (offs @ [t]) @ us" "keeps (fb_obj g b3) (fb_obj g b')"
    "list_all2 (is_item (fb_obj g b')) us (map (\<lambda>(sku, d). (Some sku, Quantity d, Some (Aisle d))) items)" by blast
  note add = go_okD(2-4) [OF assms]
  have o: "fb_obj g ?b = fb_obj g b2"
    by (simp add: ItemAddAisle_def ItemAddQuantity_def ItemAddSku_def ItemStart_def add)
  have tab: "fb_open g ?b ITEM_VT_SKU = offset_field p" "fb_open g ?b ITEM_VT_AISLE = offset_field q"
    "fb_open g ?b ITEM_VT_QUANTITY = (if Quantity d = 0 then None else Some (F32 (Quantity d)))"
    by (simp_all add: ItemAddAisle_def ItemAddQuantity_def ItemAddSku_def ItemStart_def add store_field_def
        item_vt slot_def offset_field_def)
  from go_okD(5) [OF assms 3] have n: "t \<noteq> 0" "fb_obj g b3 t = Some (FTable (fb_open g ?b))"
    "keeps (fb_obj g b2) (fb_obj g b3)" by (auto simp: o keeps_update)
  have s: "is_string (fb_obj g b3) p (Some sku)" "is_string (fb_obj g b3) q (Some (Aisle d))" "keeps (fb_obj g b) (fb_obj g b3)"
    using go_string [OF assms 1] go_string [OF assms 2] n(3) by (auto intro: is_string_keeps keeps_trans)
  have "is_item (fb_obj g b3) t (Some sku, Quantity d, Some (Aisle d))"
    unfolding is_item_def prod.case using n(1,2) s(1,2) tab by blast
  from is_item_keeps [OF this us(2)] us s(3) x show ?case
    by (intro exI [of _ "t # us"]) (auto intro: keeps_trans)
qed simp

lemma command_read:
  assumes "go_ok gb rt g vec"
  shows "order_read rt (command_payload gb orderID orderType items) = Inr (order_content (command_order orderID orderType items))"
proof -
  obtain ts b1 where 1: "command_items gb items [] (NewBuilder gb 1024) = (ts, b1)" by (metis surj_pair)
  let ?b1 = "fold (PrependUOffsetT gb) (rev ts) (OrderBroadcastStartItemsVector gb (length ts) b1)"
  obtain v b2 where 2: "EndVector gb (length ts) ?b1 = (v, b2)" by (metis surj_pair)
  obtain p b3 where 3: "GoCreateString gb orderID b2 = (p, b3)" by (metis surj_pair)
  obtain q b4 where 4: "GoCreateString gb orderType b3 = (q, b4)" by (metis surj_pair)
  let ?b = "OrderBroadcastAddItems gb v (OrderBroadcastAddOrderType gb q (OrderBroadcastAddOrderId gb p (OrderBroadcastStart gb b4)))"
  obtain root b5 where 5: "EndObject gb ?b = (root, b5)" by (metis surj_pair)
  have pay: "command_payload gb orderID orderType items = FinishedBytes gb (GoFinish gb root b5)"
    using 1 2 3 4 5 by (simp add: command_payload_def OrderBroadcastEnd_def Let_def)
  have vec: "fb_obj g ?b1 = fb_obj g b1" "vec ?b1 = ts"
    using command_vector [OF assms, of "rev ts"] go_okD(6) [OF assms] by (simp_all add: OrderBroadcastStartItemsVector_def)
  from go_okD(8) [OF assms 2] have v: "v \<noteq> 0" "fb_obj g b2 v = Some (FVector ts)" "keeps (fb_obj g b1) (fb_obj g b2)"
    by (auto simp: vec keeps_update)
  note add = go_okD(2,3) [OF assms]
  have o: "fb_obj g ?b = fb_obj g b4"
    by (simp add: OrderBroadcastAddItems_def OrderBroadcastAddOrderType_def OrderBroadcastAddOrderId_def
        OrderBroadcastStart_def add)
  have tab: "fb_open g ?b ORDER_VT_ORDER_ID = offset_field p" "fb_open g ?b ORDER_VT_ORDER_TYPE = offset_field q"
    "fb_open g ?b ORDER_VT_ITEMS = Some (FOffset v)"
    using v(1) by (simp_all add: OrderBroadcastAddItems_def OrderBroadcastAddOrderType_def OrderBroadcastAddOrderId_def
        OrderBroadcastStart_def add store_field_def order_vt slot_def offset_field_def)
  from go_okD(5) [OF assms 5] have root: "fb_obj g b5 root = Some (FTable (fb_open g ?b))" "keeps (fb_obj g b4) (fb_obj g b5)"
    by (auto simp: o keeps_update)
  have k: "keeps (fb_obj g b3) (fb_obj g b5)" "keeps (fb_obj g b2) (fb_obj g b5)" "keeps (fb_obj g b1) (fb_obj g b5)"
    using v(3) go_string(2) [OF assms 3] go_string(2) [OF assms 4] root(2) by (auto intro: keeps_trans)
  have s: "is_string (fb_obj g b5) p (Some orderID)" "is_string (fb_obj g b5) q (Some orderType)"
    using go_string(1) [OF assms 3] go_string(1) [OF assms 4] k(1) root(2) by (auto intro: is_string_keeps)
  have i: "list_all2 (is_item (fb_obj g b5)) ts (map (\<lambda>(sku, d). (Some sku, Quantity d, Some (Aisle d))) items)"
    using command_items_ok [OF assms 1] k(3) by (auto intro: is_item_keeps elim!: list.rel_mono_strong)
  have "fb_obj g b5 v = Some (FVector ts)" using v(2) k(2) by (simp add: keeps_def)
  from reads_order [OF go_okD(9,10) [OF assms] root(1) s i this tab] show ?thesis
    by (simp add: pay order_content_def command_order_def case_prod_unfold comp_def)
qed

section \<open>The handlers\<close>

text \<open>
  What they use: the builder, \<open>SendBytes\<close> of the socket, \<open>Set\<close> of the Redis clients (with a time to live of an
  hour), \<open>json.Marshal\<close> on the two kinds of items, the query for stock rows (a row may fail to scan), and
  \<open>range\<close> on the two kinds of maps.
\<close>

type_synonym timestamp = "64 word \<times> 32 word"       \<comment> \<open>seconds and nanoseconds\<close>

record restock_item =
  ri_sku :: string
  ri_name :: string
  ri_aisle_type :: string
  ri_quantity :: "32 word"
  ri_unit_cost :: "64 word"
  ri_mfd_date :: timestamp
  ri_expiry_date :: timestamp

text \<open>The columns of a stock row that the service uses.\<close>

record stock_row =
  sr_sku :: string
  sr_name :: string
  sr_aisle_type :: string
  sr_quantity :: "64 word"

record ('g, 'w) dispatch_env =
  de_gb :: "('g, byte list) go_builder"
  de_send :: "byte list \<Rightarrow> 'w \<Rightarrow> string option \<times> 'w"
  de_set :: "nat \<Rightarrow> string \<Rightarrow> string \<Rightarrow> 'w \<Rightarrow> string option \<times> 'w"
  de_marshal_cart :: "(string \<rightharpoonup> 32 word) \<Rightarrow> string + string"
  de_marshal_restock :: "restock_item list \<Rightarrow> string + string"
  de_query :: "string list \<Rightarrow> 'w \<Rightarrow> (string + (string + stock_row) list) \<times> 'w"
  de_range_cart :: "'w \<Rightarrow> (string \<rightharpoonup> 32 word) \<Rightarrow> (string \<times> 32 word) list"
  de_range :: "'w \<Rightarrow> (string \<rightharpoonup> item_details) \<Rightarrow> (string \<times> item_details) list"

definition SaveOrderItems ::
  "('g, 'w) dispatch_env \<Rightarrow> string \<Rightarrow> (string \<rightharpoonup> 32 word) \<Rightarrow> 'w \<Rightarrow> string option \<times> 'w" where
  "SaveOrderItems env orderID items w = (case de_marshal_cart env items of
     Inl err \<Rightarrow> (Some err, w)
   | Inr data \<Rightarrow> de_set env clientClient (orderID @ '':items'') data w)"

definition SaveRestockItems ::
  "('g, 'w) dispatch_env \<Rightarrow> string \<Rightarrow> restock_item list \<Rightarrow> 'w \<Rightarrow> string option \<times> 'w" where
  "SaveRestockItems env orderID items w = (case de_marshal_restock env items of
     Inl err \<Rightarrow> (Some err, w)
   | Inr data \<Rightarrow> de_set env restockClient (orderID @ '':items'') data w)"

fun scan_rows :: "(string + stock_row) list \<Rightarrow> (string \<rightharpoonup> stock_row) \<Rightarrow> string + (string \<rightharpoonup> stock_row)" where
  "scan_rows [] items = Inr items"
| "scan_rows (Inl err # rows) items = Inl err"
| "scan_rows (Inr row # rows) items = scan_rows rows (items(sr_sku row \<mapsto> row))"

text \<open>What \<open>GetBatchItems\<close> makes of the query's reply.\<close>

definition batch_items :: "string + (string + stock_row) list \<Rightarrow> string + (string \<rightharpoonup> stock_row)" where
  "batch_items reply = (case reply of
     Inl err \<Rightarrow> Inl (''failed to batch get items: '' @ err)
   | Inr rows \<Rightarrow> scan_rows rows Map.empty)"

definition GetBatchItems ::
  "('g, 'w) dispatch_env \<Rightarrow> string list \<Rightarrow> 'w \<Rightarrow> (string + (string \<rightharpoonup> stock_row)) \<times> 'w" where
  "GetBatchItems env skus w = (case de_query env skus w of (reply, w) \<Rightarrow> (batch_items reply, w))"

text \<open>\<open>dbItems, _ := ...\<close>: an error leaves a nil map, in which nothing is found.\<close>

definition prepareRobotItems ::
  "('g, 'w) dispatch_env \<Rightarrow> (string \<rightharpoonup> 32 word) \<Rightarrow> 'w \<Rightarrow> (string \<rightharpoonup> item_details) \<times> 'w" where
  "prepareRobotItems env items w =
     (let skus = map fst (de_range_cart env w items) in
      case GetBatchItems env skus w of (r, w) \<Rightarrow>
      let dbItems = (case r of Inl _ \<Rightarrow> Map.empty | Inr m \<Rightarrow> m);
          robotItems = fold (\<lambda>(sku, qty) robotItems.
            let aisle = (case dbItems sku of Some item \<Rightarrow> sr_aisle_type item | None \<Rightarrow> ''Unknown'')
            in robotItems(sku \<mapsto> \<lparr>Quantity = qty, Aisle = aisle\<rparr>)) (de_range_cart env w items) Map.empty
      in (robotItems, w))"

definition SendRobotCommand ::
  "('g, 'w) dispatch_env \<Rightarrow> string \<Rightarrow> string \<Rightarrow> (string \<rightharpoonup> item_details) \<Rightarrow> 'w \<Rightarrow> string option \<times> 'w" where
  "SendRobotCommand env orderID orderType items w =
     de_send env (command_payload (de_gb env) orderID orderType (de_range env w items)) w"

text \<open>An error of the publisher is logged, no more.\<close>

definition assignRobots ::
  "('g, 'w) dispatch_env \<Rightarrow> string \<Rightarrow> string \<Rightarrow> (string \<rightharpoonup> item_details) \<Rightarrow> 'w \<Rightarrow> 'w" where
  "assignRobots env orderID orderType items w = snd (SendRobotCommand env orderID orderType items w)"

text \<open>The error, or the response's success flag.\<close>

definition ProcessCustomerOrder ::
  "('g, 'w) dispatch_env \<Rightarrow> string \<Rightarrow> (string \<rightharpoonup> 32 word) \<Rightarrow> 'w \<Rightarrow> (string + bool) \<times> 'w" where
  "ProcessCustomerOrder env orderID items w = (case SaveOrderItems env orderID items w of
     (Some err, w) \<Rightarrow> (Inl err, w)
   | (None, w) \<Rightarrow> (case prepareRobotItems env items w of (robotItems, w) \<Rightarrow>
       (Inr True, assignRobots env orderID ''CUSTOMER'' robotItems w)))"

definition RestockItemsOrder ::
  "('g, 'w) dispatch_env \<Rightarrow> string \<Rightarrow> restock_item list \<Rightarrow> 'w \<Rightarrow> (string + bool) \<times> 'w" where
  "RestockItemsOrder env orderID items w = (case SaveRestockItems env orderID items w of
     (Some err, w) \<Rightarrow> (Inl err, w)
   | (None, w) \<Rightarrow>
       (let robotItems = fold (\<lambda>item robotItems.
              robotItems(ri_sku item \<mapsto> \<lparr>Quantity = ri_quantity item, Aisle = ri_aisle_type item\<rparr>)) items Map.empty
        in (Inr True, assignRobots env orderID ''RESTOCK'' robotItems w)))"

section \<open>What is broadcast\<close>

text \<open>\<open>range\<close> visits every entry of a map once.\<close>

definition range_ok :: "('g, 'w) dispatch_env \<Rightarrow> bool" where
  "range_ok env \<longleftrightarrow>
     (\<forall>w m. finite (dom m) \<longrightarrow> distinct (map fst (de_range_cart env w m)) \<and> map_of (de_range_cart env w m) = m)
   \<and> (\<forall>w m. finite (dom m) \<longrightarrow> distinct (map fst (de_range env w m)) \<and> map_of (de_range env w m) = m)"

text \<open>The aisle of a sku, given the reply of the look-up.\<close>

definition aisle_of :: "string + (string \<rightharpoonup> stock_row) \<Rightarrow> string \<Rightarrow> string" where
  "aisle_of r sku = (case r of Inl _ \<Rightarrow> ''Unknown'' | Inr m \<Rightarrow> (case m sku of Some item \<Rightarrow> sr_aisle_type item | None \<Rightarrow> ''Unknown''))"

definition robot_entries :: "string + (string \<rightharpoonup> stock_row) \<Rightarrow> (string \<rightharpoonup> 32 word) \<Rightarrow> string \<rightharpoonup> item_details" where
  "robot_entries r items = (\<lambda>sku. map_option (\<lambda>qty. \<lparr>Quantity = qty, Aisle = aisle_of r sku\<rparr>) (items sku))"

lemma fold_entries:
  "distinct (map fst its) \<Longrightarrow> fold (\<lambda>(k, v) m. m(k \<mapsto> f k v)) its m0 =
     (\<lambda>k. case map_of its k of Some v \<Rightarrow> Some (f k v) | None \<Rightarrow> m0 k)"
proof (induction its arbitrary: m0)
  case (Cons x its)
  obtain k v where x: "x = (k, v)" by (cases x)
  with Cons.prems have "map_of its k = None" by (simp add: map_of_eq_None_iff)
  with Cons x show ?case by (auto simp: fun_eq_iff split: option.split)
qed simp

lemma prepareRobotItems_entries:
  assumes "range_ok env" "finite (dom items)"
  shows "prepareRobotItems env items w =
    (case GetBatchItems env (map fst (de_range_cart env w items)) w of (r, w') \<Rightarrow> (robot_entries r items, w'))"
proof -
  obtain r w' where r: "GetBatchItems env (map fst (de_range_cart env w items)) w = (r, w')" by (metis surj_pair)
  have range: "distinct (map fst (de_range_cart env w' items))" "map_of (de_range_cart env w' items) = items"
    using assms unfolding range_ok_def by blast+
  have "prepareRobotItems env items w =
      (fold (\<lambda>(sku, qty) m. m(sku \<mapsto> \<lparr>Quantity = qty, Aisle = aisle_of r sku\<rparr>)) (de_range_cart env w' items) Map.empty, w')"
    unfolding prepareRobotItems_def Let_def r prod.case
    by (cases r) (simp_all add: aisle_of_def)
  also have "\<dots> = (robot_entries r items, w')"
    unfolding fold_entries [OF range(1)] range(2)
    by (auto simp: robot_entries_def fun_eq_iff split: option.split)
  finally show ?thesis by (simp add: r)
qed

lemma dom_robot_entries [simp]: "dom (robot_entries r items) = dom items"
  by (auto simp: robot_entries_def)

lemma set_command_order:
  assumes "distinct (map fst its)" "map_of its = robot_entries r items" "command_order oid ty its = (oid, ty, xs)"
  shows "distinct (map fst xs)" "(sku, q, a) \<in> set xs \<longleftrightarrow> items sku = Some q \<and> a = aisle_of r sku"
proof -
  have xs: "xs = map (\<lambda>(sku, d). (sku, Quantity d, Aisle d)) its" using assms(3) by (simp add: command_order_def)
  then show "distinct (map fst xs)" using assms(1) by (simp add: comp_def case_prod_unfold)
  have "(sku, q, a) \<in> set xs \<longleftrightarrow> (\<exists>d. (sku, d) \<in> set its \<and> q = Quantity d \<and> a = Aisle d)"
    by (force simp: xs)
  also have "\<dots> \<longleftrightarrow> (\<exists>d. map_of its sku = Some d \<and> q = Quantity d \<and> a = Aisle d)"
    using map_of_eq_Some_iff [OF assms(1)] by simp
  finally have "(sku, q, a) \<in> set xs \<longleftrightarrow> (\<exists>d. map_of its sku = Some d \<and> q = Quantity d \<and> a = Aisle d)" .
  then show "(sku, q, a) \<in> set xs \<longleftrightarrow> items sku = Some q \<and> a = aisle_of r sku"
    by (auto simp: assms(2) robot_entries_def)
qed

text \<open>
  C12. What the inventory service broadcasts for a customer's order, and what a robot reads. If the items
  cannot be saved, \<open>ProcessCustomerOrder\<close> returns the error and sends nothing. Otherwise it succeeds, whatever
  the outcome of the look-up and of the sending, and hands one message to the socket, which the C++
  accessors of the robot read as the order's identifier, the type CUSTOMER and one item per sku, in some
  order, with the ordered quantity and the aisle that was looked up (\<open>Unknown\<close> if it was not found or the
  look-up failed): the Go slots and the C++ offsets denote the same fields.
\<close>

theorem customer_order_broadcast:
  assumes "go_ok (de_gb env) rt g vec" "range_ok env" "finite (dom items)"
  shows "case SaveOrderItems env orderID items w of
     (Some err, w1) \<Rightarrow> ProcessCustomerOrder env orderID items w = (Inl err, w1)
   | (None, w1) \<Rightarrow> (case GetBatchItems env (map fst (de_range_cart env w1 items)) w1 of (r, w2) \<Rightarrow>
       \<exists>payload its. ProcessCustomerOrder env orderID items w = (Inr True, snd (de_send env payload w2))
         \<and> order_read rt payload = Inr (order_content (orderID, ''CUSTOMER'', its))
         \<and> distinct (map fst its)
         \<and> (\<forall>sku q a. (sku, q, a) \<in> set its \<longleftrightarrow> items sku = Some q \<and> a = aisle_of r sku))"
proof -
  obtain saved w1 where s: "SaveOrderItems env orderID items w = (saved, w1)" by (metis surj_pair)
  obtain r w2 where r: "GetBatchItems env (map fst (de_range_cart env w1 items)) w1 = (r, w2)" by (metis surj_pair)
  show ?thesis
  proof (cases saved)
    case None
    let ?its = "de_range env w2 (robot_entries r items)"
    let ?payload = "command_payload (de_gb env) orderID ''CUSTOMER'' ?its"
    have range: "distinct (map fst ?its)" "map_of ?its = robot_entries r items"
      using assms(2,3) unfolding range_ok_def by simp_all
    obtain xs where xs: "command_order orderID ''CUSTOMER'' ?its = (orderID, ''CUSTOMER'', xs)"
      by (simp add: command_order_def)
    have "ProcessCustomerOrder env orderID items w = (Inr True, snd (de_send env ?payload w2))"
      using prepareRobotItems_entries [OF assms(2,3), of w1] s r None
      by (simp add: ProcessCustomerOrder_def assignRobots_def SendRobotCommand_def)
    with command_read [OF assms(1), of orderID "''CUSTOMER''" ?its] set_command_order [OF range xs] s r None xs
    show ?thesis by auto
  qed (simp add: s ProcessCustomerOrder_def)
qed

text \<open>A restock order: for a sku that occurs more than once, the last item counts.\<close>

lemma restock_entries:
  "fold (\<lambda>item m. m(ri_sku item \<mapsto> \<lparr>Quantity = ri_quantity item, Aisle = ri_aisle_type item\<rparr>)) (items :: restock_item list) Map.empty =
     map_of (rev (map (\<lambda>item. (ri_sku item, \<lparr>Quantity = ri_quantity item, Aisle = ri_aisle_type item\<rparr>)) items))"
proof -
  have "fold (\<lambda>item m. m(ri_sku item \<mapsto> f item)) items acc = acc ++ map_of (rev (map (\<lambda>item. (ri_sku item, f item)) items))"
    for items :: "restock_item list" and f :: "restock_item \<Rightarrow> item_details" and acc
    by (induction items arbitrary: acc) simp_all
  from this [where f = "\<lambda>item. \<lparr>Quantity = ri_quantity item, Aisle = ri_aisle_type item\<rparr>" and acc = Map.empty]
  show ?thesis by simp
qed

lemma restock_order_broadcast:
  assumes "go_ok (de_gb env) rt g vec" "range_ok env" "SaveRestockItems env orderID items w = (None, w1)"
  shows "\<exists>payload its. RestockItemsOrder env orderID items w = (Inr True, snd (de_send env payload w1))
    \<and> order_read rt payload = Inr (order_content (command_order orderID ''RESTOCK'' its))
    \<and> distinct (map fst its)
    \<and> map_of its = map_of (rev (map (\<lambda>item. (ri_sku item, \<lparr>Quantity = ri_quantity item, Aisle = ri_aisle_type item\<rparr>)) items))"
proof -
  let ?m = "map_of (rev (map (\<lambda>item. (ri_sku item, \<lparr>Quantity = ri_quantity item, Aisle = ri_aisle_type item\<rparr>)) items))"
  let ?its = "de_range env w1 ?m"
  have "finite (dom ?m)" by (rule finite_dom_map_of)
  then have "distinct (map fst ?its)" "map_of ?its = ?m" using assms(2) unfolding range_ok_def by blast+
  moreover have "RestockItemsOrder env orderID items w =
      (Inr True, snd (de_send env (command_payload (de_gb env) orderID ''RESTOCK'' ?its) w1))"
    using assms(3) by (simp add: RestockItemsOrder_def restock_entries assignRobots_def SendRobotCommand_def)
  ultimately show ?thesis using command_read [OF assms(1)] by blast
qed

section \<open>An example\<close>

text \<open>A Go builder over lists, whose bytes the runtime over bytes reads.\<close>

record go_list_builder = list_builder +
  glb_vec :: "nat list"

definition glb_new :: "lb_object \<Rightarrow> go_list_builder \<Rightarrow> nat \<times> go_list_builder" where
  "glb_new x b = (Suc (length (lb_objs b)), b\<lparr>lb_objs := lb_objs b @ [x]\<rparr>)"

definition list_go :: "(go_list_builder, byte list) go_builder" where
  "list_go = \<lparr>NewBuilder = (\<lambda>n. \<lparr>lb_objs = [], lb_open = [], lb_root = 0, glb_vec = []\<rparr>),
     GoCreateString = (\<lambda>s. glb_new (LString s)),
     StartObject = (\<lambda>n b. b\<lparr>lb_open := []\<rparr>),
     PrependUOffsetTSlot = (\<lambda>n x d b. b\<lparr>lb_open := lb_store (lb_open b) (slot n) (FOffset x) (FOffset d)\<rparr>),
     PrependInt32Slot = (\<lambda>n x d b. b\<lparr>lb_open := lb_store (lb_open b) (slot n) (F32 x) (F32 d)\<rparr>),
     EndObject = (\<lambda>b. glb_new (LTable (lb_open b)) b),
     StartVector = (\<lambda>sz n al b. b\<lparr>glb_vec := []\<rparr>),
     PrependUOffsetT = (\<lambda>x b. b\<lparr>glb_vec := x # glb_vec b\<rparr>),
     EndVector = (\<lambda>n b. glb_new (LVector (glb_vec b)) b),
     GoFinish = (\<lambda>root b. b\<lparr>lb_root := root\<rparr>),
     FinishedBytes = (\<lambda>b. byte_buffer \<lparr>lb_objs = lb_objs b, lb_open = lb_open b, lb_root = lb_root b\<rparr>)\<rparr>"

definition list_go_ghost :: "(byte list, go_list_builder) fb_ghost" where
  "list_go_ghost = \<lparr>fb_obj = (\<lambda>b. objs_map (lb_objs b)), fb_open = (\<lambda>b. map_of (lb_open b)), fb_at = (\<lambda>buf p. p)\<rparr>"

lemma list_go_ok: "go_ok list_go byte_runtime list_go_ghost glb_vec"
proof -
  have fresh: "objs_map objs (Suc (length objs)) = None" for objs by (simp add: objs_map_def)
  have rd: "reads byte_runtime list_go_ghost (objs_map objs) (byte_buffer \<lparr>lb_objs = objs, lb_open = op, lb_root = root\<rparr>)"
    for objs op root
    unfolding reads_def byte_runtime_def list_runtime_def list_go_ghost_def
    by (auto simp: ob_pointer_def ob_f32_def ob_f64_def ob_field_def ob_string_def ob_vector_def)
  have root: "GetRoot byte_runtime (byte_buffer f) = Inr (lb_root f)" for f
    by (simp add: byte_runtime_def list_runtime_def)
  have ghost: "fb_obj list_go_ghost b = objs_map (lb_objs b)" "fb_open list_go_ghost b = map_of (lb_open b)"
    "fb_at list_go_ghost buf p = p" for b buf p by (simp_all add: list_go_ghost_def)
  show ?thesis
    unfolding go_ok_def Let_def
    by (auto simp: list_go_def glb_new_def fresh rd root ghost objs_map_new lb_store_def store_field_def)
qed

text \<open>Maps are visited in the order of their keys, and one row of stock is known.\<close>

definition sorted_entries :: "(string \<rightharpoonup> 'a) \<Rightarrow> (string \<times> 'a) list" where
  "sorted_entries m = map (\<lambda>k. (k, the (m k))) (sorted_list_of_set (dom m))"

lemma sorted_entries_ok:
  assumes "finite (dom m)"
  shows "distinct (map fst (sorted_entries m))" "map_of (sorted_entries m) = m"
proof -
  show d: "distinct (map fst (sorted_entries m))" by (simp add: sorted_entries_def comp_def)
  show "map_of (sorted_entries m) = m"
  proof
    fix k
    have "map_of (sorted_entries m) k = (if k \<in> dom m then Some (the (m k)) else None)"
      using assms by (simp add: sorted_entries_def map_of_map_restrict restrict_map_def)
    then show "map_of (sorted_entries m) k = m k" by (cases "m k") (auto simp: dom_def)
  qed
qed

definition milk_row :: stock_row where
  "milk_row = \<lparr>sr_sku = ''milk'', sr_name = ''Milk'', sr_aisle_type = ''dairy'', sr_quantity = 40\<rparr>"

definition demo_dispatch :: "(go_list_builder, byte list list) dispatch_env" where
  "demo_dispatch = \<lparr>de_gb = list_go, de_send = (\<lambda>payload w. (None, w @ [payload])),
     de_set = (\<lambda>d key data w. (None, w)), de_marshal_cart = (\<lambda>m. Inr ''{}''), de_marshal_restock = (\<lambda>items. Inr ''[]''),
     de_query = (\<lambda>skus w. (Inr [Inr milk_row], w)),
     de_range_cart = (\<lambda>w. sorted_entries), de_range = (\<lambda>w. sorted_entries)\<rparr>"

theorem customer_order_broadcast_witness:
  "\<exists>payload its. ProcessCustomerOrder demo_dispatch ''o1'' [''milk'' \<mapsto> 2, ''figs'' \<mapsto> 1] [] = (Inr True, [payload])
    \<and> order_read byte_runtime payload = Inr (order_content (''o1'', ''CUSTOMER'', its))
    \<and> (''milk'', 2, ''dairy'') \<in> set its \<and> (''figs'', 1, ''Unknown'') \<in> set its"
proof -
  have gb: "de_gb demo_dispatch = list_go" by (simp add: demo_dispatch_def)
  have range: "range_ok demo_dispatch" by (simp add: range_ok_def demo_dispatch_def sorted_entries_ok)
  have save: "SaveOrderItems demo_dispatch ''o1'' items [] = (None, [])" for items
    by (simp add: SaveOrderItems_def demo_dispatch_def)
  have look: "GetBatchItems demo_dispatch skus [] = (Inr [''milk'' \<mapsto> milk_row], [])" for skus
    by (simp add: GetBatchItems_def batch_items_def demo_dispatch_def milk_row_def)
  have send: "snd (de_send demo_dispatch payload []) = [payload]" for payload by (simp add: demo_dispatch_def)
  have "finite (dom [''milk'' \<mapsto> 2 :: 32 word, ''figs'' \<mapsto> 1])" by simp
  from customer_order_broadcast [OF list_go_ok [folded gb] range this, of "''o1''" "[]"] obtain payload its where
    p: "ProcessCustomerOrder demo_dispatch ''o1'' [''milk'' \<mapsto> 2, ''figs'' \<mapsto> 1] [] = (Inr True, [payload])"
    "order_read byte_runtime payload = Inr (order_content (''o1'', ''CUSTOMER'', its))"
    and its: "\<forall>sku q a. (sku, q, a) \<in> set its \<longleftrightarrow>
      [''milk'' \<mapsto> 2, ''figs'' \<mapsto> 1] sku = Some q \<and> a = aisle_of (Inr [''milk'' \<mapsto> milk_row]) sku"
    unfolding save prod.case option.case look send by (elim exE conjE)
  have "(''milk'', 2, ''dairy'') \<in> set its" "(''figs'', 1, ''Unknown'') \<in> set its"
    by (simp_all add: its [rule_format] aisle_of_def milk_row_def)
  with p show ?thesis by (intro exI [of _ payload] exI [of _ its] conjI)
qed

end
