(* ===== verification/Finalization.thy ===== *)
theory Finalization
  imports ReportBarrier Dispatch
begin

text \<open>
  What follows the last report: \<open>finalizeOrder\<close> of \<open>inventory/internal/handler/grpc.go\<close>, which bills a client's
  order or puts a restock order into the stock, tells the ordering service, and removes the order's keys.
  It runs in a goroutine of its own, modelled like the calls of theory \<open>Inventory\<close>: what it does up to its next
  operation, and how it goes on with the reply. The pricing service, the stock database, the JSON encoding,
  floating point arithmetic and HTTP are parameters or replies. Log lines, HTTP headers and time-outs are
  left out.
\<close>

section \<open>The goroutine\<close>

record stock_item =
  si_sku :: string
  si_name :: string
  si_aisle_type :: string
  si_quantity :: "64 word"
  si_unit_cost :: "64 word"
  si_mfd_date :: timestamp
  si_expiry_date :: timestamp

record stock_metric =
  sm_sku :: string
  sm_quantity :: "32 word"
  sm_unit_cost :: "64 word"

text \<open>
  The body of the request to the ordering service, before its JSON encoding. JSON has no infinities and
  NaNs, so the encoding of a price that is one fails; the error is dropped, and the body is empty.
\<close>

record webhook =
  wh_order_id :: string
  wh_status :: string
  wh_price_key :: string
  wh_price :: "64 word"

definition finite_double :: "64 word \<Rightarrow> bool" where
  "finite_double x \<longleftrightarrow> take_bit 11 (drop_bit 52 x) \<noteq> 0x7FF"

datatype fin =
    Done                                                            \<comment> \<open>the goroutine has returned\<close>
  | Panic                                                           \<comment> \<open>a panic, which ends the process\<close>
  | Get nat string "string + string \<Rightarrow> fin"                         \<comment> \<open>\<open>client.Get(ctx, key).Result()\<close>\<close>
  | CalculateBill "(string \<times> 32 word) list" "string + 64 word \<Rightarrow> fin"
  | UpsertStock stock_item "string option \<Rightarrow> fin"
  | QueryRows "string list" "string + (string + stock_row) list \<Rightarrow> fin"
  | GoUpdate "stock_metric list" fin                                \<comment> \<open>\<open>go func(...)\<close>: a goroutine that will call \<open>UpdateStockMetrics\<close>\<close>
  | Post string "webhook option" fin                                \<comment> \<open>\<open>client.Do(req)\<close>; the response is only logged\<close>
  | RedisDo "unit task" fin                                         \<comment> \<open>a command of theory \<open>Inventory\<close>\<close>

text \<open>
  The parameters: decoding, the order of \<open>range\<close>, the URLs and whether \<open>http.NewRequest\<close> accepts them, and
  arithmetic on doubles.
\<close>

record fin_env =
  fz_unmarshal_cart :: "string \<Rightarrow> string + (string \<rightharpoonup> 32 word)"
  fz_unmarshal_restock :: "string \<Rightarrow> string + restock_item list"
  fz_range_cart :: "(string \<rightharpoonup> 32 word) \<Rightarrow> (string \<times> 32 word) list"
  fz_range_skus :: "(string \<rightharpoonup> unit) \<Rightarrow> string list"
  fz_orderWebhookURL :: string
  fz_restockWebhookURL :: string
  fz_url_ok :: "string \<Rightarrow> bool"
  fz_float64 :: "32 word \<Rightarrow> 64 word"
  fz_mul :: "64 word \<Rightarrow> 64 word \<Rightarrow> 64 word"
  fz_add :: "64 word \<Rightarrow> 64 word \<Rightarrow> 64 word"

definition GetOrderItems :: "fin_env \<Rightarrow> string \<Rightarrow> (string + (string \<rightharpoonup> 32 word) \<Rightarrow> fin) \<Rightarrow> fin" where
  "GetOrderItems env orderID k = Get clientClient (orderID @ '':items'') (\<lambda>r. case r of
     Inl err \<Rightarrow> k (Inl err)
   | Inr val \<Rightarrow> k (fz_unmarshal_cart env val))"

definition GetRestockItems :: "fin_env \<Rightarrow> string \<Rightarrow> (string + restock_item list \<Rightarrow> fin) \<Rightarrow> fin" where
  "GetRestockItems env orderID k = Get restockClient (orderID @ '':items'') (\<lambda>r. case r of
     Inl err \<Rightarrow> k (Inl err)
   | Inr val \<Rightarrow> k (fz_unmarshal_restock env val))"

text \<open>
  \<open>jsonBytes, _ := json.Marshal(payload)\<close>: on an error there are no bytes. \<open>req, _ := http.NewRequest(...)\<close>:
  on an error \<open>req\<close> is nil and setting its header panics.
\<close>

definition callWebhook :: "fin_env \<Rightarrow> string \<Rightarrow> 64 word \<Rightarrow> string \<Rightarrow> string \<Rightarrow> fin \<Rightarrow> fin" where
  "callWebhook env orderID price url priceKey k =
     (let payload = \<lparr>wh_order_id = orderID, wh_status = ''COMPLETED'', wh_price_key = priceKey, wh_price = price\<rparr>;
          jsonBytes = (if finite_double price then Some payload else None)
      in if fz_url_ok env url then Post url jsonBytes k else Panic)"

definition finalizeClientOrder :: "fin_env \<Rightarrow> string \<Rightarrow> fin" where
  "finalizeClientOrder env orderID = GetOrderItems env orderID (\<lambda>r. case r of
     Inl err \<Rightarrow> Done
   | Inr items \<Rightarrow>
       let cartItems = fz_range_cart env items in
       CalculateBill cartItems (\<lambda>resp.
       let finalPrice = (case resp of Inr grandTotal \<Rightarrow> grandTotal | Inl err \<Rightarrow> 0) in
       callWebhook env orderID finalPrice (fz_orderWebhookURL env) ''total_price''
         (RedisDo (DeleteOrderData orderID False (Return ())) Done)))"

text \<open>The loop over the items of a restock order: the total, and the last cost of each sku that was stored.\<close>

fun restock_loop ::
  "fin_env \<Rightarrow> restock_item list \<Rightarrow> 64 word \<Rightarrow> (string \<rightharpoonup> 64 word) \<Rightarrow> (string \<rightharpoonup> unit)
     \<Rightarrow> (64 word \<Rightarrow> (string \<rightharpoonup> 64 word) \<Rightarrow> (string \<rightharpoonup> unit) \<Rightarrow> fin) \<Rightarrow> fin" where
  "restock_loop env [] totalCost latestUnitCostBySKU updatedSKUs k = k totalCost latestUnitCostBySKU updatedSKUs"
| "restock_loop env (pi # items) totalCost latestUnitCostBySKU updatedSKUs k =
     (let totalCost = fz_add env totalCost (fz_mul env (ri_unit_cost pi) (fz_float64 env (ri_quantity pi))) in
      UpsertStock \<lparr>si_sku = ri_sku pi, si_name = ri_name pi, si_aisle_type = ri_aisle_type pi,
          si_quantity = scast (ri_quantity pi), si_unit_cost = ri_unit_cost pi,
          si_mfd_date = ri_mfd_date pi, si_expiry_date = ri_expiry_date pi\<rparr> (\<lambda>err. case err of
        Some e \<Rightarrow> restock_loop env items totalCost latestUnitCostBySKU updatedSKUs k
      | None \<Rightarrow> restock_loop env items totalCost (latestUnitCostBySKU(ri_sku pi \<mapsto> ri_unit_cost pi))
          (updatedSKUs(ri_sku pi \<mapsto> ())) k))"

text \<open>The loop that makes the pricing updates; a cost that is not in the map reads as 0.\<close>

fun pricing_updates ::
  "(string \<rightharpoonup> stock_row) \<Rightarrow> (string \<rightharpoonup> 64 word) \<Rightarrow> string list \<Rightarrow> stock_metric list" where
  "pricing_updates currentItems latestUnitCostBySKU [] = []"
| "pricing_updates currentItems latestUnitCostBySKU (sku # skus) = (case currentItems sku of
     None \<Rightarrow> pricing_updates currentItems latestUnitCostBySKU skus
   | Some currentItem \<Rightarrow>
       \<lparr>sm_sku = sku, sm_quantity = ucast (sr_quantity currentItem),
        sm_unit_cost = (case latestUnitCostBySKU sku of Some c \<Rightarrow> c | None \<Rightarrow> 0)\<rparr>
       # pricing_updates currentItems latestUnitCostBySKU skus)"

text \<open>
  From the pricing updates to the end. The goroutine of \<open>go func(...)\<close> returns at once if there are none;
  otherwise it makes its call when it is scheduled, before or after what follows here.
\<close>

definition restock_close :: "fin_env \<Rightarrow> string \<Rightarrow> 64 word \<Rightarrow> stock_metric list \<Rightarrow> fin" where
  "restock_close env orderID totalCost pricingUpdates =
     (let rest = callWebhook env orderID totalCost (fz_restockWebhookURL env) ''total_cost''
            (RedisDo (DeleteOrderData orderID True (Return ())) Done)
      in if pricingUpdates = [] then rest else GoUpdate pricingUpdates rest)"

text \<open>After the loop.\<close>

definition restock_pricing ::
  "fin_env \<Rightarrow> string \<Rightarrow> 64 word \<Rightarrow> (string \<rightharpoonup> 64 word) \<Rightarrow> (string \<rightharpoonup> unit) \<Rightarrow> fin" where
  "restock_pricing env orderID totalCost latestUnitCostBySKU updatedSKUs =
     (let updatedSKUList = fz_range_skus env updatedSKUs in
      if updatedSKUList \<noteq> [] then
        QueryRows updatedSKUList (\<lambda>reply. case batch_items reply of
          Inl batchErr \<Rightarrow> restock_close env orderID totalCost []
        | Inr currentItems \<Rightarrow> restock_close env orderID totalCost
            (pricing_updates currentItems latestUnitCostBySKU updatedSKUList))
      else restock_close env orderID totalCost [])"

definition finalizeRestock :: "fin_env \<Rightarrow> string \<Rightarrow> fin" where
  "finalizeRestock env orderID = GetRestockItems env orderID (\<lambda>r. case r of
     Inl err \<Rightarrow> Done
   | Inr items \<Rightarrow> restock_loop env items 0 Map.empty Map.empty (restock_pricing env orderID))"

definition finalizeOrder :: "fin_env \<Rightarrow> order_key \<Rightarrow> fin" where
  "finalizeOrder env = (\<lambda>(orderID, isRestock).
     if isRestock then finalizeRestock env orderID else finalizeClientOrder env orderID)"

section \<open>Its operations\<close>

text \<open>What it has done, with the replies it got; a call of \<open>UpdateStockMetrics\<close> is made by the goroutine it starts.\<close>

datatype act =
    AGet nat string "string + string"
  | ABill "(string \<times> 32 word) list" "string + 64 word"
  | AUpsert stock_item "string option"
  | AQuery "string list" "string + (string + stock_row) list"
  | AGo "stock_metric list"
  | AMetrics "stock_metric list"
  | APost string "webhook option"
  | ARedis "unit task"

text \<open>
  One operation. GET replies the value under the key, or an error (which it does if there is none); the
  other services reply as they like.
\<close>

inductive fin_step :: "'r redis_api \<Rightarrow> ('r \<Rightarrow> redis_db) \<Rightarrow> fin \<Rightarrow> 'r \<Rightarrow> act \<Rightarrow> fin \<Rightarrow> 'r \<Rightarrow> bool" for rd view where
  f_get: "(\<And>s. v = Inr s \<Longrightarrow> view r (d, key) = Some s) \<Longrightarrow>
    fin_step rd view (Get d key k) r (AGet d key v) (k v) r"
| f_bill: "fin_step rd view (CalculateBill its k) r (ABill its resp) (k resp) r"
| f_upsert: "fin_step rd view (UpsertStock it k) r (AUpsert it err) (k err) r"
| f_query: "fin_step rd view (QueryRows skus k) r (AQuery skus reply) (k reply) r"
| f_go: "fin_step rd view (GoUpdate ms k) r (AGo ms) k r"
| f_post: "fin_step rd view (Post url p k) r (APost url p) k r"
| f_redis: "task_step rd t r = Some (Return x, [], r') \<Longrightarrow> fin_step rd view (RedisDo t k) r (ARedis t) k r'"

text \<open>The operations of a goroutine, one after the other, while others may change the Redis server in between.\<close>

inductive fin_run :: "'r redis_api \<Rightarrow> ('r \<Rightarrow> redis_db) \<Rightarrow> fin \<Rightarrow> act list \<Rightarrow> fin \<Rightarrow> bool" for rd view where
  fr_end: "fin_run rd view f [] f"
| fr_step: "fin_step rd view f r a f' r' \<Longrightarrow> fin_run rd view f' as f'' \<Longrightarrow> fin_run rd view f (a # as) f''"

inductive_simps step_simps [simp]:
  "fin_step rd view Done r a f' r'"
  "fin_step rd view Panic r a f' r'"
  "fin_step rd view (Get d key k1) r a f' r'"
  "fin_step rd view (CalculateBill its k2) r a f' r'"
  "fin_step rd view (UpsertStock it k3) r a f' r'"
  "fin_step rd view (QueryRows skus k4) r a f' r'"
  "fin_step rd view (GoUpdate ms f) r a f' r'"
  "fin_step rd view (Post url p f) r a f' r'"
  "fin_step rd view (RedisDo t f) r a f' r'"

inductive_cases run_doneE: "fin_run rd view Done as f"
inductive_cases run_panicE: "fin_run rd view Panic as f"

lemma run_ended [simp]: "fin_run rd view Done as f \<longleftrightarrow> as = [] \<and> f = Done" "fin_run rd view Panic as f \<longleftrightarrow> as = [] \<and> f = Panic"
  by (auto elim: run_doneE run_panicE intro: fr_end)

text \<open>The runs of each form of goroutine to its end.\<close>

lemma run_to_done:
  "f \<noteq> Done \<Longrightarrow> fin_run rd view f as Done \<longleftrightarrow>
     (\<exists>r a f' r' bs. fin_step rd view f r a f' r' \<and> as = a # bs \<and> fin_run rd view f' bs Done)"
  by (subst fin_run.simps) blast

lemma run_bill [simp]: "fin_run rd view (CalculateBill its k) as Done \<longleftrightarrow>
    (\<exists>resp bs. as = ABill its resp # bs \<and> fin_run rd view (k resp) bs Done)"
  by (subst run_to_done) auto

lemma run_upsert [simp]: "fin_run rd view (UpsertStock it k) as Done \<longleftrightarrow>
    (\<exists>err bs. as = AUpsert it err # bs \<and> fin_run rd view (k err) bs Done)"
  by (subst run_to_done) auto

lemma run_query [simp]: "fin_run rd view (QueryRows skus k) as Done \<longleftrightarrow>
    (\<exists>reply bs. as = AQuery skus reply # bs \<and> fin_run rd view (k reply) bs Done)"
  by (subst run_to_done) auto

lemma run_go [simp]: "fin_run rd view (GoUpdate ms f) as Done \<longleftrightarrow>
    (\<exists>bs. as = AGo ms # bs \<and> fin_run rd view f bs Done)"
  by (subst run_to_done) auto

lemma run_post [simp]: "fin_run rd view (Post url p f) as Done \<longleftrightarrow>
    (\<exists>bs. as = APost url p # bs \<and> fin_run rd view f bs Done)"
  by (subst run_to_done) auto

lemma delete_step: "task_step rd (DeleteOrderData oid isR (Return x)) r = Some (Return x, [], delete_order rd (oid, isR) r)"
  by (simp add: delete_order_def DeleteOrderData_def)

lemma run_delete [simp]:
  "fin_run rd view (RedisDo (DeleteOrderData oid isR (Return ())) Done) as Done \<longleftrightarrow>
     as = [ARedis (DeleteOrderData oid isR (Return ()))]"
  by (subst run_to_done) (auto simp: delete_step)

section \<open>What it does\<close>

text \<open>\<open>range\<close> visits every entry of a map once.\<close>

definition fin_range_ok :: "fin_env \<Rightarrow> bool" where
  "fin_range_ok env \<longleftrightarrow>
     (\<forall>m. finite (dom m) \<longrightarrow> distinct (map fst (fz_range_cart env m)) \<and> map_of (fz_range_cart env m) = m)
   \<and> (\<forall>m. finite (dom m) \<longrightarrow> distinct (fz_range_skus env m) \<and> set (fz_range_skus env m) = dom m)"

definition delete_act :: "order_key \<Rightarrow> act" where
  "delete_act k = ARedis (DeleteOrderData (fst k) (snd k) (Return ()))"

text \<open>The request that tells the ordering service: with an empty body, unless the price is a finite number.\<close>

definition post_act :: "string \<Rightarrow> string \<Rightarrow> string \<Rightarrow> 64 word \<Rightarrow> act" where
  "post_act url orderID priceKey price = APost url (if finite_double price
     then Some \<lparr>wh_order_id = orderID, wh_status = ''COMPLETED'', wh_price_key = priceKey, wh_price = price\<rparr> else None)"

lemma run_webhook [simp]:
  "fin_run rd view (callWebhook env orderID price url priceKey k) as Done \<longleftrightarrow> fz_url_ok env url
     \<and> (\<exists>bs. as = post_act url orderID priceKey price # bs \<and> fin_run rd view k bs Done)"
  by (simp add: callWebhook_def post_act_def Let_def)

text \<open>
  Valid UTF-8 (RFC 3629, as in Go's package \<open>unicode/utf8\<close>): no overlong forms, no surrogates, nothing above
  U+10FFFF. Protocol Buffers strings are valid UTF-8 and gRPC rejects others.
\<close>

definition utf8_cont :: "nat \<Rightarrow> bool" where
  "utf8_cont b \<longleftrightarrow> 0x80 \<le> b \<and> b \<le> 0xBF"

definition utf8_second :: "nat \<Rightarrow> nat \<Rightarrow> bool" where
  "utf8_second a b \<longleftrightarrow> (if a = 0xE0 then 0xA0 else if a = 0xF0 then 0x90 else 0x80) \<le> b
     \<and> b \<le> (if a = 0xED then 0x9F else if a = 0xF4 then 0x8F else 0xBF)"

fun utf8 :: "nat list \<Rightarrow> bool" where
  "utf8 [] = True"
| "utf8 (a # bs) =
     (if a < 0x80 then utf8 bs
      else (case bs of [] \<Rightarrow> False | b # cs \<Rightarrow>
        if 0xC2 \<le> a \<and> a \<le> 0xDF then utf8_cont b \<and> utf8 cs
        else (case cs of [] \<Rightarrow> False | c # ds \<Rightarrow>
          if 0xE0 \<le> a \<and> a \<le> 0xEF then utf8_second a b \<and> utf8_cont c \<and> utf8 ds
          else (case ds of [] \<Rightarrow> False | d # es \<Rightarrow>
            0xF0 \<le> a \<and> a \<le> 0xF4 \<and> utf8_second a b \<and> utf8_cont c \<and> utf8_cont d \<and> utf8 es))))"

definition utf8_string :: "string \<Rightarrow> bool" where
  "utf8_string s = utf8 (map of_char s)"

text \<open>
  SET stores the value, in what \<open>db\<close> sees of the store's state, and decoding undoes encoding, for keys
  that are valid UTF-8 (in others the encoder replaces the invalid bytes).
\<close>

definition store_ok :: "('g, 'w) dispatch_env \<Rightarrow> fin_env \<Rightarrow> ('w \<Rightarrow> redis_db) \<Rightarrow> bool" where
  "store_ok de env db \<longleftrightarrow>
     (\<forall>d key val w w'. de_set de d key val w = (None, w') \<longrightarrow> db w' (d, key) = Some val)
   \<and> (\<forall>m data. finite (dom m) \<longrightarrow> (\<forall>sku\<in>dom m. utf8_string sku) \<longrightarrow> de_marshal_cart de m = Inr data \<longrightarrow>
        fz_unmarshal_cart env data = Inr m)"

text \<open>What it does when it has read the items.\<close>

definition client_rest :: "fin_env \<Rightarrow> string \<Rightarrow> (string \<rightharpoonup> 32 word) \<Rightarrow> fin" where
  "client_rest env orderID items = CalculateBill (fz_range_cart env items) (\<lambda>resp. callWebhook env orderID
     (case resp of Inr grandTotal \<Rightarrow> grandTotal | Inl err \<Rightarrow> 0) (fz_orderWebhookURL env) ''total_price''
     (RedisDo (DeleteOrderData orderID False (Return ())) Done))"

definition restock_rest :: "fin_env \<Rightarrow> string \<Rightarrow> restock_item list \<Rightarrow> fin" where
  "restock_rest env orderID items = restock_loop env items 0 Map.empty Map.empty (restock_pricing env orderID)"

lemma finalizeOrder_client: "finalizeOrder env (orderID, False) = Get clientClient (orderID @ '':items'') (\<lambda>v.
    case (case v of Inl err \<Rightarrow> Inl err | Inr s \<Rightarrow> fz_unmarshal_cart env s) of
      Inl err \<Rightarrow> Done | Inr items \<Rightarrow> client_rest env orderID items)"
  by (simp add: finalizeOrder_def finalizeClientOrder_def GetOrderItems_def client_rest_def Let_def fun_eq_iff split: sum.split)

lemma finalizeOrder_restock: "finalizeOrder env (orderID, True) = Get restockClient (orderID @ '':items'') (\<lambda>v.
    case (case v of Inl err \<Rightarrow> Inl err | Inr s \<Rightarrow> fz_unmarshal_restock env s) of
      Inl err \<Rightarrow> Done | Inr items \<Rightarrow> restock_rest env orderID items)"
  by (simp add: finalizeOrder_def finalizeRestock_def GetRestockItems_def restock_rest_def Let_def fun_eq_iff split: sum.split)

text \<open>
  C6. What was ordered is what is billed. The items that \<open>SaveOrderItems\<close> has stored (with skus in valid
  UTF-8, which gRPC guarantees), if Redis still has them when the finalization reads them, are the ones
  that the pricing service is asked to bill, each sku once; the ordering service is then told that the
  order is completed, with the bill's total, or with the price 0 if the billing failed (only if the total
  is not a finite number, the request is empty), and the order's keys are removed at the very end, whatever
  becomes of the request.
  If the items cannot be read, nothing is billed, nobody is told, and the keys stay.
\<close>

theorem saved_order_billed:
  assumes "SaveOrderItems de orderID items w = (None, w')" "finite (dom items)" "\<forall>sku\<in>dom items. utf8_string sku"
    and store: "store_ok de env db" and "fin_range_ok env"
    and "view r (clientClient, orderID @ '':items'') = db w' (clientClient, orderID @ '':items'')"
    and "fin_step rd view (finalizeOrder env (orderID, False)) r a f r'" "fin_run rd view f as Done"
  shows "\<exists>v. a = AGet clientClient (orderID @ '':items'') v \<and> (case v of
      Inl err \<Rightarrow> as = []
    | Inr s \<Rightarrow> \<exists>its resp. distinct (map fst its) \<and> map_of its = items
        \<and> as = [ABill its resp,
            post_act (fz_orderWebhookURL env) orderID ''total_price'' (case resp of Inr grandTotal \<Rightarrow> grandTotal | Inl _ \<Rightarrow> 0),
            delete_act (orderID, False)])"
proof -
  obtain data where data: "de_marshal_cart de items = Inr data" "db w' (clientClient, orderID @ '':items'') = Some data"
    using assms(1) store unfolding store_ok_def SaveOrderItems_def by (auto split: sum.splits)
  have json: "fz_unmarshal_cart env data = Inr items" using store assms(2,3) data(1) unfolding store_ok_def by blast
  from assms(7) [unfolded finalizeOrder_client step_simps] obtain v where v: "a = AGet clientClient (orderID @ '':items'') v"
    "f = (case (case v of Inl err \<Rightarrow> Inl err | Inr s \<Rightarrow> fz_unmarshal_cart env s) of
        Inl err \<Rightarrow> Done | Inr items \<Rightarrow> client_rest env orderID items)"
    "\<And>s. v = Inr s \<Longrightarrow> s = data"
    using assms(6) data(2) by fastforce
  show ?thesis
  proof (cases v)
    case (Inl err)
    with v(1,2) assms(8) show ?thesis by simp
  next
    case (Inr s)
    with v(2,3) json have f: "f = client_rest env orderID items" by simp
    have "distinct (map fst (fz_range_cart env items))" "map_of (fz_range_cart env items) = items"
      using assms(2,5) unfolding fin_range_ok_def by blast+
    with assms(8) show ?thesis unfolding f v(1) Inr
      by (intro exI [of _ "Inr s"]) (auto simp: delete_act_def client_rest_def)
  qed
qed

text \<open>The row for an item of a restock order, the total of an order, and the items that were stored.\<close>

definition stock_of :: "restock_item \<Rightarrow> stock_item" where
  "stock_of pi = \<lparr>si_sku = ri_sku pi, si_name = ri_name pi, si_aisle_type = ri_aisle_type pi,
     si_quantity = scast (ri_quantity pi), si_unit_cost = ri_unit_cost pi,
     si_mfd_date = ri_mfd_date pi, si_expiry_date = ri_expiry_date pi\<rparr>"

definition restock_total :: "fin_env \<Rightarrow> 64 word \<Rightarrow> restock_item list \<Rightarrow> 64 word" where
  "restock_total env = foldl (\<lambda>t pi. fz_add env t (fz_mul env (ri_unit_cost pi) (fz_float64 env (ri_quantity pi))))"

definition stored :: "restock_item list \<Rightarrow> string option list \<Rightarrow> (string \<times> 64 word) list" where
  "stored items errs = map (\<lambda>(pi, err). (ri_sku pi, ri_unit_cost pi)) (filter (\<lambda>(pi, err). err = None) (zip items errs))"

definition skus_of :: "(string \<rightharpoonup> 64 word) \<Rightarrow> string \<rightharpoonup> unit" where
  "skus_of m = (\<lambda>sku. map_option (\<lambda>_. ()) (m sku))"

lemma dom_skus_of [simp]: "dom (skus_of m) = dom m"
  by (auto simp: skus_of_def)

lemma skus_of_update: "skus_of (m(sku \<mapsto> c)) = (skus_of m)(sku \<mapsto> ())"
  by (auto simp: skus_of_def fun_eq_iff)

lemma stored_Cons:
  "stored (pi # items) (err # errs) = (if err = None then [(ri_sku pi, ri_unit_cost pi)] else []) @ stored items errs"
  by (simp add: stored_def)

lemma restock_loop_run:
  "fin_run rd view (restock_loop env items t lc (skus_of lc) k) as Done \<Longrightarrow>
     \<exists>errs bs. length errs = length items \<and> as = map2 AUpsert (map stock_of items) errs @ bs
       \<and> fin_run rd view (k (restock_total env t items) (lc ++ map_of (rev (stored items errs)))
           (skus_of (lc ++ map_of (rev (stored items errs))))) bs Done"
proof (induction items arbitrary: t lc as)
  case Nil
  then show ?case by (intro exI [of _ "[]"] exI [of _ as]) (simp add: stored_def restock_total_def)
next
  case (Cons pi items)
  let ?t = "fz_add env t (fz_mul env (ri_unit_cost pi) (fz_float64 env (ri_quantity pi)))"
  let ?lc = "\<lambda>err. if err = None then lc(ri_sku pi \<mapsto> ri_unit_cost pi) else lc"
  have "restock_loop env (pi # items) t lc (skus_of lc) k =
      UpsertStock (stock_of pi) (\<lambda>err. restock_loop env items ?t (?lc err) (skus_of (?lc err)) k)"
    by (auto simp: Let_def stock_of_def fun_eq_iff skus_of_update split: option.split)
  with Cons.prems obtain err cs where as: "as = AUpsert (stock_of pi) err # cs"
    and run: "fin_run rd view (restock_loop env items ?t (?lc err) (skus_of (?lc err)) k) cs Done" by auto
  from Cons.IH [OF run] obtain errs bs where e: "length errs = length items" "cs = map2 AUpsert (map stock_of items) errs @ bs"
    "fin_run rd view (k (restock_total env ?t items) (?lc err ++ map_of (rev (stored items errs)))
       (skus_of (?lc err ++ map_of (rev (stored items errs))))) bs Done" by blast
  have "?lc err ++ map_of (rev (stored items errs)) = lc ++ map_of (rev (stored (pi # items) (err # errs)))"
    by (simp add: stored_Cons)
  with e as show ?case
    by (intro exI [of _ "err # errs"] exI [of _ bs]) (simp add: restock_total_def)
qed

lemma pricing_updates_ok:
  assumes "set skus \<subseteq> dom latest"
  shows "map sm_sku (pricing_updates rows latest skus) = filter (\<lambda>sku. rows sku \<noteq> None) skus"
    and "\<forall>m\<in>set (pricing_updates rows latest skus). latest (sm_sku m) = Some (sm_unit_cost m)
      \<and> (\<exists>row. rows (sm_sku m) = Some row \<and> sm_quantity m = ucast (sr_quantity row))"
  using assms by (induction skus) (auto split: option.splits)

definition restock_end :: "fin_env \<Rightarrow> string \<Rightarrow> 64 word \<Rightarrow> act list" where
  "restock_end env orderID t =
     [post_act (fz_restockWebhookURL env) orderID ''total_cost'' t, delete_act (orderID, True)]"

lemma run_close [simp]:
  "fin_run rd view (restock_close env orderID t ms) as Done \<longleftrightarrow> fz_url_ok env (fz_restockWebhookURL env)
     \<and> as = (if ms = [] then [] else [AGo ms]) @ restock_end env orderID t"
  by (auto simp: restock_close_def restock_end_def delete_act_def Let_def)

definition price_ok :: "(string \<times> 64 word) list \<Rightarrow> act list \<Rightarrow> bool" where
  "price_ok xs qs \<longleftrightarrow> (if xs = [] then qs = []
     else \<exists>skus reply rows ms. distinct skus \<and> set skus = fst ` set xs
       \<and> rows = (case batch_items reply of Inl err \<Rightarrow> Map.empty | Inr rows \<Rightarrow> rows)
       \<and> qs = AQuery skus reply # (if ms = [] then [] else [AGo ms])
       \<and> map sm_sku ms = filter (\<lambda>sku. rows sku \<noteq> None) skus
       \<and> (\<forall>m\<in>set ms. map_of (rev xs) (sm_sku m) = Some (sm_unit_cost m)
          \<and> (\<exists>row. rows (sm_sku m) = Some row \<and> sm_quantity m = ucast (sr_quantity row))))"

lemma restock_pricing_run:
  assumes "fin_range_ok env"
    and "fin_run rd view (restock_pricing env orderID t (map_of (rev xs)) (skus_of (map_of (rev xs)))) as Done"
  shows "\<exists>qs. price_ok xs qs \<and> as = qs @ restock_end env orderID t"
proof -
  let ?skus = "fz_range_skus env (skus_of (map_of (rev xs)))"
  have "finite (dom (skus_of (map_of (rev xs))))" by (simp add: finite_dom_map_of)
  with assms(1) have s: "distinct ?skus" "set ?skus = dom (map_of (rev xs))" unfolding fin_range_ok_def by fastforce+
  then have s': "set ?skus = fst ` set xs" by (simp add: dom_map_of_conv_image_fst)
  show ?thesis
  proof (cases "xs = []")
    case True
    with s' have "?skus = []" by simp
    with assms(2) True show ?thesis by (auto simp: restock_pricing_def price_ok_def)
  next
    case False
    with s' have "?skus \<noteq> []" by auto
    with assms(2) obtain reply bs where as: "as = AQuery ?skus reply # bs"
      and run: "fin_run rd view (case batch_items reply of Inl batchErr \<Rightarrow> restock_close env orderID t []
        | Inr rows \<Rightarrow> restock_close env orderID t (pricing_updates rows (map_of (rev xs)) ?skus)) bs Done"
      by (auto simp: restock_pricing_def Let_def)
    let ?rows = "case batch_items reply of Inl err \<Rightarrow> Map.empty | Inr rows \<Rightarrow> rows"
    let ?ms = "pricing_updates ?rows (map_of (rev xs)) ?skus"
    have none: "pricing_updates Map.empty m skus = []" for m skus by (induction skus) simp_all
    with run have bs: "bs = (if ?ms = [] then [] else [AGo ?ms]) @ restock_end env orderID t"
      by (simp split: sum.splits)
    have "price_ok xs (AQuery ?skus reply # (if ?ms = [] then [] else [AGo ?ms]))"
      unfolding price_ok_def if_not_P [OF False]
      using s(1) s' pricing_updates_ok [of ?skus "map_of (rev xs)" ?rows] s(2)
      by (intro exI [of _ ?skus] exI [of _ reply] exI [of _ ?rows] exI [of _ ?ms]) simp
    then show ?thesis using as bs by auto
  qed
qed

text \<open>
  C7. What was delivered is what is stocked and paid for. The finalization of a restock order whose items
  can be read adds every item to the stock, in order and whatever fails; asks for the current rows of the
  skus that it could store, each once, and starts a goroutine to pass those that were found to the pricing
  service, with the quantity found and the last unit cost that was stored; then it tells the ordering
  service that the order is completed, with the total of all items, stored or not (a request with no body,
  if that is not a finite number); and removes the order's keys at the very end.
\<close>

theorem restock_stocked:
  assumes "fin_range_ok env"
    and "fin_step rd view (finalizeOrder env (orderID, True)) r a f r'" "fin_run rd view f as Done"
  shows "\<exists>v. a = AGet restockClient (orderID @ '':items'') v \<and>
    (case (case v of Inl err \<Rightarrow> Inl err | Inr s \<Rightarrow> fz_unmarshal_restock env s) of
      Inl err \<Rightarrow> as = []
    | Inr items \<Rightarrow> \<exists>errs qs. length errs = length items
        \<and> as = map2 AUpsert (map stock_of items) errs @ qs @ restock_end env orderID (restock_total env 0 items)
        \<and> price_ok (stored items errs) qs)"
proof -
  let ?items = "\<lambda>v. case v of Inl err \<Rightarrow> Inl err | Inr val \<Rightarrow> fz_unmarshal_restock env val"
  from assms(2) [unfolded finalizeOrder_restock step_simps] obtain v where v: "a = AGet restockClient (orderID @ '':items'') v"
    "f = (case ?items v of Inl err \<Rightarrow> Done | Inr items \<Rightarrow> restock_rest env orderID items)"
    by blast
  show ?thesis
  proof (cases "?items v")
    case (Inl err)
    with v assms(3) show ?thesis by simp
  next
    case (Inr items)
    have "Map.empty = skus_of Map.empty" by (simp add: skus_of_def)
    with v(2) Inr assms(3) have "fin_run rd view (restock_loop env items 0 Map.empty (skus_of Map.empty) (restock_pricing env orderID)) as Done"
      by (simp add: restock_rest_def)
    from restock_loop_run [OF this] obtain errs bs where e: "length errs = length items"
      "as = map2 AUpsert (map stock_of items) errs @ bs"
      and run: "fin_run rd view (restock_pricing env orderID (restock_total env 0 items) (map_of (rev (stored items errs)))
        (skus_of (map_of (rev (stored items errs))))) bs Done" by auto
    from restock_pricing_run [OF assms(1) run] e v(1) Inr show ?thesis by auto
  qed
qed


section \<open>An example\<close>

text \<open>
  A cart and a restock order with their encodings; the store writes to the Redis server of theory
  \<open>ReportBarrier\<close>; prices are whole numbers.
\<close>

definition demo_cart :: "string \<rightharpoonup> 32 word" where
  "demo_cart = [''milk'' \<mapsto> 2, ''figs'' \<mapsto> 1]"

definition demo_restock :: "restock_item list" where
  "demo_restock =
     [\<lparr>ri_sku = ''milk'', ri_name = ''Milk'', ri_aisle_type = ''dairy'', ri_quantity = 10, ri_unit_cost = 2,
        ri_mfd_date = (0, 0), ri_expiry_date = (9, 0)\<rparr>,
      \<lparr>ri_sku = ''figs'', ri_name = ''Figs'', ri_aisle_type = ''fruit'', ri_quantity = 3, ri_unit_cost = 5,
        ri_mfd_date = (0, 0), ri_expiry_date = (9, 0)\<rparr>]"

definition demo_store :: "(go_list_builder, redis_db) dispatch_env" where
  "demo_store = \<lparr>de_gb = list_go, de_send = (\<lambda>payload w. (None, w)), de_set = (\<lambda>d key val w. (None, w((d, key) \<mapsto> val))),
     de_marshal_cart = (\<lambda>m. if m = demo_cart then Inr ''{figs:1,milk:2}'' else Inl ''unsupported''),
     de_marshal_restock = (\<lambda>items. if items = demo_restock then Inr ''[milk,figs]'' else Inl ''unsupported''),
     de_query = (\<lambda>skus w. (Inr [Inr milk_row], w)),
     de_range_cart = (\<lambda>w. sorted_entries), de_range = (\<lambda>w. sorted_entries)\<rparr>"

definition demo_fin :: fin_env where
  "demo_fin = \<lparr>fz_unmarshal_cart = (\<lambda>s. if s = ''{figs:1,milk:2}'' then Inr demo_cart else Inl ''invalid''),
     fz_unmarshal_restock = (\<lambda>s. if s = ''[milk,figs]'' then Inr demo_restock else Inl ''invalid''),
     fz_range_cart = sorted_entries, fz_range_skus = (\<lambda>m. sorted_list_of_set (dom m)),
     fz_orderWebhookURL = ''/internal/order'', fz_restockWebhookURL = ''/internal/restock'', fz_url_ok = (\<lambda>url. True),
     fz_float64 = ucast, fz_mul = (*), fz_add = (+)\<rparr>"

lemma demo_fin_simps [simp]:
  "fz_unmarshal_cart demo_fin ''{figs:1,milk:2}'' = Inr demo_cart"
  "fz_unmarshal_restock demo_fin ''[milk,figs]'' = Inr demo_restock"
  "fz_range_cart demo_fin = sorted_entries" "fz_range_skus demo_fin = (\<lambda>m. sorted_list_of_set (dom m))"
  "fz_url_ok demo_fin url" "fz_orderWebhookURL demo_fin = ''/internal/order''"
  "fz_restockWebhookURL demo_fin = ''/internal/restock''" "fz_float64 demo_fin = ucast" "fz_mul demo_fin = (*)" "fz_add demo_fin = (+)"
  by (simp_all add: demo_fin_def)

lemma demo_fin_range: "fin_range_ok demo_fin"
  by (simp add: fin_range_ok_def sorted_entries_ok)

theorem saved_order_billed_witness:
  "fin_run map_redis (\<lambda>db. db) (client_rest demo_fin ''o1'' demo_cart)
     [ABill (sorted_entries demo_cart) (Inr 7),
      APost ''/internal/order'' (Some \<lparr>wh_order_id = ''o1'', wh_status = ''COMPLETED'', wh_price_key = ''total_price'', wh_price = 7\<rparr>),
      delete_act (''o1'', False)] Done
   \<and> map_of (sorted_entries demo_cart) = demo_cart"
proof -
  let ?key = "(clientClient, ''o1:items'')" and ?json = "''{figs:1,milk:2}''"
  let ?acts = "[ABill (sorted_entries demo_cart) (Inr 7),
      APost ''/internal/order'' (Some \<lparr>wh_order_id = ''o1'', wh_status = ''COMPLETED'', wh_price_key = ''total_price'', wh_price = 7\<rparr>),
      delete_act (''o1'', False)]"
  have save: "SaveOrderItems demo_store ''o1'' demo_cart Map.empty = (None, [?key \<mapsto> ?json])"
    by (simp add: SaveOrderItems_def demo_store_def)
  have fin: "finite (dom demo_cart)" by (simp add: demo_cart_def)
  have store: "store_ok demo_store demo_fin (\<lambda>db. db)"
    by (auto simp: store_ok_def demo_store_def split: if_splits)
  have step: "fin_step map_redis (\<lambda>db. db) (finalizeOrder demo_fin (''o1'', False)) [?key \<mapsto> ?json]
      (AGet clientClient ''o1:items'' (Inr ?json)) (client_rest demo_fin ''o1'' demo_cart) [?key \<mapsto> ?json]"
    by (simp add: finalizeOrder_client)
  have run: "fin_run map_redis (\<lambda>db. db) (client_rest demo_fin ''o1'' demo_cart) ?acts Done"
    by (simp add: client_rest_def delete_act_def post_act_def finite_double_def)
  have keys: "\<forall>sku\<in>dom demo_cart. utf8_string sku"
    by (simp add: demo_cart_def utf8_string_def)
  note billed = saved_order_billed [where de = demo_store and env = demo_fin and db = "\<lambda>db. db" and view = "\<lambda>db. db"
      and r = "[?key \<mapsto> ?json]" and w = Map.empty and w' = "[?key \<mapsto> ?json]" and rd = map_redis
      and orderID = "''o1''" and items = demo_cart and as = ?acts and a = "AGet clientClient ''o1:items'' (Inr ?json)"
      and f = "client_rest demo_fin ''o1'' demo_cart" and r' = "[?key \<mapsto> ?json]"]
  from billed [OF save fin keys store demo_fin_range refl step run]
  show ?thesis using run by auto
qed

theorem restock_stocked_witness:
  "\<exists>errs qs. length errs = 2 \<and> hd errs = None
    \<and> [AUpsert (stock_of (demo_restock ! 0)) None, AUpsert (stock_of (demo_restock ! 1)) (Some ''timeout''),
       AQuery [''milk''] (Inr [Inr milk_row]), AGo [\<lparr>sm_sku = ''milk'', sm_quantity = 40, sm_unit_cost = 2\<rparr>]]
        @ restock_end demo_fin ''o2'' 35
      = map2 AUpsert (map stock_of demo_restock) errs @ qs @ restock_end demo_fin ''o2'' (restock_total demo_fin 0 demo_restock)
    \<and> price_ok (stored demo_restock errs) qs"
proof -
  let ?acts = "[AUpsert (stock_of (demo_restock ! 0)) None, AUpsert (stock_of (demo_restock ! 1)) (Some ''timeout''),
       AQuery [''milk''] (Inr [Inr milk_row]), AGo [\<lparr>sm_sku = ''milk'', sm_quantity = 40, sm_unit_cost = 2\<rparr>]]
        @ restock_end demo_fin ''o2'' 35"
  let ?key = "(restockClient, ''o2:items'')" and ?json = "''[milk,figs]''"
  have step: "fin_step map_redis (\<lambda>db. db) (finalizeOrder demo_fin (''o2'', True)) [?key \<mapsto> ?json]
      (AGet restockClient ''o2:items'' (Inr ?json)) (restock_rest demo_fin ''o2'' demo_restock) [?key \<mapsto> ?json]"
    by (simp add: finalizeOrder_restock)
  have run: "fin_run map_redis (\<lambda>db. db) (restock_rest demo_fin ''o2'' demo_restock) ?acts Done"
    by (simp add: restock_rest_def demo_restock_def stock_of_def restock_pricing_def batch_items_def milk_row_def Let_def)
  from restock_stocked [OF demo_fin_range step run] obtain errs qs where e: "length errs = length demo_restock"
    "?acts = map2 AUpsert (map stock_of demo_restock) errs @ qs @ restock_end demo_fin ''o2'' (restock_total demo_fin 0 demo_restock)"
    "price_ok (stored demo_restock errs) qs" by auto
  have l: "length demo_restock = 2" by (simp add: demo_restock_def)
  with e(1) obtain x y where "errs = [x, y]" by (auto simp: length_Suc_conv numeral_2_eq_2)
  with e(2) have "hd errs = None" by (simp add: demo_restock_def)
  with e l show ?thesis by (intro exI [of _ errs] exI [of _ qs] conjI) simp_all
qed

end
