(* ===== verification/FinalizedOrders.thy ===== *)
theory FinalizedOrders
  imports Finalization
begin

text \<open>
  The inventory service with the goroutines of its finalizations: the calls of \<open>ReportJobStatus\<close> and the
  finalizations they start share the Redis server and interleave at every operation. It refines the service
  of theory \<open>Inventory\<close>, in which a finalization is only its end; so what theory \<open>ReportBarrier\<close> shows
  of that holds here, and with it that an order with five reports is completed at the ordering service at
  most once.
\<close>

section \<open>The service and its finalizations\<close>

text \<open>
  The server of theory \<open>Inventory\<close>, in which \<open>sv_running\<close> lists the finalizations that have not ended; the
  goroutines, in the order in which they were started; the goroutines they started that have yet to call the
  pricing service; what has been done; and whether a panic has ended the process.
\<close>

record 'r system =
  sy_server :: "'r server"
  sy_fins :: "(order_key \<times> fin) list"
  sy_updates :: "(order_key \<times> stock_metric list) list"
  sy_log :: "(order_key \<times> act) list"
  sy_down :: bool

definition system_start :: "'r \<Rightarrow> 'r system" where
  "system_start r = \<lparr>sy_server = server_start r, sy_fins = [], sy_updates = [], sy_log = [], sy_down = False\<rparr>"

definition ended :: "fin \<Rightarrow> bool" where
  "ended f \<longleftrightarrow> f = Done \<or> f = Panic"

definition start_fins :: "fin_env \<Rightarrow> order_key list \<Rightarrow> (order_key \<times> fin) list" where
  "start_fins env = map (\<lambda>k. (k, finalizeOrder env k))"

definition start_update :: "order_key \<Rightarrow> act \<Rightarrow> (order_key \<times> stock_metric list) list" where
  "start_update k a = (case a of AGo ms \<Rightarrow> [(k, ms)] | _ \<Rightarrow> [])"

definition after_fin :: "nat \<Rightarrow> order_key \<Rightarrow> act \<Rightarrow> fin \<Rightarrow> 'r \<Rightarrow> 'r system \<Rightarrow> 'r system" where
  "after_fin i k a f r sy = sy\<lparr>
     sy_server := (sy_server sy)\<lparr>sv_redis := r,
       sv_running := (if ended f then remove1 k else id) (sv_running (sy_server sy))\<rparr>,
     sy_fins := (sy_fins sy)[i := (k, f)], sy_updates := sy_updates sy @ start_update k a, sy_log := sy_log sy @ [(k, a)], sy_down := (f = Panic)\<rparr>"

text \<open>
  A call arrives; a call runs its next command; a finalization does its next operation; keys expire; a
  goroutine calls the pricing service; the next command of a call or of a finalization is sent again; Redis
  executes a stray command. After a panic nothing happens.
\<close>

inductive system_step ::
  "fin_env \<Rightarrow> 'r redis_api \<Rightarrow> ('r \<Rightarrow> redis_db) \<Rightarrow> bool \<Rightarrow> 'r system \<Rightarrow> 'r system \<Rightarrow> bool"
  for env rd view faults where
  s_arrive: "\<not> sy_down sy \<Longrightarrow>
    system_step env rd view faults sy (sy\<lparr>sy_server := receive_call rq (sy_server sy)\<rparr>)"
| s_serve: "\<not> sy_down sy \<Longrightarrow> j < length (sv_tasks (sy_server sy)) \<Longrightarrow>
    task_step rd (sv_tasks (sy_server sy) ! j) (sv_redis (sy_server sy)) = Some (t, gs, r) \<Longrightarrow>
    system_step env rd view faults sy (sy\<lparr>sy_server := after_task j t gs r (sy_server sy),
      sy_fins := sy_fins sy @ start_fins env gs\<rparr>)"
| s_final: "\<not> sy_down sy \<Longrightarrow> i < length (sy_fins sy) \<Longrightarrow> sy_fins sy ! i = (k, f) \<Longrightarrow>
    fin_step rd view f (sv_redis (sy_server sy)) a f' r \<Longrightarrow>
    system_step env rd view faults sy (after_fin i k a f' r sy)"
| s_expire: "\<not> sy_down sy \<Longrightarrow> faults \<Longrightarrow> counters_kept (view (sv_redis (sy_server sy))) (view r) \<Longrightarrow>
    system_step env rd view faults sy (sy\<lparr>sy_server := (sy_server sy)\<lparr>sv_redis := r\<rparr>\<rparr>)"
| s_update: "\<not> sy_down sy \<Longrightarrow> i < length (sy_updates sy) \<Longrightarrow> sy_updates sy ! i = (k, ms) \<Longrightarrow>
    system_step env rd view faults sy (sy\<lparr>sy_updates := take i (sy_updates sy) @ drop (Suc i) (sy_updates sy),
      sy_log := sy_log sy @ [(k, AMetrics ms)]\<rparr>)"
| s_resend: "\<not> sy_down sy \<Longrightarrow> faults \<Longrightarrow> j < length (sv_tasks (sy_server sy)) \<Longrightarrow>
    system_step env rd view faults sy (sy\<lparr>sy_server := send_again (sv_tasks (sy_server sy) ! j) (sy_server sy)\<rparr>)"
| s_redo: "\<not> sy_down sy \<Longrightarrow> faults \<Longrightarrow> i < length (sy_fins sy) \<Longrightarrow> sy_fins sy ! i = (k, RedisDo t f) \<Longrightarrow>
    system_step env rd view faults sy (sy\<lparr>sy_server := send_again t (sy_server sy)\<rparr>)"
| s_stray: "\<not> sy_down sy \<Longrightarrow> faults \<Longrightarrow> j < length (sv_strays (sy_server sy)) \<Longrightarrow>
    task_step rd (sv_strays (sy_server sy) ! j) (sv_redis (sy_server sy)) = Some (t, gs, r) \<Longrightarrow>
    system_step env rd view faults sy (sy\<lparr>sy_server := after_stray j r (sy_server sy)\<rparr>)"

section \<open>The forms of a goroutine\<close>

text \<open>
  After its first operation: it posts once, to the URL and in the name of its order, unless a panic comes
  first, and its last operation is the removal of its order's keys; \<open>p\<close> says whether it has posted.
\<close>

definition post_url :: "fin_env \<Rightarrow> order_key \<Rightarrow> string" where
  "post_url env k = (if snd k then fz_restockWebhookURL env else fz_orderWebhookURL env)"

definition post_key :: "order_key \<Rightarrow> string" where
  "post_key k = (if snd k then ''total_cost'' else ''total_price'')"

definition post_ok :: "fin_env \<Rightarrow> order_key \<Rightarrow> string \<Rightarrow> webhook option \<Rightarrow> bool" where
  "post_ok env k url body \<longleftrightarrow> url = post_url env k \<and> (case body of None \<Rightarrow> True
     | Some w \<Rightarrow> wh_order_id w = fst k \<and> wh_status w = ''COMPLETED'' \<and> wh_price_key w = post_key k
         \<and> finite_double (wh_price w))"

primrec finishing :: "fin_env \<Rightarrow> order_key \<Rightarrow> fin \<Rightarrow> bool \<Rightarrow> bool" where
  "finishing env k Done p = False"
| "finishing env k Panic p = (\<not> p)"
| "finishing env k (Get d key c) p = False"
| "finishing env k (CalculateBill its c) p = (\<forall>x. finishing env k (c x) p)"
| "finishing env k (UpsertStock it c) p = (\<forall>x. finishing env k (c x) p)"
| "finishing env k (QueryRows skus c) p = (\<forall>x. finishing env k (c x) p)"
| "finishing env k (GoUpdate ms f) p = finishing env k f p"
| "finishing env k (Post url w f) p = (\<not> p \<and> post_ok env k url w \<and> finishing env k f True)"
| "finishing env k (RedisDo t f) p = (p \<and> t = DeleteOrderData (fst k) (snd k) (Return ()) \<and> f = Done)"

text \<open>The items could not be read.\<close>

definition unread :: "fin_env \<Rightarrow> order_key \<Rightarrow> act \<Rightarrow> bool" where
  "unread env k a = (case a of
     AGet d key (Inl err) \<Rightarrow> True
   | AGet d key (Inr s) \<Rightarrow>
       if snd k then (\<exists>e. fz_unmarshal_restock env s = Inl e) else (\<exists>e. fz_unmarshal_cart env s = Inl e)
   | _ \<Rightarrow> False)"

definition posts :: "act \<Rightarrow> bool" where
  "posts a = (case a of APost url w \<Rightarrow> True | _ \<Rightarrow> False)"

lemma finishing_excl: "finishing env k f True \<Longrightarrow> \<not> finishing env k f False"
  by (induction f) auto

lemma finishing_webhook:
  "url = post_url env (oid, isR) \<Longrightarrow> key = post_key (oid, isR) \<Longrightarrow>
     finishing env (oid, isR) (callWebhook env oid price url key (RedisDo (DeleteOrderData oid isR (Return ())) Done)) False"
  by (simp add: callWebhook_def post_ok_def Let_def)

lemma finishing_close: "finishing env (oid, True) (restock_close env oid t ms) False"
  by (simp add: restock_close_def Let_def finishing_webhook post_url_def post_key_def)

lemma finishing_pricing: "finishing env (oid, True) (restock_pricing env oid t lc us) False"
  by (auto simp: restock_pricing_def Let_def finishing_close split: sum.split)

lemma finishing_loop:
  "(\<And>t lc us. finishing env k (c t lc us) p) \<Longrightarrow> finishing env k (restock_loop env items t lc us c) p"
  by (induction items arbitrary: t lc us) (auto simp: Let_def split: option.split)

text \<open>The first operation.\<close>

lemma first_step:
  assumes "fin_step rd view (finalizeOrder env k) r a f r'"
  shows "r' = r \<and> \<not> posts a \<and> (if unread env k a then f = Done else finishing env k f False)"
proof -
  obtain oid isR where k: "k = (oid, isR)" by (cases k)
  show ?thesis
  proof (cases isR)
    case True
    let ?items = "\<lambda>v. case v of Inl err \<Rightarrow> Inl err | Inr s \<Rightarrow> fz_unmarshal_restock env s"
    from True have R: "isR = True" by simp
    from assms [unfolded k R finalizeOrder_restock step_simps] obtain v where v:
      "a = AGet restockClient (oid @ '':items'') v" "r' = r"
      "f = (case ?items v of Inl err \<Rightarrow> Done | Inr items \<Rightarrow> restock_rest env oid items)" by blast
    have "finishing env k (restock_rest env oid items) False" for items
      unfolding k R restock_rest_def by (rule finishing_loop) (rule finishing_pricing)
    with v show ?thesis by (cases "?items v") (auto simp: k True posts_def unread_def split: sum.splits)
  next
    case False
    let ?items = "\<lambda>v. case v of Inl err \<Rightarrow> Inl err | Inr s \<Rightarrow> fz_unmarshal_cart env s"
    from False have "isR = False" by simp
    from assms [unfolded k this finalizeOrder_client step_simps] obtain v where v:
      "a = AGet clientClient (oid @ '':items'') v" "r' = r"
      "f = (case ?items v of Inl err \<Rightarrow> Done | Inr items \<Rightarrow> client_rest env oid items)" by blast
    have "finishing env k (client_rest env oid items) False" for items
      using False by (simp add: k client_rest_def finishing_webhook post_url_def post_key_def)
    with v False show ?thesis by (cases "?items v") (auto simp: k posts_def unread_def split: sum.splits)
  qed
qed

text \<open>The others.\<close>

lemma later_step:
  assumes "fin_step rd view f r a f' r'" "finishing env k f p"
  shows "(\<exists>url w. a = APost url w \<and> post_ok env k url w \<and> \<not> p \<and> finishing env k f' True \<and> r' = r)
    \<or> (\<not> posts a \<and> p \<and> f' = Done \<and> r' = delete_order rd k r)
    \<or> (\<not> posts a \<and> finishing env k f' p \<and> r' = r)"
  using assms
proof (cases rule: fin_step.cases)
  case f_redis
  then show ?thesis using assms(2) delete_step [of rd "fst k" "snd k" "()" r] by (simp add: posts_def)
qed (use assms(2) in \<open>auto simp: posts_def\<close>)

lemma later_read: "fin_step rd view f r a f' r' \<Longrightarrow> finishing env k f p \<Longrightarrow> \<not> unread env k' a"
  by (cases rule: fin_step.cases) (auto simp: unread_def)


section \<open>The service is a refinement\<close>

definition fin_ok :: "fin_env \<Rightarrow> order_key \<times> fin \<Rightarrow> bool" where
  "fin_ok env = (\<lambda>(k, f). f = finalizeOrder env k \<or> ended f \<or> (\<exists>p. finishing env k f p))"

definition running :: "order_key \<Rightarrow> order_key \<times> fin \<Rightarrow> nat" where
  "running k = (\<lambda>(k', f). if k' = k \<and> \<not> ended f then 1 else 0)"

lemma running_simp [simp]: "running k (k', f) = (if k' = k \<and> \<not> ended f then 1 else 0)"
  by (simp add: running_def)

text \<open>The goroutines have their forms, and \<open>sv_running\<close> counts those that have not ended.\<close>

definition system_wf :: "fin_env \<Rightarrow> 'r system \<Rightarrow> bool" where
  "system_wf env sy \<longleftrightarrow> list_all (fin_ok env) (sy_fins sy)
     \<and> (\<forall>k. count_list (sv_running (sy_server sy)) k = sum_list (map (running k) (sy_fins sy)))"

text \<open>Nothing has ended a finalization early.\<close>

definition unspoiled :: "fin_env \<Rightarrow> 'r system \<Rightarrow> bool" where
  "unspoiled env sy \<longleftrightarrow> \<not> sy_down sy \<and> (\<forall>(k, a)\<in>set (sy_log sy). \<not> unread env k a)"

lemma not_ended_start [simp]: "\<not> ended (finalizeOrder env k)"
  by (cases k; cases "snd k") (simp_all add: ended_def finalizeOrder_client finalizeOrder_restock)

lemma start_not_redo: "finalizeOrder env k \<noteq> RedisDo t f"
  by (cases k; cases "snd k") (simp_all add: finalizeOrder_client finalizeOrder_restock)

lemma running_start: "sum_list (map (running k) (start_fins env gs)) = count_list gs k"
  by (induction gs) (auto simp: start_fins_def running_def)

lemma fin_ok_start: "list_all (fin_ok env) (start_fins env gs)"
  by (auto simp: start_fins_def fin_ok_def list_all_iff)

lemma sum_list_map_update:
  fixes g :: "'a \<Rightarrow> nat"
  assumes "i < length xs"
  shows "sum_list (map g (xs[i := y])) + g (xs ! i) = sum_list (map g xs) + g y"
  using assms
proof (induction xs arbitrary: i)
  case (Cons x xs)
  then show ?case by (cases i) (auto simp: algebra_simps)
qed simp

text \<open>What an operation of a goroutine can be: it ends early, it ends with its deletion, or it goes on.\<close>

lemma fin_cases:
  assumes "fin_step rd view f r a f' r'" "fin_ok env (k, f)"
  obtains (early) "ended f'" "r' = r" "f' = Panic \<or> unread env k a"
    | (del) "f' = Done" "r' = delete_order rd k r"
    | (go) "\<not> ended f'" "fin_ok env (k, f')" "r' = r"
proof -
  have E: "\<not> ended f" using assms(1) by (auto simp: ended_def)
  show ?thesis
  proof (cases "f = finalizeOrder env k")
    case True
    from first_step [OF assms(1) [unfolded True]] show ?thesis
      using early go by (cases "ended f'") (auto simp: ended_def fin_ok_def split: if_splits)
  next
    case False
    with assms(2) E obtain p where "finishing env k f p" by (auto simp: fin_ok_def)
    from later_step [OF assms(1) this] show ?thesis
      using early del go by (cases "ended f'") (auto simp: ended_def fin_ok_def)
  qed
qed

lemma system_wf_running:
  assumes "system_wf env sy" "i < length (sy_fins sy)" "sy_fins sy ! i = (k, f)" "\<not> ended f"
  shows "k \<in> set (sv_running (sy_server sy))" "0 < count_list (sv_running (sy_server sy)) k"
proof -
  have "running k (sy_fins sy ! i) \<le> sum_list (map (running k) (sy_fins sy))"
    using assms(2) by (intro member_le_sum_list) auto
  moreover have "count_list (sv_running (sy_server sy)) k = sum_list (map (running k) (sy_fins sy))"
    using assms(1) unfolding system_wf_def by blast
  ultimately show pos: "0 < count_list (sv_running (sy_server sy)) k" using assms(3,4) by simp
  then show "k \<in> set (sv_running (sy_server sy))" by (metis count_notin less_irrefl)
qed

lemma system_wf_final:
  assumes "system_wf env sy" "i < length (sy_fins sy)" "sy_fins sy ! i = (k, f)"
    and "fin_step rd view f (sv_redis (sy_server sy)) a f' r"
  shows "system_wf env (after_fin i k a f' r sy)" "k \<in> set (sv_running (sy_server sy))"
proof -
  have ok: "fin_ok env (k, f)" using assms(1-3) unfolding system_wf_def by (metis list_all_length)
  have E: "\<not> ended f" using assms(4) by (auto simp: ended_def)
  have cnt: "count_list (sv_running (sy_server sy)) k' = sum_list (map (running k') (sy_fins sy))" for k'
    using assms(1) unfolding system_wf_def by blast
  note pos = system_wf_running(2) [OF assms(1-3) E]
  show mem: "k \<in> set (sv_running (sy_server sy))" by (rule system_wf_running(1) [OF assms(1-3) E])
  have "fin_ok env (k, f')"
    using assms(4) ok by (cases rule: fin_cases) (auto simp: fin_ok_def ended_def)
  moreover have "count_list (sv_running (sy_server (after_fin i k a f' r sy))) k' =
      sum_list (map (running k') ((sy_fins sy)[i := (k, f')]))" for k'
    using sum_list_map_update [OF assms(2), of "running k'" "(k, f')"] assms(3) E mem pos
    by (auto simp: cnt [symmetric] after_fin_def count_list_remove1)
  ultimately show "system_wf env (after_fin i k a f' r sy)"
    using assms(1) by (simp add: system_wf_def after_fin_def list_all_update)
qed

lemma system_step_wf:
  assumes "system_step env rd view faults sy sy'" "system_wf env sy"
  shows "system_wf env sy'"
  using assms(1)
proof cases
  case (s_serve j t gs r)
  then show ?thesis using assms(2) running_start fin_ok_start
    by (simp add: system_wf_def after_task_def)
next
  case (s_final i k f a f' r)
  then show ?thesis using system_wf_final(1) [OF assms(2)] by blast
qed (use assms(2) in \<open>simp_all add: system_wf_def receive_call_def send_again_def after_stray_def\<close>)

text \<open>Its steps are steps of the service of theory \<open>Inventory\<close>.\<close>

lemma system_step_refines:
  assumes "system_step env rd view f sy sy'" "system_wf env sy" "faults \<or> \<not> f \<and> unspoiled env sy'"
  shows "(service_step rd view faults)\<^sup>=\<^sup>= (sy_server sy) (sy_server sy')"
  using assms(1)
proof cases
  case (s_arrive rq)
  then show ?thesis by (auto intro: arrive)
next
  case (s_serve j t gs r)
  then show ?thesis by (auto simp: after_task_def intro!: inside serve)
next
  case (s_final i k g a g' r)
  note mem = system_wf_final(2) [OF assms(2) s_final(3-5)]
  have ok: "fin_ok env (k, g)" using assms(2) s_final(3,4) unfolding system_wf_def by (metis list_all_length)
  from s_final(5) ok show ?thesis
  proof (cases rule: fin_cases)
    case early
    then have "\<not> unspoiled env sy'" by (auto simp: s_final(1) after_fin_def unspoiled_def)
    with assms(3) have faults by blast
    then have "service_step rd view faults (sy_server sy)
        ((sy_server sy)\<lparr>sv_running := remove1 k (sv_running (sy_server sy))\<rparr>)"
      using mem by (intro inside give_up)
    with early show ?thesis by (simp add: s_final(1) after_fin_def)
  next
    case del
    from mem have "service_step rd view faults (sy_server sy)
        ((sy_server sy)\<lparr>sv_redis := delete_order rd k (sv_redis (sy_server sy)),
          sv_running := remove1 k (sv_running (sy_server sy))\<rparr>)" by (intro inside finish)
    with del show ?thesis by (simp add: s_final(1) after_fin_def ended_def)
  next
    case go
    then show ?thesis by (simp add: s_final(1) after_fin_def)
  qed
next
  case (s_expire r)
  then show ?thesis using assms(3) by (auto intro!: inside expire)
next
  case (s_resend j)
  then show ?thesis using assms(3) by (auto intro!: inside resend)
next
  case (s_redo i k t g)
  have "fin_ok env (k, RedisDo t g)" using assms(2) s_redo(4,5) unfolding system_wf_def by (metis list_all_length)
  then have t: "t = DeleteOrderData (fst k) (snd k) (Return ())"
    using start_not_redo [of env k t g] by (auto simp: fin_ok_def ended_def)
  have "k \<in> set (sv_running (sy_server sy))"
    by (rule system_wf_running(1) [OF assms(2) s_redo(4,5)]) (simp add: ended_def)
  then show ?thesis using s_redo(1,3) t assms(3) by (auto intro!: inside redelete)
next
  case (s_stray j t gs r)
  then show ?thesis using assms(3) by (auto intro!: inside stray)
qed simp

lemma unspoiled_mono:
  assumes "system_step env rd view f sy sy'" "unspoiled env sy'"
  shows "unspoiled env sy"
  using assms(1) by cases (use assms(2) in \<open>auto simp: unspoiled_def after_fin_def\<close>)

text \<open>The pricing service is called once for every goroutine that a finalization starts for it, or not yet.\<close>

definition calls_update :: "order_key \<times> act \<Rightarrow> (order_key \<times> stock_metric list) list" where
  "calls_update = (\<lambda>(k, a). case a of AMetrics ms \<Rightarrow> [(k, ms)] | _ \<Rightarrow> [])"

definition updates_ok :: "'r system \<Rightarrow> bool" where
  "updates_ok sy \<longleftrightarrow> (\<forall>u. count_list (concat (map (\<lambda>(k, a). start_update k a) (sy_log sy))) u =
     count_list (concat (map calls_update (sy_log sy))) u + count_list (sy_updates sy) u)"

lemma fin_step_calls: "fin_step rd view f r a f' r' \<Longrightarrow> calls_update (k, a) = []"
  by (erule fin_step.cases) (simp_all add: calls_update_def)

lemma count_list_split:
  assumes "i < length xs"
  shows "count_list xs x = count_list (take i xs @ drop (Suc i) xs) x + (if xs ! i = x then 1 else 0)"
proof -
  have "xs = take i xs @ xs ! i # drop (Suc i) xs" using assms by (rule id_take_nth_drop)
  then have "count_list xs x = count_list (take i xs @ xs ! i # drop (Suc i) xs) x" by (rule arg_cong)
  then show ?thesis by simp
qed

lemma updates_ok_step:
  assumes "system_step env rd view f sy sy'" "updates_ok sy"
  shows "updates_ok sy'"
  using assms(1)
proof cases
  case (s_final i k g a g' r)
  with assms(2) fin_step_calls [OF s_final(5)] show ?thesis by (simp add: updates_ok_def after_fin_def)
next
  case (s_update i k ms)
  have "count_list (sy_updates sy) u = count_list (sy_updates sy') u + (if (k, ms) = u then 1 else 0)" for u
    using count_list_split [OF s_update(3), of u, unfolded s_update(4)] by (simp add: s_update(1))
  with assms(2) s_update(1) show ?thesis by (auto simp: updates_ok_def start_update_def calls_update_def)
qed (use assms(2) in \<open>simp_all add: updates_ok_def\<close>)

lemma updates_ok_run:
  assumes "(system_step env rd view f)\<^sup>*\<^sup>* (system_start r) sy"
  shows "updates_ok sy"
  using assms
  by (induction rule: rtranclp_induct) (simp add: updates_ok_def system_start_def, blast intro: updates_ok_step)

lemma system_wf_start: "system_wf env (system_start r)"
  by (simp add: system_wf_def system_start_def server_start_def)

lemma system_wf_run:
  assumes "(system_step env rd view f)\<^sup>*\<^sup>* (system_start r) sy"
  shows "system_wf env sy"
  using assms
proof (induction rule: rtranclp_induct)
  case (step sy1 sy2)
  from system_step_wf [OF step.hyps(2) step.IH] show ?case .
qed (rule system_wf_start)

lemma system_runs:
  assumes "(system_step env rd view f)\<^sup>*\<^sup>* (system_start r) sy" "faults \<or> \<not> f \<and> unspoiled env sy"
  shows "(service_step rd view faults)\<^sup>*\<^sup>* (server_start r) (sy_server sy)"
  using assms
proof (induction rule: rtranclp_induct)
  case (step sy1 sy2)
  from step.hyps(2) step.prems have 1: "faults \<or> \<not> f \<and> unspoiled env sy1" using unspoiled_mono by blast
  from system_step_refines [OF step.hyps(2) system_wf_run [OF step.hyps(1)] step.prems]
  show ?case using step.IH [OF 1] by (auto intro: rtranclp.rtrancl_into_rtrancl)
qed (simp add: system_start_def)


text \<open>
  C8. The inventory service with its finalizations running refines the service in which a finalization is
  only the removal of its order's keys. Whatever calls arrive and however calls and finalizations interleave,
  the server goes through a run of the service of theory \<open>Inventory\<close>, in which a finalization ends early
  exactly when its items cannot be read or it panics: if neither has happened and nothing else is faulty,
  it is a run without faults.
\<close>

theorem system_refines_service:
  assumes "(system_step env rd view f)\<^sup>*\<^sup>* (system_start r) sy" "faults \<or> \<not> f \<and> unspoiled env sy"
  shows "(service_step rd view faults)\<^sup>*\<^sup>* (server_start r) (sy_server sy)"
  by (rule system_runs [OF assms])

section \<open>Completed once\<close>

text \<open>
  What the log says of an order: the requests to the ordering service, and the finalizations that could not
  read their items. The finalizations that have yet to post make up the difference to those started.
\<close>

definition posted :: "order_key \<Rightarrow> 'r system \<Rightarrow> nat" where
  "posted k sy = length (filter (\<lambda>(k', a). k' = k \<and> posts a) (sy_log sy))"

definition lost :: "fin_env \<Rightarrow> order_key \<Rightarrow> 'r system \<Rightarrow> nat" where
  "lost env k sy = length (filter (\<lambda>(k', a). k' = k \<and> unread env k a) (sy_log sy))"

definition to_post :: "fin_env \<Rightarrow> order_key \<Rightarrow> order_key \<times> fin \<Rightarrow> nat" where
  "to_post env k = (\<lambda>(k', f). if k' = k \<and> \<not> ended f \<and> \<not> finishing env k f True then 1 else 0)"

lemma to_post_simp [simp]:
  "to_post env k (k', f) = (if k' = k \<and> \<not> ended f \<and> \<not> finishing env k f True then 1 else 0)"
  by (simp add: to_post_def)

definition posts_ok :: "fin_env \<Rightarrow> 'r system \<Rightarrow> bool" where
  "posts_ok env sy \<longleftrightarrow> (\<forall>(k, a)\<in>set (sy_log sy). \<forall>url w. a = APost url w \<longrightarrow> post_ok env k url w)
     \<and> (\<forall>k. posted k sy + lost env k sy + sum_list (map (to_post env k) (sy_fins sy)) \<le> count_list (sv_finals (sy_server sy)) k
          \<and> (\<not> sy_down sy \<longrightarrow> posted k sy + lost env k sy + sum_list (map (to_post env k) (sy_fins sy)) =
               count_list (sv_finals (sy_server sy)) k))"

lemma start_not_finishing [simp]: "\<not> finishing env k (finalizeOrder env k') p"
  by (cases k'; cases "snd k'") (simp_all add: finalizeOrder_client finalizeOrder_restock)

lemma to_post_start: "sum_list (map (to_post env k) (start_fins env gs)) = count_list gs k"
  by (induction gs) (auto simp: start_fins_def)

lemma finishing_ended: "finishing env k f p \<Longrightarrow> ended f \<Longrightarrow> f = Panic \<and> \<not> p"
  by (auto simp: ended_def)

lemma fin_step_posts:
  assumes "fin_step rd view f r a f' r'" "fin_ok env (k, f)"
  shows "to_post env k (k, f') + of_bool (posts a) + of_bool (unread env k a) \<le> to_post env k (k, f)"
    and "f' \<noteq> Panic \<Longrightarrow> to_post env k (k, f') + of_bool (posts a) + of_bool (unread env k a) = to_post env k (k, f)"
    and "a = APost url w \<Longrightarrow> post_ok env k url w"
proof -
  have E: "\<not> ended f" using assms(1) by (auto simp: ended_def)
  let ?ok = "to_post env k (k, f') + of_bool (posts a) + of_bool (unread env k a) \<le> to_post env k (k, f)
    \<and> (f' \<noteq> Panic \<longrightarrow> to_post env k (k, f') + of_bool (posts a) + of_bool (unread env k a) = to_post env k (k, f))
    \<and> (\<forall>url w. a = APost url w \<longrightarrow> post_ok env k url w)"
  have ?ok
  proof (cases "f = finalizeOrder env k")
    case True
    from first_step [OF assms(1) [unfolded True]] show ?thesis
      using finishing_excl [of env k f'] not_ended_start [of env k]
      by (auto simp: True posts_def ended_def split: if_splits)
  next
    case False
    with assms(2) E obtain p where p: "finishing env k f p" by (auto simp: fin_ok_def)
    note later_step [OF assms(1) p] later_read [OF assms(1) p, of k]
    moreover have "p = finishing env k f True" using p finishing_excl [of env k f] by (cases p) auto
    ultimately show ?thesis
      using E finishing_excl [of env k f'] by (auto simp: posts_def ended_def)
  qed
  then show "to_post env k (k, f') + of_bool (posts a) + of_bool (unread env k a) \<le> to_post env k (k, f)"
    and "f' \<noteq> Panic \<Longrightarrow> to_post env k (k, f') + of_bool (posts a) + of_bool (unread env k a) = to_post env k (k, f)"
    and "a = APost url w \<Longrightarrow> post_ok env k url w" by blast+
qed

lemma posts_ok_final:
  assumes "posts_ok env sy" "system_wf env sy" "\<not> sy_down sy" "i < length (sy_fins sy)" "sy_fins sy ! i = (k, f)"
    and "fin_step rd view f (sv_redis (sy_server sy)) a f' r"
  shows "posts_ok env (after_fin i k a f' r sy)"
proof -
  have ok: "fin_ok env (k, f)" using assms(2,4,5) unfolding system_wf_def by (metis list_all_length)
  let ?sy = "after_fin i k a f' r sy"
  note step = fin_step_posts [OF assms(6) ok]
  have old: "posted k' sy + lost env k' sy + sum_list (map (to_post env k') (sy_fins sy)) = count_list (sv_finals (sy_server sy)) k'" for k'
    using assms(1,3) unfolding posts_ok_def by blast
  have new: "posted k' ?sy = posted k' sy + (if k' = k then of_bool (posts a) else 0)"
    "lost env k' ?sy = lost env k' sy + (if k' = k then of_bool (unread env k a) else 0)"
    "sum_list (map (to_post env k') (sy_fins ?sy)) + to_post env k' (k, f) =
       sum_list (map (to_post env k') (sy_fins sy)) + to_post env k' (k, f')" for k'
    using sum_list_map_update [OF assms(4), of "to_post env k'" "(k, f')"] assms(5)
    by (simp_all add: posted_def lost_def after_fin_def)
  have finals: "sv_finals (sy_server ?sy) = sv_finals (sy_server sy)" by (simp add: after_fin_def)
  have "\<forall>(k, a)\<in>set (sy_log ?sy). \<forall>url w. a = APost url w \<longrightarrow> post_ok env k url w"
    using assms(1) step(3) by (auto simp: posts_ok_def after_fin_def)
  moreover have "posted k' ?sy + lost env k' ?sy + sum_list (map (to_post env k') (sy_fins ?sy)) \<le> count_list (sv_finals (sy_server ?sy)) k'
      \<and> (\<not> sy_down ?sy \<longrightarrow> posted k' ?sy + lost env k' ?sy + sum_list (map (to_post env k') (sy_fins ?sy)) =
          count_list (sv_finals (sy_server ?sy)) k')" for k'
  proof (cases "k' = k")
    case True
    have "sy_down ?sy \<longleftrightarrow> f' = Panic" by (simp add: after_fin_def)
    with True step(1,2) new [of k] old [of k] finals show ?thesis by auto
  next
    case False
    with new [of k'] old [of k'] finals show ?thesis by simp
  qed
  ultimately show ?thesis unfolding posts_ok_def by blast
qed


lemma posts_ok_step:
  assumes "system_step env rd view faults sy sy'" "posts_ok env sy" "system_wf env sy"
  shows "posts_ok env sy'"
  using assms(1)
proof cases
  case (s_serve j t gs r)
  then have "posted k sy' = posted k sy" "lost env k sy' = lost env k sy" "sy_down sy' = sy_down sy"
    "sum_list (map (to_post env k) (sy_fins sy')) = sum_list (map (to_post env k) (sy_fins sy)) + count_list gs k"
    "count_list (sv_finals (sy_server sy')) k = count_list (sv_finals (sy_server sy)) k + count_list gs k" for k
    by (simp_all add: posted_def lost_def after_task_def to_post_start)
  moreover have "sy_log sy' = sy_log sy" using s_serve(1) by simp
  ultimately show ?thesis using assms(2) unfolding posts_ok_def by (simp add: add.assoc)
next
  case (s_final i k f a f' r)
  then show ?thesis using posts_ok_final [OF assms(2,3)] by blast
qed (use assms(2) in \<open>simp_all add: posts_ok_def receive_call_def posted_def lost_def send_again_def after_stray_def
    posts_def unread_def\<close>)

lemma posts_ok_run:
  assumes "(system_step env rd view f)\<^sup>*\<^sup>* (system_start r) sy"
  shows "posts_ok env sy"
  using assms
proof (induction rule: rtranclp_induct)
  case base
  show ?case by (simp add: posts_ok_def system_start_def server_start_def posted_def lost_def)
next
  case (step sy1 sy2)
  from posts_ok_step [OF step.hyps(2) step.IH system_wf_run [OF step.hyps(1)]] show ?case .
qed

lemma posted_pos: "(k, APost url w) \<in> set (sy_log sy) \<Longrightarrow> 0 < posted k sy"
  unfolding posted_def by (rule length_pos_if_in_set [of "(k, APost url w)"]) (simp add: posts_def)

text \<open>
  C4. An order is completed at the ordering service at most once, and only when all robots have reported.
  With calls and finalizations interleaving at every operation, commands that fail or are sent again, keys
  that expire and services that fail: as long as at most five reports on an order have been made, a report
  that an INCR sent again has counted once more included, at most one request is posted for it, and if one
  is, five reports have been made (where no INCR is executed again, five have arrived). Every request
  goes to the URL for its kind of order, with the order's identifier, the status COMPLETED and a finite
  price under the right name, or with an empty body.
\<close>

theorem completed_once:
  assumes "redis_ok rd view" "\<And>k. view r (count_key k) = None"
    and "(system_step env rd view faults)\<^sup>*\<^sup>* (system_start r) sy"
    and "tally k (sy_server sy) \<le> 5"
  shows "posted k sy \<le> 1 \<and> (\<forall>url w. (k, APost url w) \<in> set (sy_log sy) \<longrightarrow>
    post_ok env k url w \<and> tally k (sy_server sy) = 5)"
proof -
  have ok: "posts_ok env sy" by (rule posts_ok_run [OF assms(3)])
  have run: "(service_step rd view True)\<^sup>*\<^sup>* (server_start r) (sy_server sy)"
    using system_runs [OF assms(3)] by simp
  note once = finals_once [OF assms(1,2) run assms(4)]
  have le: "posted k sy \<le> count_list (sv_finals (sy_server sy)) k"
    using ok unfolding posts_ok_def by (meson add_leD1)
  moreover have "post_ok env k url w \<and> tally k (sy_server sy) = 5"
    if "(k, APost url w) \<in> set (sy_log sy)" for url w
  proof
    show "post_ok env k url w" using ok that unfolding posts_ok_def by blast
    have "k \<in> set (sv_finals (sy_server sy))"
      using posted_pos [OF that] le by (metis count_notin le_zero_eq less_irrefl)
    with once show "tally k (sy_server sy) = 5" by blast
  qed
  ultimately show ?thesis using once by (meson order_trans)
qed

text \<open>
  C5. An order whose five reports have arrived is completed. If no command fails, no key expires, and every
  finalization could read its items and did not panic: once nothing is left to do for the order (its calls
  and its finalization have ended), exactly one request has been posted for it to the ordering service,
  whatever the other services replied, and neither its counter nor its marker is left in Redis.
\<close>

theorem completed_in_the_end:
  assumes "redis_ok rd view" "redis_up rd view" "\<And>k. view r (count_key k) = None \<and> view r (mark_key k) = None"
    and "(system_step env rd view False)\<^sup>*\<^sup>* (system_start r) sy" "unspoiled env sy"
    and "count_list (map req_key (sv_calls (sy_server sy))) k = 5"
    and "\<forall>t\<in>set (sv_tasks (sy_server sy)). t \<notin> {start_task k, mark_task k, final_task k}"
    and "\<forall>f. (k, f) \<in> set (sy_fins sy) \<longrightarrow> f = Done"
  shows "posted k sy = 1 \<and> view (sv_redis (sy_server sy)) (count_key k) = None
    \<and> view (sv_redis (sy_server sy)) (mark_key k) = None"
proof -
  let ?b = "barrier_of view k (sy_server sy)"
  have run: "(service_step rd view False)\<^sup>*\<^sup>* (server_start r) (sy_server sy)"
    using system_runs [OF assms(4), of False] assms(5) by simp
  have b: "(barrier_next False)\<^sup>*\<^sup>* b_start ?b"
    using barrier_run [OF assms(1,3) run, of False] assms(2) by simp
  have ok: "barrier_ok ?b \<and> barrier_live ?b"
    using b
  proof (induction rule: rtranclp_induct)
    case (step b1 b2)
    from step.hyps(2) show ?case
      by cases (use step.IH barrier_ok_receive barrier_ok_step barrier_live_receive barrier_live_step in blast)+
  qed (simp add: barrier_ok_start barrier_live_start)
  have none: "running k p = 0 \<and> to_post env k p = 0" if "p \<in> set (sy_fins sy)" for p
    using assms(8) that by (cases p) (auto simp: ended_def)
  have "count_list (sv_running (sy_server sy)) k = sum_list (map (running k) (sy_fins sy))"
    using system_wf_run [OF assms(4)] unfolding system_wf_def by blast
  then have "br_running ?b = 0" using none by (simp add: barrier_of_def sum_list_eq_0_iff)
  moreover have "br_pending ?b = 0" "br_marking ?b = 0" "br_going ?b = 0" "br_arrived ?b = 5"
    using assms(6,7) service_run_again [OF run] by (auto simp: seen_defs count_list_0_iff)
  ultimately have e: "br_finals ?b = 1" "br_count ?b = None" "br_marker ?b = None"
    using barrier_live_end ok by blast+
  have "lost env k sy = 0" using assms(5) by (auto simp: unspoiled_def lost_def filter_empty_conv)
  moreover have "posted k sy + lost env k sy + sum_list (map (to_post env k) (sy_fins sy)) = count_list (sv_finals (sy_server sy)) k"
    using posts_ok_run [OF assms(4)] assms(5) unfolding posts_ok_def unspoiled_def by blast
  moreover have "sum_list (map (to_post env k) (sy_fins sy)) = 0" using none by (simp add: sum_list_eq_0_iff)
  ultimately show ?thesis using e by (simp add: barrier_of_def)
qed


section \<open>An example\<close>

text \<open>Five reports on an order whose items are stored, served to the end, and its finalization, operation by operation.\<close>

definition serve_system :: "fin_env \<Rightarrow> 'r redis_api \<Rightarrow> nat list \<Rightarrow> 'r system \<Rightarrow> 'r system" where
  "serve_system env rd js sy = sy\<lparr>sy_server := serve_all rd js (sy_server sy),
     sy_fins := start_fins env (sv_finals (serve_all rd js (sy_server sy)))\<rparr>"

lemma serve_system_run:
  "\<not> sy_down sy \<Longrightarrow> sy_fins sy = start_fins env (sv_finals (sy_server sy)) \<Longrightarrow>
     (system_step env rd view faults)\<^sup>*\<^sup>* sy (serve_system env rd js sy)"
proof (induction js arbitrary: sy)
  case Nil
  then have "serve_system env rd [] sy = sy" by (cases sy) (simp add: serve_system_def)
  then show ?case by simp
next
  case (Cons j js)
  show ?case
  proof (cases "j < length (sv_tasks (sy_server sy)) \<and> task_step rd (sv_tasks (sy_server sy) ! j) (sv_redis (sy_server sy)) \<noteq> None")
    case True
    then obtain t gs r where t: "task_step rd (sv_tasks (sy_server sy) ! j) (sv_redis (sy_server sy)) = Some (t, gs, r)" by auto
    let ?sy = "sy\<lparr>sy_server := after_task j t gs r (sy_server sy), sy_fins := sy_fins sy @ start_fins env gs\<rparr>"
    have "system_step env rd view faults sy ?sy" using s_serve [OF Cons.prems(1) _ t] True by blast
    moreover have "(system_step env rd view faults)\<^sup>*\<^sup>* ?sy (serve_system env rd js ?sy)"
      by (rule Cons.IH) (use Cons.prems in \<open>simp_all add: after_task_def start_fins_def\<close>)
    moreover have "serve_system env rd js ?sy = serve_system env rd (j # js) sy"
      using True t by (simp add: serve_system_def)
    ultimately show ?thesis by (metis converse_rtranclp_into_rtranclp)
  next
    case False
    then have "serve_all rd (j # js) (sy_server sy) = serve_all rd js (sy_server sy)" by (auto split: option.split)
    with Cons show ?thesis by (simp add: serve_system_def)
  qed
qed

lemma receive_system_run:
  "\<not> sy_down sy \<Longrightarrow> (system_step env rd view faults)\<^sup>*\<^sup>* sy (sy\<lparr>sy_server := fold receive_call rqs (sy_server sy)\<rparr>)"
proof (induction rqs arbitrary: sy)
  case (Cons rq rqs)
  from Cons.IH [of "sy\<lparr>sy_server := receive_call rq (sy_server sy)\<rparr>"] Cons.prems s_arrive [OF Cons.prems, of env rd view faults rq]
  show ?case by (simp add: converse_rtranclp_into_rtranclp)
qed simp

lemma one_fin_step:
  "fin_step rd view f r a f' r' \<Longrightarrow> \<not> sy_down sy \<Longrightarrow> sy_fins sy = [(k, f)] \<Longrightarrow> sv_redis (sy_server sy) = r \<Longrightarrow>
     system_step env rd view faults sy (after_fin 0 k a f' r' sy)"
  by (rule s_final) simp_all

definition stored_db :: redis_db where
  "stored_db = [(clientClient, ''o1:items'') \<mapsto> ''{figs:1,milk:2}'']"

definition reported_system :: "redis_db system" where
  "reported_system = serve_system demo_fin map_redis [0, 1, 2, 3, 4, 4, 4]
     ((system_start stored_db)\<lparr>sy_server := fold receive_call five_reports (server_start stored_db)\<rparr>)"

definition completed_system :: "redis_db system" where
  "completed_system =
     (let k = (''o1'', False); r = sv_redis (sy_server reported_system);
          post = APost ''/internal/order'' (Some \<lparr>wh_order_id = ''o1'', wh_status = ''COMPLETED'', wh_price_key = ''total_price'', wh_price = 7\<rparr>);
          delete = DeleteOrderData ''o1'' False (Return ());
          sy = after_fin 0 k (AGet clientClient ''o1:items'' (Inr ''{figs:1,milk:2}'')) (client_rest demo_fin ''o1'' demo_cart) r reported_system;
          sy = after_fin 0 k (ABill (sorted_entries demo_cart) (Inr 7)) (callWebhook demo_fin ''o1'' 7 ''/internal/order'' ''total_price'' (RedisDo delete Done)) r sy;
          sy = after_fin 0 k post (RedisDo delete Done) r sy
      in after_fin 0 k (ARedis delete) Done (delete_order map_redis k r) sy)"

lemma reported_run: "(system_step demo_fin map_redis (\<lambda>db. db) False)\<^sup>*\<^sup>* (system_start stored_db) reported_system"
proof -
  let ?sy = "(system_start stored_db)\<lparr>sy_server := fold receive_call five_reports (server_start stored_db)\<rparr>"
  have "sv_finals (fold receive_call rqs sv) = sv_finals sv" for rqs and sv :: "redis_db server"
    by (induction rqs arbitrary: sv) (simp_all add: receive_call_def)
  then have "(system_step demo_fin map_redis (\<lambda>db. db) False)\<^sup>*\<^sup>* ?sy reported_system"
    unfolding reported_system_def
    by (intro serve_system_run) (simp_all add: system_start_def server_start_def start_fins_def)
  moreover have "(system_step demo_fin map_redis (\<lambda>db. db) False)\<^sup>*\<^sup>* (system_start stored_db) ?sy"
    using receive_system_run [of "system_start stored_db"] by (simp add: system_start_def)
  ultimately show ?thesis by (rule rtranclp_trans [rotated])
qed

lemma reported_state:
  "sy_fins reported_system = [((''o1'', False), finalizeOrder demo_fin (''o1'', False))]" "sy_log reported_system = []"
  "\<not> sy_down reported_system" "sv_redis (sy_server reported_system) (clientClient, ''o1:items'') = Some ''{figs:1,milk:2}''"
  "count_list (map req_key (sv_calls (sy_server reported_system))) (''o1'', False) = 5"
  "list_all (\<lambda>t. case t of Return x \<Rightarrow> True | _ \<Rightarrow> False) (sv_tasks (sy_server reported_system))"
proof -
  let ?sv = "serve_all map_redis [0, 1, 2, 3, 4, 4, 4] (fold receive_call five_reports (server_start stored_db))"
  have "sy_server reported_system = ?sv" "sy_fins reported_system = start_fins demo_fin (sv_finals ?sv)"
    by (simp_all add: reported_system_def serve_system_def)
  moreover have "sv_finals ?sv = [(''o1'', False)]" by code_simp
  moreover have "sv_redis ?sv (clientClient, ''o1:items'') = Some ''{figs:1,milk:2}''" by code_simp
  moreover have "count_list (map req_key (sv_calls ?sv)) (''o1'', False) = 5" by code_simp
  moreover have "list_all (\<lambda>t. case t of Return x \<Rightarrow> True | _ \<Rightarrow> False) (sv_tasks ?sv)" by code_simp
  ultimately show "sy_fins reported_system = [((''o1'', False), finalizeOrder demo_fin (''o1'', False))]"
    "sv_redis (sy_server reported_system) (clientClient, ''o1:items'') = Some ''{figs:1,milk:2}''"
    "count_list (map req_key (sv_calls (sy_server reported_system))) (''o1'', False) = 5"
    "list_all (\<lambda>t. case t of Return x \<Rightarrow> True | _ \<Rightarrow> False) (sv_tasks (sy_server reported_system))"
    by (simp_all add: start_fins_def)
  show "sy_log reported_system = []" "\<not> sy_down reported_system"
    by (simp_all add: reported_system_def serve_system_def system_start_def)
qed


lemma completed_run: "(system_step demo_fin map_redis (\<lambda>db. db) False)\<^sup>*\<^sup>* (system_start stored_db) completed_system"
proof -
  let ?k = "(''o1'', False)" and ?r = "sv_redis (sy_server reported_system)" and ?step = "system_step demo_fin map_redis (\<lambda>db. db) False"
  let ?post = "APost ''/internal/order'' (Some \<lparr>wh_order_id = ''o1'', wh_status = ''COMPLETED'', wh_price_key = ''total_price'', wh_price = 7\<rparr>)"
  let ?delete = "DeleteOrderData ''o1'' False (Return ())"
  let ?hook = "callWebhook demo_fin ''o1'' 7 ''/internal/order'' ''total_price'' (RedisDo ?delete Done)"
  let ?s1 = "after_fin 0 ?k (AGet clientClient ''o1:items'' (Inr ''{figs:1,milk:2}'')) (client_rest demo_fin ''o1'' demo_cart) ?r reported_system"
  let ?s2 = "after_fin 0 ?k (ABill (sorted_entries demo_cart) (Inr 7)) ?hook ?r ?s1"
  let ?s3 = "after_fin 0 ?k ?post (RedisDo ?delete Done) ?r ?s2"
  note rs = reported_state
  have "fin_step map_redis (\<lambda>db. db) (finalizeOrder demo_fin ?k) ?r (AGet clientClient ''o1:items'' (Inr ''{figs:1,milk:2}''))
      (client_rest demo_fin ''o1'' demo_cart) ?r"
    unfolding finalizeOrder_client by (simp add: rs(4))
  from one_fin_step [OF this] rs(1,3) have 1: "?step reported_system ?s1" by blast
  have np: "client_rest demo_fin ''o1'' demo_cart \<noteq> Panic" "?hook \<noteq> Panic"
    by (simp_all add: client_rest_def callWebhook_def)
  have "fin_step map_redis (\<lambda>db. db) (client_rest demo_fin ''o1'' demo_cart) ?r (ABill (sorted_entries demo_cart) (Inr 7)) ?hook ?r"
    by (simp add: client_rest_def)
  then have 2: "?step ?s1 ?s2" by (rule one_fin_step) (simp_all add: after_fin_def rs(1) np)
  have "fin_step map_redis (\<lambda>db. db) ?hook ?r ?post (RedisDo ?delete Done) ?r"
    by (simp add: callWebhook_def finite_double_def)
  then have 3: "?step ?s2 ?s3" by (rule one_fin_step) (simp_all add: after_fin_def rs(1) np)
  have "fin_step map_redis (\<lambda>db. db) (RedisDo ?delete Done) ?r (ARedis ?delete) Done (delete_order map_redis ?k ?r)"
    by (simp add: delete_step)
  then have "?step ?s3 completed_system"
    unfolding completed_system_def Let_def by (rule one_fin_step) (simp_all add: after_fin_def rs(1))
  with reported_run 1 2 3 show ?thesis by (meson rtranclp.rtrancl_into_rtrancl)
qed

lemma completed_state:
  "sy_fins completed_system = [((''o1'', False), Done)]" "\<not> sy_down completed_system"
  "sy_log completed_system = [((''o1'', False), AGet clientClient ''o1:items'' (Inr ''{figs:1,milk:2}'')),
     ((''o1'', False), ABill (sorted_entries demo_cart) (Inr 7)),
     ((''o1'', False), APost ''/internal/order'' (Some \<lparr>wh_order_id = ''o1'', wh_status = ''COMPLETED'',
        wh_price_key = ''total_price'', wh_price = 7\<rparr>)),
     ((''o1'', False), delete_act (''o1'', False))]"
  "sv_tasks (sy_server completed_system) = sv_tasks (sy_server reported_system)"
  "sv_calls (sy_server completed_system) = sv_calls (sy_server reported_system)"
  using reported_state(1-3)
  by (simp_all add: completed_system_def Let_def after_fin_def delete_act_def start_update_def)

lemma stored_db_keys: "stored_db (count_key k) = None \<and> stored_db (mark_key k) = None"
  using items_key(3,4) [of k clientClient "''o1''"] by (simp add: stored_db_def)

lemma completed_unspoiled: "unspoiled demo_fin completed_system"
  by (simp add: unspoiled_def completed_state unread_def delete_act_def)

theorem system_refines_service_witness:
  "(service_step map_redis (\<lambda>db. db) False)\<^sup>*\<^sup>* (server_start stored_db) (sy_server completed_system)
   \<and> length (sy_log completed_system) = 4"
  using system_refines_service [OF completed_run, of False] completed_unspoiled by (simp add: completed_state)

theorem completed_once_witness:
  "posted (''o1'', False) completed_system \<le> 1
   \<and> (\<exists>w. wh_price w = 7 \<and> post_ok demo_fin (''o1'', False) ''/internal/order'' (Some w)
      \<and> ((''o1'', False), APost ''/internal/order'' (Some w)) \<in> set (sy_log completed_system))"
proof -
  let ?w = "\<lparr>wh_order_id = ''o1'', wh_status = ''COMPLETED'', wh_price_key = ''total_price'', wh_price = 7\<rparr>"
  have serviced: "(service_step map_redis (\<lambda>db. db) False)\<^sup>*\<^sup>* (server_start stored_db) (sy_server completed_system)"
    using system_runs [OF completed_run, of False] completed_unspoiled by simp
  have "stored_db (count_key k) = None" for k using stored_db_keys by blast
  moreover have "tally (''o1'', False) (sy_server completed_system) \<le> 5"
    by (simp add: tally_def service_run_again [OF serviced] completed_state reported_state del: map_map)
  ultimately have "posted (''o1'', False) completed_system \<le> 1 \<and> (\<forall>url w. ((''o1'', False), APost url w) \<in> set (sy_log completed_system) \<longrightarrow>
      post_ok demo_fin (''o1'', False) url w \<and> tally (''o1'', False) (sy_server completed_system) = 5)"
    by (rule completed_once [OF map_redis_ok _ completed_run])
  moreover have "((''o1'', False), APost ''/internal/order'' (Some ?w)) \<in> set (sy_log completed_system)"
    by (simp add: completed_state)
  ultimately show ?thesis by (intro conjI exI [of _ ?w]) simp_all
qed

theorem completed_in_the_end_witness:
  "posted (''o1'', False) completed_system = 1
   \<and> sv_redis (sy_server completed_system) (count_key (''o1'', False)) = None"
proof -
  have "t \<notin> {start_task k, mark_task k, final_task k}" if "t \<in> set (sv_tasks (sy_server completed_system))" for t k
    using that reported_state(6) by (auto simp: completed_state list_all_iff task_defs)
  then have "posted (''o1'', False) completed_system = 1
      \<and> sv_redis (sy_server completed_system) (count_key (''o1'', False)) = None
      \<and> sv_redis (sy_server completed_system) (mark_key (''o1'', False)) = None"
    by (intro completed_in_the_end [OF map_redis_ok map_redis_up stored_db_keys completed_run completed_unspoiled] ballI)
      (simp_all add: completed_state reported_state del: map_map)
  then show ?thesis by blast
qed

end
