(* ===== verification/Stock.thy ===== *)
theory Stock
  imports Finalization
begin

text \<open>
  The stock of the inventory service: the handlers \<open>CheckAvailability\<close>, \<open>ReserveItems\<close> and \<open>ReleaseItems\<close>
  (\<open>inventory/internal/handler/grpc.go\<close>) and the SQL statements behind them and behind the finalization of a
  restock order (\<open>inventory/internal/store/stock.go\<close>, on the table of \<open>inventory/db/migrations\<close>). A handler is a
  goroutine as in theory \<open>Inventory\<close>, whose operations are statements; the database that executes them is a
  parameter. Log lines are left out.
\<close>

section \<open>The table and its statements\<close>

text \<open>The key \<open>sku\<close> is unique; the row's number and the time of its last update are left out; cost in cents.\<close>

record stock_line =
  sl_name :: string
  sl_aisle_type :: string
  sl_quantity :: int
  sl_unit_cost :: int
  sl_mfd_date :: timestamp
  sl_expiry_date :: timestamp

type_synonym stock_table = "string \<rightharpoonup> stock_line"

text \<open>The range of the SQL type INT.\<close>

definition int4 :: "int \<Rightarrow> bool" where
  "int4 i \<longleftrightarrow> - (2 ^ 31) \<le> i \<and> i < 2 ^ 31"

text \<open>
  The statements of \<open>ReserveStock\<close> and \<open>ReleaseStock\<close>, on arrays without a repeated sku: the rows returned and
  the table, or \<open>None\<close> for a quantity out of range, which fails the statement as a whole.
\<close>

fun sql_reserve :: "(string \<times> 32 word) list \<Rightarrow> stock_table \<Rightarrow> ((string \<times> 32 word) list \<times> stock_table) option" where
  "sql_reserve [] tab = Some ([], tab)"
| "sql_reserve ((sku, count) # batch) tab = (case tab sku of
     None \<Rightarrow> sql_reserve batch tab
   | Some s \<Rightarrow>
       if sl_quantity s > 0 then
         (let actual_taken = min (sl_quantity s) (sint count);
              quantity = sl_quantity s - actual_taken
          in if int4 quantity then
               (case sql_reserve batch (tab(sku \<mapsto> s\<lparr>sl_quantity := quantity\<rparr>)) of
                  None \<Rightarrow> None
                | Some (rows, tab) \<Rightarrow> Some ((sku, of_int actual_taken) # rows, tab))
             else None)
       else sql_reserve batch tab)"

fun sql_release :: "(string \<times> 32 word) list \<Rightarrow> stock_table \<Rightarrow> stock_table option" where
  "sql_release [] tab = Some tab"
| "sql_release ((sku, count) # batch) tab = (case tab sku of
     None \<Rightarrow> sql_release batch tab
   | Some s \<Rightarrow>
       (let quantity = sl_quantity s + sint count in
        if int4 quantity then sql_release batch (tab(sku \<mapsto> s\<lparr>sl_quantity := quantity\<rparr>)) else None))"

text \<open>The statement of \<open>UpsertStock\<close>; \<open>numeric\<close> converts a double to NUMERIC(10, 2).\<close>

definition sql_upsert :: "(64 word \<Rightarrow> int option) \<Rightarrow> stock_item \<Rightarrow> stock_table \<Rightarrow> stock_table option" where
  "sql_upsert numeric item tab = (case numeric (si_unit_cost item) of
     None \<Rightarrow> None
   | Some unit_cost \<Rightarrow>
       if int4 (sint (si_quantity item)) then
         (case tab (si_sku item) of
            None \<Rightarrow> Some (tab(si_sku item \<mapsto> \<lparr>sl_name = si_name item, sl_aisle_type = si_aisle_type item,
              sl_quantity = sint (si_quantity item), sl_unit_cost = unit_cost,
              sl_mfd_date = si_mfd_date item, sl_expiry_date = si_expiry_date item\<rparr>))
          | Some s \<Rightarrow>
              (let quantity = sl_quantity s + sint (si_quantity item) in
               if int4 quantity then
                 Some (tab(si_sku item \<mapsto> s\<lparr>sl_quantity := quantity, sl_unit_cost := unit_cost, sl_name := si_name item\<rparr>))
               else None))
       else None)"

section \<open>The handlers\<close>

datatype 'a stock_task =
    SReturn 'a
  | SReserve "(string \<times> 32 word) list" "string + (string + string \<times> 32 word) list \<Rightarrow> 'a stock_task"
  | SRelease "(string \<times> 32 word) list" "string option \<Rightarrow> 'a stock_task"

text \<open>
  \<open>rng\<close> is the order in which \<open>range\<close> visits the entries of a map. The loop over the rows ends at the first
  one that cannot be read; a row may also fail to scan.
\<close>

type_synonym go_range = "(string \<rightharpoonup> 32 word) \<Rightarrow> (string \<times> 32 word) list"

fun scan_taken :: "(string + string \<times> 32 word) list \<Rightarrow> (string \<rightharpoonup> 32 word) \<Rightarrow> string + (string \<rightharpoonup> 32 word)" where
  "scan_taken [] results = Inr results"
| "scan_taken (Inl err # rows) results = Inl err"
| "scan_taken (Inr (sku, taken) # rows) results = scan_taken rows (results(sku \<mapsto> taken))"

definition ReserveStock ::
  "go_range \<Rightarrow> (string \<rightharpoonup> 32 word) \<Rightarrow> (string + (string \<rightharpoonup> 32 word) \<Rightarrow> 'a stock_task) \<Rightarrow> 'a stock_task" where
  "ReserveStock rng requests k = SReserve (rng requests) (\<lambda>r. case r of
     Inl err \<Rightarrow> k (Inl (''failed to reserve stock: '' @ err))
   | Inr rows \<Rightarrow> k (scan_taken rows Map.empty))"

definition ReleaseStock ::
  "go_range \<Rightarrow> (string \<rightharpoonup> 32 word) \<Rightarrow> (string option \<Rightarrow> 'a stock_task) \<Rightarrow> 'a stock_task" where
  "ReleaseStock rng returns k = SRelease (rng returns) (\<lambda>r. case r of
     Some err \<Rightarrow> k (Some (''failed to release stock: '' @ err))
   | None \<Rightarrow> k None)"

record reserve_response =
  rp_order_id :: string
  rp_success :: bool
  rp_error_message :: string

definition ReserveItems ::
  "go_range \<Rightarrow> string \<Rightarrow> (string \<rightharpoonup> 32 word) \<Rightarrow> (string + reserve_response) stock_task" where
  "ReserveItems rng orderId items =
     (if orderId = '''' then
        SReturn (Inr \<lparr>rp_order_id = '''', rp_success = False, rp_error_message = ''missing order_id''\<rparr>)
      else if rng items = [] then
        SReturn (Inr \<lparr>rp_order_id = orderId, rp_success = False, rp_error_message = ''no items to reserve''\<rparr>)
      else ReserveStock rng items (\<lambda>r. case r of
        Inl err \<Rightarrow> SReturn (Inl err)
      | Inr reserved \<Rightarrow>
          (let allReserved = list_all (\<lambda>(sku, wanted).
                 \<not> sint (case reserved sku of Some n \<Rightarrow> n | None \<Rightarrow> 0) < sint wanted) (rng items);
               rejected = SReturn (Inr \<lparr>rp_order_id = orderId, rp_success = False, rp_error_message = ''insufficient stock''\<rparr>)
           in if \<not> allReserved then
                if rng reserved \<noteq> [] then ReleaseStock rng reserved (\<lambda>_. rejected) else rejected
              else SReturn (Inr \<lparr>rp_order_id = orderId, rp_success = True, rp_error_message = ''''\<rparr>))))"

definition ReleaseItems :: "go_range \<Rightarrow> (string \<rightharpoonup> 32 word) \<Rightarrow> (string + bool) stock_task" where
  "ReleaseItems rng items =
     (if rng items = [] then SReturn (Inr True)
      else ReleaseStock rng items (\<lambda>r. case r of Some err \<Rightarrow> SReturn (Inl err) | None \<Rightarrow> SReturn (Inr True)))"

text \<open>The answer to a look-up of the stock; it is the one of theory \<open>Dispatch\<close> to the dispatcher.\<close>

record stock_level =
  lv_sku :: string
  lv_name :: string
  lv_aisle_type :: string
  lv_quantity_available :: "32 word"

definition CheckAvailability ::
  "('g, 'w) dispatch_env \<Rightarrow> string list \<Rightarrow> 'w \<Rightarrow> (string + (string \<rightharpoonup> stock_level)) \<times> 'w" where
  "CheckAvailability env skus w =
     (if skus = [] then (Inr Map.empty, w)
      else case GetBatchItems env skus w of
        (Inl err, w) \<Rightarrow> (Inl err, w)
      | (Inr dbItems, w) \<Rightarrow>
          (Inr (fold (\<lambda>sku respItems. case dbItems sku of
             Some item \<Rightarrow> respItems(sku \<mapsto> \<lparr>lv_sku = sr_sku item, lv_name = sr_name item,
               lv_aisle_type = sr_aisle_type item, lv_quantity_available = ucast (sr_quantity item)\<rparr>)
           | None \<Rightarrow> respItems) skus Map.empty), w))"

definition level_of :: "stock_row \<Rightarrow> stock_level" where
  "level_of item = \<lparr>lv_sku = sr_sku item, lv_name = sr_name item, lv_aisle_type = sr_aisle_type item,
     lv_quantity_available = ucast (sr_quantity item)\<rparr>"

lemma CheckAvailability_found:
  assumes "skus \<noteq> []" "GetBatchItems env skus w = (Inr db, w')"
  shows "CheckAvailability env skus w = (Inr (\<lambda>sku. if sku \<in> set skus then map_option level_of (db sku) else None), w')"
proof -
  have "fold (\<lambda>sku m. case db sku of Some item \<Rightarrow> m(sku \<mapsto> level_of item) | None \<Rightarrow> m) skus m =
      (\<lambda>sku. if sku \<in> set skus \<and> db sku \<noteq> None then map_option level_of (db sku) else m sku)" for skus m
    by (induction skus arbitrary: m) (auto simp: fun_eq_iff split: option.split)
  from this [of skus Map.empty] assms show ?thesis unfolding CheckAvailability_def level_of_def [symmetric] by (auto simp: fun_eq_iff)
qed

section \<open>The database\<close>

record 'd stock_api =
  db_reserve :: "(string \<times> 32 word) list \<Rightarrow> 'd \<Rightarrow> (string + (string + string \<times> 32 word) list) \<times> 'd"
  db_release :: "(string \<times> 32 word) list \<Rightarrow> 'd \<Rightarrow> string option \<times> 'd"

text \<open>
  What PostgreSQL and its driver document, over the table that \<open>view\<close> shows: a statement is atomic; one that
  ends in an error has been executed or not; rows come in any order, and reading them may break off.
\<close>

definition rows_read :: "(string + string \<times> 32 word) list \<Rightarrow> (string \<times> 32 word) list \<Rightarrow> bool" where
  "rows_read rows rs \<longleftrightarrow> (\<exists>rs' n tail. set rs' = set rs \<and> length rs' = length rs \<and> rows = map Inr (take n rs') @ tail
     \<and> (tail = [] \<or> (\<exists>err. tail = [Inl err])))"

definition stock_ok :: "'d stock_api \<Rightarrow> ('d \<Rightarrow> stock_table) \<Rightarrow> bool" where
  "stock_ok api view \<longleftrightarrow>
     (\<forall>args d r d'. db_reserve api args d = (r, d') \<longrightarrow> (case r of
        Inr rows \<Rightarrow> \<exists>rs. sql_reserve args (view d) = Some (rs, view d') \<and> rows_read rows rs
      | Inl err \<Rightarrow> view d' = view d \<or> (\<exists>rs. sql_reserve args (view d) = Some (rs, view d'))))
   \<and> (\<forall>args d r d'. db_release api args d = (r, d') \<longrightarrow> (case r of
        None \<Rightarrow> sql_release args (view d) = Some (view d')
      | Some err \<Rightarrow> view d' = view d \<or> sql_release args (view d) = Some (view d')))"

text \<open>A database that executes every statement whose quantities are in range, and whose rows are all read.\<close>

definition stock_up :: "'d stock_api \<Rightarrow> ('d \<Rightarrow> stock_table) \<Rightarrow> bool" where
  "stock_up api view \<longleftrightarrow>
     (\<forall>args d rs tab. sql_reserve args (view d) = Some (rs, tab) \<longrightarrow>
        (\<exists>rs'. set rs' = set rs \<and> length rs' = length rs \<and> fst (db_reserve api args d) = Inr (map Inr rs')))
   \<and> (\<forall>args d tab. sql_release args (view d) = Some tab \<longrightarrow> fst (db_release api args d) = None)"

text \<open>One statement of a goroutine, and all of them with nothing in between.\<close>

fun stock_step :: "'d stock_api \<Rightarrow> 'a stock_task \<Rightarrow> 'd \<Rightarrow> ('a stock_task \<times> 'd) option" where
  "stock_step api (SReturn x) d = None"
| "stock_step api (SReserve args k) d = (case db_reserve api args d of (r, d') \<Rightarrow> Some (k r, d'))"
| "stock_step api (SRelease args k) d = (case db_release api args d of (r, d') \<Rightarrow> Some (k r, d'))"

primrec stock_exec :: "'d stock_api \<Rightarrow> 'a stock_task \<Rightarrow> 'd \<Rightarrow> 'a \<times> 'd" where
  "stock_exec api (SReturn x) d = (x, d)"
| "stock_exec api (SReserve args k) d = stock_exec api (k (fst (db_reserve api args d))) (snd (db_reserve api args d))"
| "stock_exec api (SRelease args k) d = stock_exec api (k (fst (db_release api args d))) (snd (db_release api args d))"

section \<open>What the statements do\<close>

definition qty :: "stock_table \<Rightarrow> string \<Rightarrow> int" where
  "qty tab sku = (case tab sku of None \<Rightarrow> 0 | Some s \<Rightarrow> sl_quantity s)"

definition amount :: "(string \<rightharpoonup> 32 word) \<Rightarrow> string \<Rightarrow> int" where
  "amount m sku = (case m sku of None \<Rightarrow> 0 | Some n \<Rightarrow> sint n)"

definition amounts_ok :: "(string \<rightharpoonup> 32 word) \<Rightarrow> bool" where
  "amounts_ok m \<longleftrightarrow> finite (dom m) \<and> (\<forall>sku. 0 \<le> amount m sku)"

definition table_ok :: "stock_table \<Rightarrow> bool" where
  "table_ok tab \<longleftrightarrow> (\<forall>sku. 0 \<le> qty tab sku \<and> int4 (qty tab sku))"

lemma amount_empty [simp]: "amount Map.empty sku = 0"
  by (simp add: amount_def)

lemma amount_update [simp]: "amount (m(k \<mapsto> n)) sku = (if sku = k then sint n else amount m sku)"
  "amount (\<lambda>a. if a = k then Some n else m a) sku = (if sku = k then sint n else amount m sku)"
  by (simp_all add: amount_def)

lemma qty_update [simp]: "qty (tab(k \<mapsto> s)) sku = (if sku = k then sl_quantity s else qty tab sku)"
  "qty (\<lambda>a. if a = k then Some s else tab a) sku = (if sku = k then sl_quantity s else qty tab sku)"
  by (simp_all add: qty_def)

lemma sint_small: "0 \<le> k \<Longrightarrow> k < 2 ^ 31 \<Longrightarrow> sint (of_int k :: 32 word) = k"
  by (simp add: signed_of_int signed_take_bit_int_eq_self)

lemma map_of_none: "k \<notin> fst ` set xs \<Longrightarrow> amount (map_of xs) k = 0"
  by (simp add: amount_def map_of_eq_None_iff [THEN iffD2])

text \<open>The reservation takes what there is, up to what is wanted, and returns what it has taken.\<close>

lemma sql_reserve_ok:
  assumes "sql_reserve args tab = Some (rs, tab')" "distinct (map fst args)" "\<forall>sku. 0 \<le> amount (map_of args) sku" "table_ok tab"
  shows "distinct (map fst rs) \<and> fst ` set rs \<subseteq> fst ` set args
    \<and> (\<forall>sku. amount (map_of rs) sku = min (qty tab sku) (amount (map_of args) sku)
        \<and> tab' sku = map_option (\<lambda>s. s\<lparr>sl_quantity := sl_quantity s - amount (map_of rs) sku\<rparr>) (tab sku))"
  using assms
proof (induction args arbitrary: tab rs tab')
  case Nil
  then show ?case by (auto simp: table_ok_def option.map_ident_strong min_absorb2)
next
  case (Cons a args)
  obtain sku n where a: "a = (sku, n)" by (cases a)
  have nn: "0 \<le> sint n" using Cons.prems(3) by (auto simp: a dest: spec [of _ sku])
  have args: "distinct (map fst args)" "sku \<notin> fst ` set args" using Cons.prems(2) by (simp_all add: a)
  have args0: "\<forall>k. 0 \<le> amount (map_of args) k"
  proof
    fix k
    show "0 \<le> amount (map_of args) k"
      using Cons.prems(3) map_of_none [OF args(2)] by (cases "k = sku") (auto simp: a dest: spec [of _ k])
  qed
  show ?case
  proof (cases "0 < qty tab sku")
    case False
    have "qty tab sku = 0" using Cons.prems(4) False by (simp add: table_ok_def order_antisym)
    moreover have run: "sql_reserve args tab = Some (rs, tab')"
      using Cons.prems(1) False by (auto simp: a qty_def split: option.splits if_splits)
    ultimately show ?thesis
      using Cons.IH [OF run args(1) args0 Cons.prems(4)] nn map_of_none [OF args(2)]
      by (auto simp: a)
  next
    case True
    then obtain s where s: "tab sku = Some s" "0 < sl_quantity s" by (auto simp: qty_def split: option.splits)
    define k where "k = min (sl_quantity s) (sint n)"
    let ?tab = "tab(sku \<mapsto> s\<lparr>sl_quantity := sl_quantity s - k\<rparr>)"
    from Cons.prems(1) obtain rs1 where run: "sql_reserve args ?tab = Some (rs1, tab')" "rs = (sku, of_int k) # rs1"
      by (auto simp: a s k_def Let_def split: option.splits if_splits)
    have k: "0 \<le> k" "k \<le> sl_quantity s" "sl_quantity s < 2 ^ 31"
      using nn s Cons.prems(4) by (auto simp: k_def table_ok_def int4_def qty_def dest: spec [of _ sku])
    then have sk: "sint (of_int k :: 32 word) = k" by (intro sint_small) simp_all
    have "table_ok ?tab" using Cons.prems(4) k by (auto simp: table_ok_def int4_def)
    note IH = Cons.IH [OF run(1) args(1) args0 this]
    from IH args(2) have new: "sku \<notin> fst ` set rs1" by blast
    have "tab' k' = map_option (\<lambda>s. s\<lparr>sl_quantity := sl_quantity s - amount (map_of rs) k'\<rparr>) (tab k')" for k'
      using IH [THEN conjunct2, THEN conjunct2, THEN spec, of k'] map_of_none [OF new] s sk by (auto simp: run(2))
    moreover have "amount (map_of rs) k' = min (qty tab k') (amount (map_of (a # args)) k')" for k'
      using IH [THEN conjunct2, THEN conjunct2, THEN spec, of k'] s sk by (auto simp: run(2) a k_def qty_def)
    ultimately show ?thesis using IH new by (auto simp: run(2) a)
  qed
qed

lemma sql_release_ok:
  assumes "sql_release args tab = Some tab'" "distinct (map fst args)"
  shows "tab' sku = map_option (\<lambda>s. s\<lparr>sl_quantity := sl_quantity s + amount (map_of args) sku\<rparr>) (tab sku)"
  using assms
proof (induction args arbitrary: tab)
  case Nil
  then show ?case by (auto simp: option.map_ident_strong)
next
  case (Cons a args)
  obtain k n where a: "a = (k, n)" by (cases a)
  from Cons.prems have k: "k \<notin> fst ` set args" "distinct (map fst args)" by (simp_all add: a)
  show ?case
  proof (cases "tab k")
    case None
    with Cons k map_of_none [OF k(1)] show ?thesis by (cases "sku = k") (auto simp: a)
  next
    case (Some s)
    with Cons.prems(1) have "sql_release args (tab(k \<mapsto> s\<lparr>sl_quantity := sl_quantity s + sint n\<rparr>)) = Some tab'"
      by (auto simp: a Let_def split: if_splits)
    from Cons.IH [OF this k(2)] Some map_of_none [OF k(1)] show ?thesis by (auto simp: a)
  qed
qed

text \<open>When every quantity stays in range, they succeed.\<close>

lemma sql_reserve_some:
  "distinct (map fst args) \<Longrightarrow> \<forall>sku. 0 \<le> amount (map_of args) sku \<Longrightarrow> table_ok tab \<Longrightarrow> \<exists>rs tab'. sql_reserve args tab = Some (rs, tab')"
proof (induction args arbitrary: tab)
  case (Cons a args)
  obtain sku n where a: "a = (sku, n)" by (cases a)
  have nn: "0 \<le> sint n" using Cons.prems(2) by (auto simp: a dest: spec [of _ sku])
  have new: "sku \<notin> fst ` set args" using Cons.prems(1) by (simp add: a)
  have args0: "0 \<le> amount (map_of args) k" for k
    using Cons.prems(2) map_of_none [OF new] by (cases "k = sku") (auto simp: a dest: spec [of _ k])
  show ?case
  proof (cases "tab sku")
    case None
    with Cons args0 show ?thesis by (simp add: a)
  next
    case (Some s)
    let ?q = "sl_quantity s - min (sl_quantity s) (sint n)"
    have q: "0 \<le> sl_quantity s" "int4 (sl_quantity s)"
      using Cons.prems(3) Some by (auto simp: table_ok_def qty_def dest: spec [of _ sku])
    with nn have q': "0 \<le> ?q" "int4 ?q" by (auto simp: int4_def)
    with Cons.prems(3) have "table_ok (tab(sku \<mapsto> s\<lparr>sl_quantity := ?q\<rparr>))" by (auto simp: table_ok_def)
    moreover have p: "distinct (map fst args)" "\<forall>k. 0 \<le> amount (map_of args) k" using Cons.prems(1) args0 by (simp_all add: a)
    ultimately obtain rs tab' where
      "sql_reserve args (tab(sku \<mapsto> s\<lparr>sl_quantity := ?q\<rparr>)) = Some (rs, tab')" using Cons.IH by blast
    moreover obtain rs1 tab1 where "sql_reserve args tab = Some (rs1, tab1)" using Cons.IH [OF p Cons.prems(3)] by blast
    ultimately show ?thesis using Some q'(2) by (simp add: a Let_def)
  qed
qed simp

lemma sql_release_some:
  "distinct (map fst args) \<Longrightarrow> \<forall>sku. int4 (qty tab sku + amount (map_of args) sku) \<Longrightarrow> \<exists>tab'. sql_release args tab = Some tab'"
proof (induction args arbitrary: tab)
  case (Cons a args)
  obtain k n where a: "a = (k, n)" by (cases a)
  have new: "k \<notin> fst ` set args" "distinct (map fst args)" using Cons.prems(1) by (simp_all add: a)
  have i: "int4 (qty tab sku + (if sku = k then sint n else amount (map_of args) sku))" for sku
    using Cons.prems(2) [rule_format, of sku] by (auto simp: a)
  show ?case
  proof (cases "tab k")
    case None
    have "int4 (qty tab sku + amount (map_of args) sku)" if "sku \<noteq> k" for sku using i [of sku] that by simp
    moreover have "int4 (qty tab k + amount (map_of args) k)"
      using map_of_none [OF new(1)] None by (simp add: qty_def int4_def)
    ultimately have "\<forall>sku. int4 (qty tab sku + amount (map_of args) sku)" by metis
    with Cons.IH new(2) None show ?thesis by (simp add: a)
  next
    case (Some s)
    have q: "int4 (sl_quantity s + sint n)" using i [of k] Some by (simp add: qty_def)
    have "int4 (qty (tab(k \<mapsto> s\<lparr>sl_quantity := sl_quantity s + sint n\<rparr>)) sku + amount (map_of args) sku)" for sku
      using i [of sku] map_of_none [OF new(1)] q by (cases "sku = k") auto
    with Cons.IH new(2) Some q show ?thesis by (simp add: a Let_def)
  qed
qed simp

section \<open>A reservation\<close>

definition go_range_ok :: "go_range \<Rightarrow> bool" where
  "go_range_ok rng \<longleftrightarrow> (\<forall>m. finite (dom m) \<longrightarrow> distinct (map fst (rng m)) \<and> map_of (rng m) = m)"

lemma go_rangeD:
  assumes "go_range_ok rng" "finite (dom m)"
  shows "distinct (map fst (rng m))" "map_of (rng m) = m" "rng m = [] \<longleftrightarrow> m = Map.empty"
    and "list_all (\<lambda>(sku, n). P sku n) (rng m) \<longleftrightarrow> (\<forall>sku n. m sku = Some n \<longrightarrow> P sku n)"
proof -
  show r: "distinct (map fst (rng m))" "map_of (rng m) = m" using assms unfolding go_range_ok_def by blast+
  show "rng m = [] \<longleftrightarrow> m = Map.empty"
  proof
    assume "rng m = []"
    then show "m = Map.empty" using r(2) by (metis map_of.simps(1))
  next
    assume "m = Map.empty"
    then show "rng m = []" using r(2) by (metis map_of_eq_empty_iff)
  qed
  show "list_all (\<lambda>(sku, n). P sku n) (rng m) \<longleftrightarrow> (\<forall>sku n. m sku = Some n \<longrightarrow> P sku n)"
    using map_of_eq_Some_iff [OF r(1)] unfolding r(2) by (auto simp: list_all_iff)
qed

lemma scan_taken_map: "scan_taken (map Inr rs @ tail) m = scan_taken tail (m ++ map_of (rev rs))"
  by (induction rs arbitrary: m) auto

lemma map_of_same:
  assumes "distinct (map fst xs)" "distinct (map fst ys)" "set xs = set ys"
  shows "map_of xs = map_of ys"
  using map_of_inject_set [OF assms(1,2)] assms(3) by blast

lemma map_of_rev_distinct: "distinct (map fst xs) \<Longrightarrow> map_of (rev xs) = map_of xs"
  by (rule map_of_same) (simp_all add: rev_map [symmetric])

lemma same_rows:
  assumes "set rs' = set rs" "length rs' = length rs" "distinct (map fst rs)"
  shows "distinct (map fst rs')"
proof -
  have "card (set rs') = length rs'" using assms by (simp add: distinct_map distinct_card)
  then have "distinct rs'" by (rule card_distinct)
  then show ?thesis using assms(1,3) by (simp add: distinct_map)
qed

text \<open>What is read of the rows is among them; all of it, if all are read.\<close>

lemma rows_read_le:
  assumes "rows_read rows rs" "distinct (map fst rs)" "scan_taken rows Map.empty = Inr m"
  shows "finite (dom m)" "m \<subseteq>\<^sub>m map_of rs"
proof -
  from assms(1) obtain rs' n tail where r: "length rs' = length rs" "set rs' = set rs" "rows = map Inr (take n rs') @ tail"
    "tail = [] \<or> (\<exists>err. tail = [Inl err])" unfolding rows_read_def by blast
  have "distinct (map fst rs')" by (rule same_rows [OF r(2,1) assms(2)])
  then have d: "distinct (map fst (take n rs'))" by (simp add: take_map [symmetric] distinct_take)
  have m: "m = map_of (take n rs')"
    using assms(3) r(3,4) map_of_rev_distinct [OF d] by (auto simp: scan_taken_map)
  then show "finite (dom m)" by (simp add: finite_dom_map_of)
  have "map_of rs sku = Some x" if "m sku = Some x" for sku x
  proof -
    have "(sku, x) \<in> set (take n rs')" using that map_of_SomeD by (simp add: m)
    then have "(sku, x) \<in> set rs" using set_take_subset r(2) by fastforce
    then show ?thesis using assms(2) by simp
  qed
  then show "m \<subseteq>\<^sub>m map_of rs" by (auto simp: map_le_def)
qed

lemma rows_all_read:
  assumes "set rs' = set rs" "length rs' = length rs" "distinct (map fst rs)"
  shows "scan_taken (map Inr rs') Map.empty = Inr (map_of rs)"
proof -
  note d = same_rows [OF assms]
  have "scan_taken (map Inr rs') Map.empty = Inr (map_of rs')"
    using scan_taken_map [of rs' "[]" Map.empty] map_of_rev_distinct [OF d] by simp
  with map_of_same [OF d assms(3,1)] show ?thesis by simp
qed

lemma amount_le: "m \<subseteq>\<^sub>m m' \<Longrightarrow> 0 \<le> amount m' sku \<Longrightarrow> 0 \<le> amount m sku \<and> amount m sku \<le> amount m' sku"
  by (auto simp: amount_def map_le_def dom_def split: option.splits)

text \<open>How \<open>ReserveItems\<close> goes on with what was taken.\<close>

definition reserved_next ::
  "go_range \<Rightarrow> string \<Rightarrow> (string \<rightharpoonup> 32 word) \<Rightarrow> string + (string \<rightharpoonup> 32 word) \<Rightarrow> (string + reserve_response) stock_task" where
  "reserved_next rng orderId items r = (case r of
     Inl err \<Rightarrow> SReturn (Inl err)
   | Inr reserved \<Rightarrow>
       (let rejected = SReturn (Inr \<lparr>rp_order_id = orderId, rp_success = False, rp_error_message = ''insufficient stock''\<rparr>)
        in if \<not> list_all (\<lambda>(sku, wanted). sint wanted \<le> amount reserved sku) (rng items) then
             if rng reserved \<noteq> [] then SRelease (rng reserved) (\<lambda>_. rejected) else rejected
           else SReturn (Inr \<lparr>rp_order_id = orderId, rp_success = True, rp_error_message = ''''\<rparr>)))"

lemma ReserveItems_unfold:
  assumes "orderId \<noteq> ''''" "rng items \<noteq> []"
  shows "ReserveItems rng orderId items = SReserve (rng items) (\<lambda>r. reserved_next rng orderId items (case r of
    Inl err \<Rightarrow> Inl (''failed to reserve stock: '' @ err) | Inr rows \<Rightarrow> scan_taken rows Map.empty))"
proof -
  have "sint (case m sku of Some n \<Rightarrow> n | None \<Rightarrow> 0) = amount m sku" for m sku
    by (simp add: amount_def split: option.split)
  then show ?thesis using assms
    by (simp add: ReserveItems_def ReserveStock_def ReleaseStock_def reserved_next_def Let_def not_less fun_eq_iff
        split: sum.split option.split)
qed

lemma stock_okD:
  assumes "stock_ok api view"
  shows "db_reserve api args d = (Inr rows, d') \<Longrightarrow> \<exists>rs. sql_reserve args (view d) = Some (rs, view d') \<and> rows_read rows rs"
    and "db_reserve api args d = (Inl err, d') \<Longrightarrow> view d' = view d \<or> (\<exists>rs. sql_reserve args (view d) = Some (rs, view d'))"
    and "db_release api args d = (None, d') \<Longrightarrow> sql_release args (view d) = Some (view d')"
    and "db_release api args d = (Some err, d') \<Longrightarrow> view d' = view d \<or> sql_release args (view d) = Some (view d')"
proof -
  have r: "db_reserve api args d = (r, d') \<Longrightarrow> (case r of
      Inr rows \<Rightarrow> \<exists>rs. sql_reserve args (view d) = Some (rs, view d') \<and> rows_read rows rs
    | Inl err \<Rightarrow> view d' = view d \<or> (\<exists>rs. sql_reserve args (view d) = Some (rs, view d')))"
    and l: "db_release api args d = (r', d') \<Longrightarrow> (case r' of
      None \<Rightarrow> sql_release args (view d) = Some (view d')
    | Some err \<Rightarrow> view d' = view d \<or> sql_release args (view d) = Some (view d'))" for r r'
    using assms unfolding stock_ok_def by blast+
  show "db_reserve api args d = (Inr rows, d') \<Longrightarrow> \<exists>rs. sql_reserve args (view d) = Some (rs, view d') \<and> rows_read rows rs"
    "db_reserve api args d = (Inl err, d') \<Longrightarrow> view d' = view d \<or> (\<exists>rs. sql_reserve args (view d) = Some (rs, view d'))"
    using r [of "Inr rows"] r [of "Inl err"] by simp_all
  show "db_release api args d = (None, d') \<Longrightarrow> sql_release args (view d) = Some (view d')"
    "db_release api args d = (Some err, d') \<Longrightarrow> view d' = view d \<or> sql_release args (view d) = Some (view d')"
    using l [of None] l [of "Some err"] by simp_all
qed

lemma amounts_okD: "amounts_ok m \<Longrightarrow> finite (dom m)" "amounts_ok m \<Longrightarrow> 0 \<le> amount m sku"
  by (simp_all add: amounts_ok_def)

lemma amount_all:
  "(\<And>sku. 0 \<le> f sku) \<Longrightarrow> (\<forall>sku n. m sku = Some n \<longrightarrow> sint n \<le> f sku) \<longleftrightarrow> (\<forall>sku. amount m sku \<le> f sku)"
  by (auto simp: amount_def split: option.split)

lemma qty_map: "tab' sku = map_option (\<lambda>s. s\<lparr>sl_quantity := sl_quantity s + k\<rparr>) (tab sku) \<Longrightarrow>
    qty tab' sku = (if tab sku = None then 0 else qty tab sku + k)"
  "tab' sku = map_option (\<lambda>s. s\<lparr>sl_quantity := sl_quantity s - k\<rparr>) (tab sku) \<Longrightarrow>
    qty tab' sku = (if tab sku = None then 0 else qty tab sku - k)"
  by (simp_all add: qty_def split: option.split)

lemma map_option_quantity [simp]:
  "map_option (\<lambda>s. s\<lparr>sl_quantity := sl_quantity s\<rparr>) x = x"
  "map_option (\<lambda>s. s\<lparr>sl_quantity := sl_quantity s - 0\<rparr>) x = x"
  "map_option (\<lambda>s. s\<lparr>sl_quantity := sl_quantity s + k\<rparr>) (map_option (\<lambda>s. s\<lparr>sl_quantity := sl_quantity s - k\<rparr>) x) = x"
  by (cases x; simp)+

text \<open>
  C10. A reservation is all or nothing. If nothing comes in between and the database executes its statements,
  \<open>ReserveItems\<close> grants an order exactly when every sku is in stock in the quantity wanted, and then takes
  exactly these quantities; otherwise it says so, and the table is what it was, although the statement
  had taken what there was of each sku.
\<close>

theorem reserve_all_or_nothing:
  assumes "stock_ok api view" "stock_up api view" "go_range_ok rng" "table_ok (view d)"
    and "orderId \<noteq> ''''" "items \<noteq> Map.empty" "amounts_ok items"
  shows "case stock_exec api (ReserveItems rng orderId items) d of (r, d') \<Rightarrow>
    if \<forall>sku. amount items sku \<le> qty (view d) sku
    then r = Inr \<lparr>rp_order_id = orderId, rp_success = True, rp_error_message = ''''\<rparr>
      \<and> (\<forall>sku. view d' sku = map_option (\<lambda>s. s\<lparr>sl_quantity := sl_quantity s - amount items sku\<rparr>) (view d sku))
    else r = Inr \<lparr>rp_order_id = orderId, rp_success = False, rp_error_message = ''insufficient stock''\<rparr> \<and> view d' = view d"
proof -
  note fin = amounts_okD(1) [OF assms(7)] and nn = amounts_okD(2) [OF assms(7)]
  note rng = go_rangeD [OF assms(3) fin]
  obtain rs tab where sql: "sql_reserve (rng items) (view d) = Some (rs, tab)"
    using sql_reserve_some [OF rng(1) _ assms(4)] nn rng(2) by auto
  from sql_reserve_ok [OF sql rng(1) _ assms(4)] nn rng(2) have rs: "distinct (map fst rs)"
    "\<And>sku. amount (map_of rs) sku = min (qty (view d) sku) (amount items sku)"
    "\<And>sku. tab sku = map_option (\<lambda>s. s\<lparr>sl_quantity := sl_quantity s - amount (map_of rs) sku\<rparr>) (view d sku)" by auto
  obtain rs' where rs': "set rs' = set rs" "length rs' = length rs" "fst (db_reserve api (rng items) d) = Inr (map Inr rs')"
    using assms(2) sql unfolding stock_up_def by blast
  obtain d1 where d1: "db_reserve api (rng items) d = (Inr (map Inr rs'), d1)" using rs'(3) by (metis surjective_pairing)
  with stock_okD(1) [OF assms(1) d1] sql have view: "view d1 = tab" by auto
  have "rng items \<noteq> []" using rng(3) assms(6) by simp
  then have exec: "stock_exec api (ReserveItems rng orderId items) d = stock_exec api (reserved_next rng orderId items (Inr (map_of rs))) d1"
    using ReserveItems_unfold [OF assms(5)] rows_all_read [OF rs'(1,2) rs(1)] by (simp add: d1)
  have "list_all (\<lambda>(sku, wanted). sint wanted \<le> amount (map_of rs) sku) (rng items) \<longleftrightarrow>
      (\<forall>sku n. items sku = Some n \<longrightarrow> sint n \<le> amount (map_of rs) sku)" by (rule rng(4))
  also have "\<dots> \<longleftrightarrow> (\<forall>sku. amount items sku \<le> amount (map_of rs) sku)"
    using nn assms(4) by (intro amount_all) (simp add: rs(2) table_ok_def)
  also have "\<dots> \<longleftrightarrow> (\<forall>sku. amount items sku \<le> qty (view d) sku)" by (simp add: rs(2))
  finally have all: "list_all (\<lambda>(sku, wanted). sint wanted \<le> amount (map_of rs) sku) (rng items) \<longleftrightarrow>
    (\<forall>sku. amount items sku \<le> qty (view d) sku)" .
  show ?thesis
  proof (cases "\<forall>sku. amount items sku \<le> qty (view d) sku")
    case True
    then have "amount (map_of rs) sku = amount items sku" for sku by (simp add: rs(2) min_absorb2)
    with True all rs(3) show ?thesis by (simp add: exec reserved_next_def view)
  next
    case False
    let ?rejected = "\<lparr>rp_order_id = orderId, rp_success = False, rp_error_message = ''insufficient stock''\<rparr>"
    have fin': "finite (dom (map_of rs))" by (simp add: finite_dom_map_of)
    note rng' = go_rangeD [OF assms(3) fin']
    show ?thesis
    proof (cases "map_of rs = Map.empty")
      case empty: True
      then have "rng (map_of rs) = []" using rng'(3) by blast
      moreover have "view d1 = view d"
        by (rule ext) (use rs(3) in \<open>simp add: view empty option.map_ident\<close>)
      ultimately show ?thesis using False all by (simp add: exec reserved_next_def Let_def)
    next
      case nonempty: False
      have "int4 (qty tab sku + amount (map_of (rng (map_of rs))) sku)" for sku
      proof (cases "view d sku")
        case None
        then have "amount (map_of rs) sku = 0" using nn [of sku] by (simp add: rs(2) qty_def min_absorb1)
        with None rs(3) [of sku] show ?thesis by (simp add: rng'(2) qty_def int4_def)
      next
        case (Some s)
        with qty_map(2) [where tab' = tab and tab = "view d" and sku = sku, OF rs(3) [of sku]] assms(4) show ?thesis by (simp add: rng'(2) table_ok_def)
      qed
      then obtain tab' where rel: "sql_release (rng (map_of rs)) tab = Some tab'" using sql_release_some [OF rng'(1)] by blast
      have restored: "tab' sku = view d sku" for sku
        using sql_release_ok [OF rel rng'(1), of sku] by (simp add: rng'(2) rs(3))
      from assms(2) rel view have "fst (db_release api (rng (map_of rs)) d1) = None" unfolding stock_up_def by metis
      then obtain d2 where d2: "db_release api (rng (map_of rs)) d1 = (None, d2)" by (metis surjective_pairing)
      with stock_okD(3) [OF assms(1) d2] rel view have "view d2 = view d" by (simp add: restored fun_eq_iff)
      with False all nonempty rng'(3) show ?thesis by (simp add: exec reserved_next_def d2)
    qed
  qed
qed

section \<open>Calls at the same time\<close>

text \<open>
  The calls that have arrived, with what was asked for and how far they are, and the quantities that the
  finalizations have put into the stock. Statements of different calls interleave.
\<close>

datatype stock_call =
    ReserveCall string "string \<rightharpoonup> 32 word" "(string + reserve_response) stock_task"
  | ReleaseCall "string \<rightharpoonup> 32 word" "(string + bool) stock_task"

record 'd shop =
  sh_db :: 'd
  sh_calls :: "stock_call list"
  sh_supplied :: "(string \<times> int) list"

definition shop_start :: "'d \<Rightarrow> 'd shop" where
  "shop_start d = \<lparr>sh_db = d, sh_calls = [], sh_supplied = []\<rparr>"

fun call_step :: "'d stock_api \<Rightarrow> stock_call \<Rightarrow> 'd \<Rightarrow> (stock_call \<times> 'd) option" where
  "call_step api (ReserveCall orderId items t) d = map_option (\<lambda>(t, d). (ReserveCall orderId items t, d)) (stock_step api t d)"
| "call_step api (ReleaseCall items t) d = map_option (\<lambda>(t, d). (ReleaseCall items t, d)) (stock_step api t d)"

inductive shop_step ::
  "'d stock_api \<Rightarrow> ('d \<Rightarrow> stock_table) \<Rightarrow> go_range \<Rightarrow> (64 word \<Rightarrow> int option) \<Rightarrow> 'd shop \<Rightarrow> 'd shop \<Rightarrow> bool"
  for api view rng numeric where
  sh_reserve: "shop_step api view rng numeric s
    (s\<lparr>sh_calls := sh_calls s @ [ReserveCall orderId items (ReserveItems rng orderId items)]\<rparr>)"
| sh_release: "shop_step api view rng numeric s
    (s\<lparr>sh_calls := sh_calls s @ [ReleaseCall items (ReleaseItems rng items)]\<rparr>)"
| sh_serve: "i < length (sh_calls s) \<Longrightarrow> call_step api (sh_calls s ! i) (sh_db s) = Some (c, d) \<Longrightarrow>
    shop_step api view rng numeric s (s\<lparr>sh_db := d, sh_calls := (sh_calls s)[i := c]\<rparr>)"
| sh_supply: "sql_upsert numeric item (view (sh_db s)) = Some (view d) \<Longrightarrow>
    shop_step api view rng numeric s (s\<lparr>sh_db := d, sh_supplied := sh_supplied s @ [(si_sku item, sint (si_quantity item))]\<rparr>)"

text \<open>What a call has been granted, what it holds on top of that until it gives it back, and what it returns.\<close>

fun call_items :: "stock_call \<Rightarrow> string \<rightharpoonup> 32 word" where
  "call_items (ReserveCall orderId items t) = items"
| "call_items (ReleaseCall items t) = items"

fun granted :: "string \<Rightarrow> stock_call \<Rightarrow> int" where
  "granted sku (ReserveCall orderId items (SReturn (Inr resp))) = (if rp_success resp then amount items sku else 0)"
| "granted sku c = 0"

fun pending :: "string \<Rightarrow> stock_call \<Rightarrow> int" where
  "pending sku (ReserveCall orderId items (SRelease args k)) = amount (map_of args) sku"
| "pending sku (ReleaseCall items (SRelease args k)) = amount (map_of args) sku"
| "pending sku c = 0"

fun returned :: "string \<Rightarrow> stock_call \<Rightarrow> int" where
  "returned sku (ReserveCall orderId items t) = 0"
| "returned sku (ReleaseCall items t) = amount items sku"

definition supplied :: "string \<Rightarrow> string \<times> int \<Rightarrow> int" where
  "supplied sku = (\<lambda>(sku', n). if sku' = sku then n else 0)"

text \<open>The forms of a call.\<close>

definition rejects :: "(string + reserve_response) stock_task \<Rightarrow> bool" where
  "rejects t \<longleftrightarrow> (\<exists>resp. t = SReturn (Inr resp) \<and> \<not> rp_success resp)"

fun call_ok :: "go_range \<Rightarrow> stock_call \<Rightarrow> bool" where
  "call_ok rng (ReserveCall orderId items t) \<longleftrightarrow> t = ReserveItems rng orderId items \<or> (\<exists>r. t = SReturn r)
     \<or> (\<exists>args k. t = SRelease args k \<and> distinct (map fst args) \<and> (\<forall>sku. 0 \<le> amount (map_of args) sku) \<and> (\<forall>r. rejects (k r)))"
| "call_ok rng (ReleaseCall items t) \<longleftrightarrow> t = ReleaseItems rng items \<or> (\<exists>r. t = SReturn r)"

definition counted :: "('d \<Rightarrow> stock_table) \<Rightarrow> string \<Rightarrow> 'd \<Rightarrow> stock_call \<Rightarrow> int" where
  "counted view sku d c = qty (view d) sku + granted sku c + pending sku c"

lemma table_ok_release:
  assumes "sql_release args tab = Some tab'" "distinct (map fst args)" "\<forall>sku. 0 \<le> amount (map_of args) sku" "table_ok tab"
  shows "table_ok tab' \<and> qty tab' sku \<le> qty tab sku + amount (map_of args) sku"
  using assms
proof (induction args arbitrary: tab)
  case (Cons a args)
  obtain k n where a: "a = (k, n)" by (cases a)
  have nn: "0 \<le> sint n" using Cons.prems(3) [rule_format, of k] by (simp add: a)
  have new: "k \<notin> fst ` set args" "distinct (map fst args)" using Cons.prems(2) by (simp_all add: a)
  have args0: "\<forall>j. 0 \<le> amount (map_of args) j"
  proof
    fix j
    show "0 \<le> amount (map_of args) j"
      using Cons.prems(3) [rule_format, of j] map_of_none [OF new(1)] by (cases "j = k") (simp_all add: a)
  qed
  show ?case
  proof (cases "tab k")
    case None
    then have "sql_release args tab = Some tab'" using Cons.prems(1) by (simp add: a)
    from Cons.IH [OF this new(2) args0 Cons.prems(4)] nn map_of_none [OF new(1)] show ?thesis
      by (cases "sku = k") (simp_all add: a)
  next
    case (Some s)
    let ?tab = "tab(k \<mapsto> s\<lparr>sl_quantity := sl_quantity s + sint n\<rparr>)"
    from Cons.prems(1) Some have run: "sql_release args ?tab = Some tab'" and i: "int4 (sl_quantity s + sint n)"
      by (simp_all add: a Let_def split: if_splits)
    have "qty tab k = sl_quantity s" using Some by (simp add: qty_def)
    moreover from this have t: "table_ok ?tab" using Cons.prems(4) [unfolded table_ok_def, rule_format] i nn
      by (simp add: table_ok_def) (metis add_nonneg_nonneg)
    ultimately show ?thesis
      using Cons.IH [OF run new(2) args0 t] map_of_none [OF new(1)] by (cases "sku = k") (simp_all add: a)
  qed
qed simp

lemma table_ok_reserve:
  assumes "sql_reserve args tab = Some (rs, tab')" "distinct (map fst args)" "\<forall>sku. 0 \<le> amount (map_of args) sku" "table_ok tab"
  shows "table_ok tab'" "qty tab' sku + amount (map_of rs) sku = qty tab sku" "0 \<le> amount (map_of rs) sku"
    "amount (map_of rs) sku \<le> amount (map_of args) sku"
proof -
  note ok = sql_reserve_ok [OF assms, THEN conjunct2, THEN conjunct2, rule_format]
  have t: "0 \<le> qty tab k" "int4 (qty tab k)" for k using assms(4) by (simp_all add: table_ok_def)
  have a: "amount (map_of rs) k = min (qty tab k) (amount (map_of args) k)" for k using ok [of k] by blast
  with t assms(3) have nn: "0 \<le> amount (map_of rs) k" "amount (map_of rs) k \<le> qty tab k" for k by simp_all
  have q: "qty tab' k + amount (map_of rs) k = qty tab k" for k
    using qty_map(2) [where tab' = tab' and tab = tab and sku = k, OF ok [of k, THEN conjunct2]] nn [of k] t [of k] by (cases "tab k") (simp_all add: qty_def)
  then have "qty tab' k = qty tab k - amount (map_of rs) k" for k by (metis add_diff_cancel_right')
  then have "0 \<le> qty tab' k \<and> int4 (qty tab' k)" for k using nn [of k] t [of k] by (simp add: int4_def)
  then show "table_ok tab'" by (simp add: table_ok_def)
  show "qty tab' sku + amount (map_of rs) sku = qty tab sku" by (rule q)
  show "0 \<le> amount (map_of rs) sku" "amount (map_of rs) sku \<le> amount (map_of args) sku" using nn a by simp_all
qed

text \<open>A step of a call keeps what the table, the grants and what is held add up to, or loses something.\<close>

lemma reserved_next_ok:
  assumes "go_range_ok rng" "finite (dom items)" "finite (dom m)" "\<forall>sku. 0 \<le> amount m sku"
  shows "call_ok rng (ReserveCall orderId items (reserved_next rng orderId items (Inr m)))"
    and "granted sku (ReserveCall orderId items (reserved_next rng orderId items (Inr m)))
      + pending sku (ReserveCall orderId items (reserved_next rng orderId items (Inr m))) \<le> amount m sku"
proof -
  note rng = go_rangeD [OF assms(1,3)]
  have all: "list_all (\<lambda>(sku, wanted). sint wanted \<le> amount m sku) (rng items) \<longleftrightarrow> (\<forall>sku. amount items sku \<le> amount m sku)"
    unfolding go_rangeD(4) [OF assms(1,2)] using assms(4) by (intro amount_all) simp
  have args: "distinct (map fst (rng m))" "amount (map_of (rng m)) k = amount m k" for k using rng(1,2) by simp_all
  show "call_ok rng (ReserveCall orderId items (reserved_next rng orderId items (Inr m)))"
    unfolding reserved_next_def Let_def sum.case using args assms(4) by (simp add: rejects_def)
  show "granted sku (ReserveCall orderId items (reserved_next rng orderId items (Inr m)))
      + pending sku (ReserveCall orderId items (reserved_next rng orderId items (Inr m))) \<le> amount m sku"
    unfolding reserved_next_def Let_def sum.case all using args(2) assms(4) by simp
qed

definition call_kept :: "('d \<Rightarrow> stock_table) \<Rightarrow> go_range \<Rightarrow> 'd \<Rightarrow> stock_call \<Rightarrow> 'd \<Rightarrow> stock_call \<Rightarrow> bool" where
  "call_kept view rng d c d' c' \<longleftrightarrow> table_ok (view d') \<and> call_ok rng c' \<and> call_items c' = call_items c
     \<and> (\<forall>sku. returned sku c' = returned sku c \<and> counted view sku d' c' \<le> counted view sku d c)"

lemma rejects_simps [simp]: "rejects t \<Longrightarrow> granted sku (ReserveCall orderId items t) = 0"
  "rejects t \<Longrightarrow> pending sku (ReserveCall orderId items t) = 0" "rejects t \<Longrightarrow> call_ok rng (ReserveCall orderId items t)"
  by (auto simp: rejects_def)

lemma release_kept:
  assumes "stock_ok api view" "db_release api args d = (r, d')" "distinct (map fst args)"
    and "\<forall>sku. 0 \<le> amount (map_of args) sku" "table_ok (view d)"
  shows "table_ok (view d') \<and> qty (view d') sku \<le> qty (view d) sku + amount (map_of args) sku"
proof -
  have "view d' = view d \<or> sql_release args (view d) = Some (view d')"
    using stock_okD(3,4) [OF assms(1)] assms(2) by (cases r) blast+
  then show ?thesis using table_ok_release [OF _ assms(3-5)] assms(4,5) by auto
qed

lemma reserve_call_kept:
  assumes "stock_ok api view" "go_range_ok rng" "amounts_ok items" "table_ok (view d)"
    and "db_reserve api (rng items) d = (r, d')"
  shows "call_kept view rng d (ReserveCall orderId items (SReserve (rng items) k)) d'
    (ReserveCall orderId items (reserved_next rng orderId items (case r of
      Inl err \<Rightarrow> Inl (''failed to reserve stock: '' @ err) | Inr rows \<Rightarrow> scan_taken rows Map.empty)))"
proof -
  note fin = amounts_okD(1) [OF assms(3)]
  note rng = go_rangeD [OF assms(2) fin]
  have nn: "\<forall>sku. 0 \<le> amount (map_of (rng items)) sku" using amounts_okD(2) [OF assms(3)] by (simp add: rng(2))
  have tab: "table_ok (view d') \<and> qty (view d') sku \<le> qty (view d) sku" if "sql_reserve (rng items) (view d) = Some (rs, view d')" for rs sku
    using table_ok_reserve(1) [OF that rng(1) nn assms(4)] table_ok_reserve(2,3) [OF that rng(1) nn assms(4), of sku] by simp
  show ?thesis
  proof (cases r)
    case (Inl err)
    with stock_okD(2) [OF assms(1)] assms(5) tab assms(4) have "table_ok (view d') \<and> (\<forall>sku. qty (view d') sku \<le> qty (view d) sku)"
      by fastforce
    then show ?thesis by (simp add: call_kept_def counted_def Inl reserved_next_def)
  next
    case (Inr rows)
    with stock_okD(1) [OF assms(1)] assms(5) obtain rs where rs: "sql_reserve (rng items) (view d) = Some (rs, view d')"
      "rows_read rows rs" by blast
    note sql = table_ok_reserve [OF rs(1) rng(1) nn assms(4)]
    show ?thesis
    proof (cases "scan_taken rows Map.empty")
      case err: (Inl err)
      with tab [OF rs(1)] show ?thesis by (simp add: call_kept_def counted_def Inr reserved_next_def)
    next
      case m: (Inr m)
      have "distinct (map fst rs)" using sql_reserve_ok [OF rs(1) rng(1) nn assms(4)] by blast
      note rd = rows_read_le [OF rs(2) this m]
      have le: "0 \<le> amount m sku \<and> amount m sku \<le> amount (map_of rs) sku" for sku
        by (rule amount_le [OF rd(2) sql(3)])
      then have nn': "\<forall>sku. 0 \<le> amount m sku" by blast
      have ok: "call_ok rng (ReserveCall orderId items (reserved_next rng orderId items (Inr m)))"
        by (rule reserved_next_ok(1) [OF assms(2) fin rd(1) nn'])
      have "counted view sku d' (ReserveCall orderId items (reserved_next rng orderId items (Inr m))) \<le> qty (view d) sku" for sku
        using reserved_next_ok(2) [OF assms(2) fin rd(1) nn', of sku orderId] le [of sku] sql(2) [of sku]
        unfolding counted_def by linarith
      with ok sql(1) show ?thesis by (simp add: call_kept_def Inr m) (simp add: counted_def)
    qed
  qed
qed

lemma call_step_kept:
  assumes "stock_ok api view" "go_range_ok rng" "call_step api c d = Some (c', d')" "call_ok rng c"
    and "amounts_ok (call_items c)" "table_ok (view d)"
  shows "call_kept view rng d c d' c'"
proof (cases c)
  case (ReserveCall orderId items t)
  from assms(3) obtain t' where step: "stock_step api t d = Some (t', d')" "c' = ReserveCall orderId items t'"
    by (auto simp: ReserveCall)
  from assms(4) consider (start) "t = ReserveItems rng orderId items" | (release) args k where "t = SRelease args k"
    "distinct (map fst args)" "\<forall>sku. 0 \<le> amount (map_of args) sku" "\<forall>r. rejects (k r)"
    using step(1) by (auto simp: ReserveCall)
  then show ?thesis
  proof cases
    case start
    have n: "orderId \<noteq> ''''" "rng items \<noteq> []"
      using step(1) unfolding start ReserveItems_def by (auto split: if_splits)
    note t = ReserveItems_unfold [where rng = rng and items = items, OF n]
    obtain r where r: "db_reserve api (rng items) d = (r, d')" "t' = reserved_next rng orderId items (case r of
        Inl err \<Rightarrow> Inl (''failed to reserve stock: '' @ err) | Inr rows \<Rightarrow> scan_taken rows Map.empty)"
      using step(1) unfolding start t by (auto split: prod.splits)
    have "amounts_ok items" using assms(5) by (simp add: ReserveCall)
    then show ?thesis unfolding ReserveCall step(2) start t r(2) by (rule reserve_call_kept [OF assms(1,2) _ assms(6) r(1)])
  next
    case release
    obtain r where r: "db_release api args d = (r, d')" "t' = k r"
      using step(1) unfolding release(1) by (auto split: prod.splits)
    from release_kept [OF assms(1) r(1) release(2,3) assms(6)] release(4) show ?thesis
      unfolding ReserveCall step(2) release(1) r(2) by (simp add: call_kept_def counted_def del: call_ok.simps)
  qed
next
  case (ReleaseCall items t)
  note rng = go_rangeD [OF assms(2)]
  from assms(5) have ok: "amounts_ok items" by (simp add: ReleaseCall)
  from assms(3) obtain t' where step: "stock_step api t d = Some (t', d')" "c' = ReleaseCall items t'"
    by (auto simp: ReleaseCall)
  from assms(4) have t: "t = ReleaseItems rng items" using step(1) by (auto simp: ReleaseCall)
  obtain r k where r: "t = SRelease (rng items) k" "db_release api (rng items) d = (r, d')" "t' = k r" "\<exists>x. k r = SReturn x"
    using step(1) unfolding t ReleaseItems_def ReleaseStock_def
    by (auto split: prod.splits if_splits option.splits)
  have a: "distinct (map fst (rng items))" "map_of (rng items) = items" using rng amounts_okD(1) [OF ok] by simp_all
  have "\<forall>sku. 0 \<le> amount (map_of (rng items)) sku" using amounts_okD(2) [OF ok] by (simp add: a(2))
  from release_kept [OF assms(1) r(2) a(1) this assms(6)] r(4) show ?thesis
    unfolding ReleaseCall step(2) r(1,3) by (auto simp: call_kept_def counted_def)
qed

definition summed :: "(stock_call \<Rightarrow> int) \<Rightarrow> 'd shop \<Rightarrow> int" where
  "summed f s = sum_list (map f (sh_calls s))"

text \<open>Nobody asks for, returns or delivers a negative quantity.\<close>

definition sane :: "'d shop \<Rightarrow> bool" where
  "sane s \<longleftrightarrow> (\<forall>c\<in>set (sh_calls s). amounts_ok (call_items c)) \<and> (\<forall>(sku, n)\<in>set (sh_supplied s). 0 \<le> n)"

definition shop_inv :: "('d \<Rightarrow> stock_table) \<Rightarrow> go_range \<Rightarrow> stock_table \<Rightarrow> 'd shop \<Rightarrow> bool" where
  "shop_inv view rng tab s \<longleftrightarrow> table_ok (view (sh_db s)) \<and> list_all (call_ok rng) (sh_calls s)
     \<and> (\<forall>sku. qty (view (sh_db s)) sku + summed (granted sku) s + summed (pending sku) s
          \<le> qty tab sku + sum_list (map (supplied sku) (sh_supplied s)) + summed (returned sku) s)"

lemma sum_list_int_update:
  fixes g :: "'a \<Rightarrow> int"
  assumes "i < length xs"
  shows "sum_list (map g (xs[i := y])) = sum_list (map g xs) - g (xs ! i) + g y"
  using assms
proof (induction xs arbitrary: i)
  case (Cons x xs)
  then show ?case by (cases i) (auto simp: algebra_simps)
qed simp

lemma call_step_items: "call_step api c d = Some (c', d') \<Longrightarrow> call_items c' = call_items c"
  by (cases c) auto

lemma sane_mono:
  assumes "shop_step api view rng numeric s s'" "sane s'"
  shows "sane s"
  using assms(1)
proof cases
  case (sh_serve i c d)
  have "amounts_ok (call_items x)" if x: "x \<in> set (sh_calls s)" for x
  proof -
    obtain j where j: "j < length (sh_calls s)" "x = sh_calls s ! j" using x by (auto simp: in_set_conv_nth)
    have "(sh_calls s)[i := c] ! j \<in> set (sh_calls s')" using j(1) sh_serve(1) nth_mem [of j "(sh_calls s)[i := c]"] by simp
    moreover have "call_items ((sh_calls s)[i := c] ! j) = call_items x"
      using call_step_items [OF sh_serve(3)] j sh_serve(2) by (cases "i = j") simp_all
    ultimately show ?thesis using assms(2) unfolding sane_def by metis
  qed
  then show ?thesis using assms(2) sh_serve(1) by (simp add: sane_def)
qed (use assms(2) in \<open>auto simp: sane_def\<close>)

lemma upsert_ok:
  assumes "sql_upsert numeric item tab = Some tab'" "0 \<le> sint (si_quantity item)" "table_ok tab"
  shows "table_ok tab'" "qty tab' sku = qty tab sku + supplied sku (si_sku item, sint (si_quantity item))"
proof -
  have i: "int4 (qty tab (si_sku item) + sint (si_quantity item))"
    and q: "qty tab' k = qty tab k + (if si_sku item = k then sint (si_quantity item) else 0)" for k
    using assms(1) by (auto simp: sql_upsert_def Let_def qty_def split: option.splits if_splits)
  show "table_ok tab'" using i q assms(2,3) by (simp add: table_ok_def)
  show "qty tab' sku = qty tab sku + supplied sku (si_sku item, sint (si_quantity item))" by (simp add: q supplied_def)
qed

lemma shop_inv_step:
  assumes "stock_ok api view" "go_range_ok rng" "shop_step api view rng numeric s s'" "shop_inv view rng tab s" "sane s'"
  shows "shop_inv view rng tab s'"
  using assms(3)
proof cases
  case (sh_reserve orderId items)
  have "granted k (ReserveCall orderId items (ReserveItems rng orderId items)) = 0"
    "pending k (ReserveCall orderId items (ReserveItems rng orderId items)) = 0" for k
    by (simp_all add: ReserveItems_def ReserveStock_def)
  with assms(4) show ?thesis by (simp add: shop_inv_def summed_def sh_reserve)
next
  case (sh_release items)
  have ok: "amounts_ok items" using assms(5) by (simp add: sane_def sh_release)
  from go_rangeD(2) [OF assms(2) amounts_okD(1) [OF ok]] amounts_okD(2) [OF ok]
  have "pending k (ReleaseCall items (ReleaseItems rng items)) \<le> amount items k" for k
    by (simp add: ReleaseItems_def ReleaseStock_def)
  then have "qty (view (sh_db s)) k + summed (granted k) s + (summed (pending k) s + pending k (ReleaseCall items (ReleaseItems rng items)))
      \<le> qty tab k + sum_list (map (supplied k) (sh_supplied s)) + (summed (returned k) s + amount items k)" for k
    using assms(4) unfolding shop_inv_def by (smt (verit))
  with assms(4) show ?thesis by (simp add: shop_inv_def summed_def sh_release)
next
  case (sh_serve i c d)
  let ?c = "sh_calls s ! i"
  have "?c \<in> set (sh_calls s)" using sh_serve(2) by simp
  then have c: "call_ok rng ?c" "amounts_ok (call_items ?c)"
    using assms(4) sane_mono [OF assms(3,5)] unfolding shop_inv_def sane_def list_all_iff by blast+
  have t: "table_ok (view (sh_db s))" using assms(4) unfolding shop_inv_def by blast
  from call_step_kept [OF assms(1,2) sh_serve(3) c t] have kept: "table_ok (view d)" "call_ok rng c"
    "returned k c = returned k ?c"
    "qty (view d) k + granted k c + pending k c \<le> qty (view (sh_db s)) k + granted k ?c + pending k ?c" for k
    unfolding call_kept_def counted_def by blast+
  have "summed (granted k) s' = summed (granted k) s - granted k ?c + granted k c"
    "summed (pending k) s' = summed (pending k) s - pending k ?c + pending k c"
    "summed (returned k) s' = summed (returned k) s" for k
    using kept(3) by (simp_all add: summed_def sh_serve(1) sum_list_int_update [OF sh_serve(2)])
  moreover have "qty (view (sh_db s)) k + summed (granted k) s + summed (pending k) s
      \<le> qty tab k + sum_list (map (supplied k) (sh_supplied s)) + summed (returned k) s" for k
    using assms(4) unfolding shop_inv_def by blast
  ultimately have "qty (view d) k + summed (granted k) s' + summed (pending k) s'
      \<le> qty tab k + sum_list (map (supplied k) (sh_supplied s)) + summed (returned k) s'" for k
    using kept(4) [of k] by (smt (verit))
  moreover have "list_all (call_ok rng) (sh_calls s')"
    using assms(4) kept(2) by (simp add: shop_inv_def sh_serve(1) list_all_update)
  ultimately show ?thesis using kept(1) by (simp add: shop_inv_def sh_serve(1))
next
  case (sh_supply item d)
  have "0 \<le> sint (si_quantity item)" using assms(5) by (simp add: sane_def sh_supply)
  from upsert_ok [OF sh_supply(2) this] assms(4) show ?thesis
    by (simp add: shop_inv_def summed_def sh_supply(1) add.assoc)
qed

lemma shop_inv_run:
  assumes "stock_ok api view" "go_range_ok rng" "table_ok (view d)"
    and "(shop_step api view rng numeric)\<^sup>*\<^sup>* (shop_start d) s" "sane s"
  shows "shop_inv view rng (view d) s"
  using assms(4,5)
proof (induction rule: rtranclp_induct)
  case base
  then show ?case using assms(3) by (simp add: shop_inv_def shop_start_def summed_def)
next
  case (step s1 s2)
  from shop_inv_step [OF assms(1,2) step.hyps(2) step.IH [OF sane_mono [OF step.hyps(2) step.prems]] step.prems]
  show ?case .
qed

lemma pending_nonneg:
  assumes "call_ok rng c" "go_range_ok rng" "amounts_ok (call_items c)"
  shows "0 \<le> pending sku c"
proof (cases c)
  case (ReserveCall orderId items t)
  have "pending sku (ReserveCall orderId items (ReserveItems rng orderId items)) = 0"
    by (simp add: ReserveItems_def ReserveStock_def)
  with assms(1) ReserveCall show ?thesis by auto
next
  case (ReleaseCall items t)
  with assms(3) have ok: "amounts_ok items" by simp
  from go_rangeD(2) [OF assms(2) amounts_okD(1) [OF ok]] amounts_okD(2) [OF ok]
  have "0 \<le> pending sku (ReleaseCall items (ReleaseItems rng items))" by (simp add: ReleaseItems_def ReleaseStock_def)
  with assms(1) ReleaseCall show ?thesis by auto
qed

text \<open>
  C9. Nothing is sold twice. With reservations, releases and deliveries interleaving statement by statement,
  with statements that fail (executed or not) and rows that are not read, as long as nobody asks for a negative
  quantity: no stock is ever negative or out of range, and of every sku, what all granted orders have got and
  what is left in the table never exceeds what was there at first, what was delivered and what was returned.
\<close>

theorem never_oversold:
  assumes "stock_ok api view" "go_range_ok rng" "table_ok (view d)"
    and "(shop_step api view rng numeric)\<^sup>*\<^sup>* (shop_start d) s" "sane s"
  shows "table_ok (view (sh_db s)) \<and> (\<forall>sku. summed (granted sku) s + qty (view (sh_db s)) sku
    \<le> qty (view d) sku + sum_list (map (supplied sku) (sh_supplied s)) + summed (returned sku) s)"
proof -
  have inv: "shop_inv view rng (view d) s" by (rule shop_inv_run [OF assms])
  have "0 \<le> summed (pending sku) s" for sku
    using inv assms(5) pending_nonneg [OF _ assms(2)] unfolding shop_inv_def summed_def sane_def list_all_iff
    by (auto intro!: sum_list_nonneg)
  then show ?thesis using inv unfolding shop_inv_def by (smt (verit))
qed

section \<open>An example\<close>

text \<open>A database whose state is the table; \<open>f\<close> says how many of the rows are read.\<close>

definition table_api :: "((string \<times> 32 word) list \<Rightarrow> nat) \<Rightarrow> stock_table stock_api" where
  "table_api f = \<lparr>db_reserve = (\<lambda>args tab. case sql_reserve args tab of
       None \<Rightarrow> (Inl ''integer out of range'', tab) | Some (rows, tab) \<Rightarrow> (Inr (map Inr (take (f rows) rows)), tab)),
     db_release = (\<lambda>args tab. case sql_release args tab of
       None \<Rightarrow> (Some ''integer out of range'', tab) | Some tab \<Rightarrow> (None, tab))\<rparr>"

lemma table_api_ok: "stock_ok (table_api f) (\<lambda>tab. tab)"
proof -
  have "rows_read (map Inr (take n rs)) rs" for n rs unfolding rows_read_def by (intro exI [of _ rs] exI [of _ n]) simp
  then show ?thesis by (auto simp: stock_ok_def table_api_def split: option.splits)
qed

lemma table_api_up: "stock_up (table_api length) (\<lambda>tab. tab)"
  by (auto simp: stock_up_def table_api_def)

definition dairy_line :: "int \<Rightarrow> stock_line" where
  "dairy_line n = \<lparr>sl_name = ''Milk'', sl_aisle_type = ''dairy'', sl_quantity = n, sl_unit_cost = 199,
     sl_mfd_date = (0, 0), sl_expiry_date = (9, 0)\<rparr>"

definition demo_table :: stock_table where
  "demo_table = [''milk'' \<mapsto> dairy_line 5, ''curd'' \<mapsto> dairy_line 3]"

lemma demo_table_ok: "table_ok demo_table"
  by (simp add: table_ok_def demo_table_def dairy_line_def qty_def int4_def)

lemma sorted_entries_range: "go_range_ok sorted_entries"
  by (simp add: go_range_ok_def sorted_entries_ok)

lemma sorted_entries_one: "sorted_entries [k \<mapsto> v] = [(k, v)]"
  by (simp add: sorted_entries_def)

theorem reserve_all_or_nothing_witness:
  "fst (stock_exec (table_api length) (ReserveItems sorted_entries ''o1'' [''milk'' \<mapsto> 2]) demo_table)
     = Inr \<lparr>rp_order_id = ''o1'', rp_success = True, rp_error_message = ''''\<rparr>
   \<and> stock_exec (table_api length) (ReserveItems sorted_entries ''o2'' [''milk'' \<mapsto> 2, ''curd'' \<mapsto> 4]) demo_table
     = (Inr \<lparr>rp_order_id = ''o2'', rp_success = False, rp_error_message = ''insufficient stock''\<rparr>, demo_table)"
proof
  note rule = reserve_all_or_nothing [where view = "\<lambda>tab. tab" and d = demo_table, OF table_api_ok table_api_up sorted_entries_range demo_table_ok]
  have "amounts_ok [''milk'' \<mapsto> 2]" "\<forall>sku. amount [''milk'' \<mapsto> 2] sku \<le> qty demo_table sku"
    using demo_table_ok by (auto simp: amounts_ok_def amount_def demo_table_def dairy_line_def qty_def)
  with rule [of "''o1''" "[''milk'' \<mapsto> 2]"] show "fst (stock_exec (table_api length) (ReserveItems sorted_entries ''o1'' [''milk'' \<mapsto> 2]) demo_table)
     = Inr \<lparr>rp_order_id = ''o1'', rp_success = True, rp_error_message = ''''\<rparr>"
    by (simp add: case_prod_unfold)
  let ?items = "[''milk'' \<mapsto> 2, ''curd'' \<mapsto> 4] :: string \<rightharpoonup> 32 word"
  have "amounts_ok ?items" by (simp add: amounts_ok_def amount_def)
  moreover have "\<not> amount ?items ''curd'' \<le> qty demo_table ''curd''"
    by (simp add: amount_def demo_table_def dairy_line_def qty_def)
  then have "\<not> (\<forall>sku. amount ?items sku \<le> qty demo_table sku)" by blast
  ultimately show "stock_exec (table_api length) (ReserveItems sorted_entries ''o2'' ?items) demo_table
     = (Inr \<lparr>rp_order_id = ''o2'', rp_success = False, rp_error_message = ''insufficient stock''\<rparr>, demo_table)"
    using rule [of "''o2''" ?items] by (simp add: case_prod_unfold prod_eq_iff)
qed

text \<open>Two orders at once for three units each, of five in stock.\<close>

definition serve_call :: "'d stock_api \<Rightarrow> nat \<Rightarrow> 'd shop \<Rightarrow> 'd shop" where
  "serve_call api i s = (case call_step api (sh_calls s ! i) (sh_db s) of
     None \<Rightarrow> s | Some (c, d) \<Rightarrow> s\<lparr>sh_db := d, sh_calls := (sh_calls s)[i := c]\<rparr>)"

definition milk_items :: "string \<rightharpoonup> 32 word" where
  "milk_items = [''milk'' \<mapsto> 3]"

definition busy_shop :: "stock_table shop" where
  "busy_shop =
     (let api = table_api length; rng = sorted_entries; items = milk_items in
      serve_call api 1 (serve_call api 1 (serve_call api 0 ((shop_start demo_table)\<lparr>sh_calls :=
        [ReserveCall ''o1'' items (ReserveItems rng ''o1'' items), ReserveCall ''o2'' items (ReserveItems rng ''o2'' items)]\<rparr>))))"

lemma serve_call_run: "i < length (sh_calls s) \<Longrightarrow> (shop_step api view rng numeric)\<^sup>*\<^sup>* s (serve_call api i s)"
  by (auto simp: serve_call_def split: option.split intro: sh_serve)

lemma serve_call_length [simp]: "length (sh_calls (serve_call api i s)) = length (sh_calls s)"
  by (auto simp: serve_call_def split: option.split)

lemma busy_shop_run: "(shop_step (table_api length) (\<lambda>tab. tab) sorted_entries numeric)\<^sup>*\<^sup>* (shop_start demo_table) busy_shop"
proof -
  let ?step = "shop_step (table_api length) (\<lambda>tab. tab) sorted_entries numeric"
  let ?items = milk_items and ?s = "shop_start demo_table"
  let ?c = "\<lambda>oid. ReserveCall oid ?items (ReserveItems sorted_entries oid ?items)"
  have "?step ?s (?s\<lparr>sh_calls := [?c ''o1'']\<rparr>)"
    using shop_step.sh_reserve [of "table_api length" "\<lambda>tab. tab" sorted_entries numeric ?s "''o1''" ?items] by (simp add: shop_start_def)
  moreover have "?step (?s\<lparr>sh_calls := [?c ''o1'']\<rparr>) (?s\<lparr>sh_calls := [?c ''o1'', ?c ''o2'']\<rparr>)"
    using shop_step.sh_reserve [of "table_api length" "\<lambda>tab. tab" sorted_entries numeric "?s\<lparr>sh_calls := [?c ''o1'']\<rparr>" "''o2''" ?items] by simp
  ultimately have "?step\<^sup>*\<^sup>* ?s (?s\<lparr>sh_calls := [?c ''o1'', ?c ''o2'']\<rparr>)" by (meson converse_rtranclp_into_rtranclp rtranclp.rtrancl_refl)
  moreover have "?step\<^sup>*\<^sup>* (?s\<lparr>sh_calls := [?c ''o1'', ?c ''o2'']\<rparr>) busy_shop"
  proof -
    let ?s0 = "?s\<lparr>sh_calls := [?c ''o1'', ?c ''o2'']\<rparr>"
    let ?s1 = "serve_call (table_api length) 0 ?s0"
    let ?s2 = "serve_call (table_api length) 1 ?s1"
    have "?step\<^sup>*\<^sup>* ?s0 ?s1" "?step\<^sup>*\<^sup>* ?s1 ?s2" "?step\<^sup>*\<^sup>* ?s2 (serve_call (table_api length) 1 ?s2)"
      by (rule serve_call_run, simp)+
    then show ?thesis unfolding busy_shop_def Let_def by (meson rtranclp_trans)
  qed
  ultimately show ?thesis by (rule rtranclp_trans)
qed

lemma milk_statements:
  "db_reserve (table_api length) [(''milk'', 3)] demo_table = (Inr [Inr (''milk'', 3)], demo_table(''milk'' \<mapsto> dairy_line 2))"
  "db_reserve (table_api length) [(''milk'', 3)] (demo_table(''milk'' \<mapsto> dairy_line 2)) =
    (Inr [Inr (''milk'', 2)], demo_table(''milk'' \<mapsto> dairy_line 0))"
  "db_release (table_api length) [(''milk'', 2)] (demo_table(''milk'' \<mapsto> dairy_line 0)) = (None, demo_table(''milk'' \<mapsto> dairy_line 2))"
  by (simp_all add: table_api_def demo_table_def dairy_line_def int4_def)

definition milk_rejected :: "(string + reserve_response) stock_task" where
  "milk_rejected = SReturn (Inr \<lparr>rp_order_id = ''o2'', rp_success = False, rp_error_message = ''insufficient stock''\<rparr>)"

definition milk_granted :: "(string + reserve_response) stock_task" where
  "milk_granted = SReturn (Inr \<lparr>rp_order_id = ''o1'', rp_success = True, rp_error_message = ''''\<rparr>)"

lemma milk_range: "sorted_entries milk_items = [(''milk'', 3)]" "sorted_entries [''milk'' \<mapsto> n] = [(''milk'', n)]"
  by (simp_all add: milk_items_def sorted_entries_one)

lemma milk_start:
  assumes "oid \<noteq> ''''"
  shows "ReserveItems sorted_entries oid milk_items = SReserve [(''milk'', 3)] (\<lambda>r. reserved_next sorted_entries oid milk_items (case r of
    Inl err \<Rightarrow> Inl (''failed to reserve stock: '' @ err) | Inr rows \<Rightarrow> scan_taken rows Map.empty))"
  using ReserveItems_unfold [where rng = sorted_entries and items = milk_items, OF assms] by (simp add: milk_range)

lemma milk_next:
  "reserved_next sorted_entries ''o1'' milk_items (Inr [''milk'' \<mapsto> 3]) = milk_granted"
  "reserved_next sorted_entries ''o2'' milk_items (Inr [''milk'' \<mapsto> 2]) = SRelease [(''milk'', 2)] (\<lambda>_. milk_rejected)"
  unfolding reserved_next_def sum.case milk_range Let_def milk_granted_def milk_rejected_def by simp_all

lemma milk_calls:
  "call_step (table_api length) (ReserveCall ''o1'' milk_items (ReserveItems sorted_entries ''o1'' milk_items)) demo_table =
    Some (ReserveCall ''o1'' milk_items milk_granted, demo_table(''milk'' \<mapsto> dairy_line 2))"
  "call_step (table_api length) (ReserveCall ''o2'' milk_items (ReserveItems sorted_entries ''o2'' milk_items)) (demo_table(''milk'' \<mapsto> dairy_line 2)) =
    Some (ReserveCall ''o2'' milk_items (SRelease [(''milk'', 2)] (\<lambda>_. milk_rejected)), demo_table(''milk'' \<mapsto> dairy_line 0))"
  "call_step (table_api length) (ReserveCall ''o2'' milk_items (SRelease [(''milk'', 2)] (\<lambda>_. milk_rejected))) (demo_table(''milk'' \<mapsto> dairy_line 0)) =
    Some (ReserveCall ''o2'' milk_items milk_rejected, demo_table(''milk'' \<mapsto> dairy_line 2))"
proof -
  have 1: "''o1'' \<noteq> ''''" "''o2'' \<noteq> ''''" by simp_all
  show "call_step (table_api length) (ReserveCall ''o1'' milk_items (ReserveItems sorted_entries ''o1'' milk_items)) demo_table =
      Some (ReserveCall ''o1'' milk_items milk_granted, demo_table(''milk'' \<mapsto> dairy_line 2))"
    unfolding milk_start [OF 1(1)] by (simp add: milk_statements milk_next)
  show "call_step (table_api length) (ReserveCall ''o2'' milk_items (ReserveItems sorted_entries ''o2'' milk_items)) (demo_table(''milk'' \<mapsto> dairy_line 2)) =
      Some (ReserveCall ''o2'' milk_items (SRelease [(''milk'', 2)] (\<lambda>_. milk_rejected)), demo_table(''milk'' \<mapsto> dairy_line 0))"
    unfolding milk_start [OF 1(2)] by (simp add: milk_statements milk_next)
  show "call_step (table_api length) (ReserveCall ''o2'' milk_items (SRelease [(''milk'', 2)] (\<lambda>_. milk_rejected))) (demo_table(''milk'' \<mapsto> dairy_line 0)) =
      Some (ReserveCall ''o2'' milk_items milk_rejected, demo_table(''milk'' \<mapsto> dairy_line 2))"
    by (simp add: milk_statements)
qed

lemma busy_shop_state:
  "sh_calls busy_shop = [ReserveCall ''o1'' milk_items milk_granted, ReserveCall ''o2'' milk_items milk_rejected]"
  "sh_supplied busy_shop = []" "sh_db busy_shop = demo_table(''milk'' \<mapsto> dairy_line 2)"
  unfolding busy_shop_def Let_def serve_call_def shop_start_def
  by (simp_all add: milk_calls del: call_step.simps)

theorem never_oversold_witness:
  "summed (granted ''milk'') busy_shop = 3 \<and> qty (sh_db busy_shop) ''milk'' = 2 \<and> qty demo_table ''milk'' = 5
   \<and> table_ok (sh_db busy_shop)
   \<and> summed (granted ''milk'') busy_shop + qty (sh_db busy_shop) ''milk'' \<le> qty demo_table ''milk''"
proof -
  have "sane busy_shop" by (simp add: sane_def busy_shop_state amounts_ok_def milk_items_def amount_def)
  from never_oversold [where view = "\<lambda>tab. tab", OF table_api_ok sorted_entries_range demo_table_ok busy_shop_run this]
  have "table_ok (sh_db busy_shop)"
    "summed (granted ''milk'') busy_shop + qty (sh_db busy_shop) ''milk''
      \<le> qty demo_table ''milk'' + sum_list (map (supplied ''milk'') (sh_supplied busy_shop)) + summed (returned ''milk'') busy_shop"
    by blast+
  moreover have "summed (granted ''milk'') busy_shop = 3" "summed (returned ''milk'') busy_shop = 0"
    by (simp_all add: summed_def busy_shop_state milk_granted_def milk_rejected_def milk_items_def)
  moreover have "qty (sh_db busy_shop) ''milk'' = 2" "qty demo_table ''milk'' = 5"
    by (simp_all add: busy_shop_state demo_table_def dairy_line_def qty_def)
  ultimately show ?thesis by (simp add: busy_shop_state(2))
qed

text \<open>The database breaks off after the first row.\<close>

lemma cut_items: "sorted_entries [''milk'' \<mapsto> 2, ''curd'' \<mapsto> 1] = [(''curd'', 1), (''milk'', 2)]"
proof -
  have "sorted_list_of_set {''curd'', ''milk''} = [''curd'', ''milk'']" by code_simp
  then show ?thesis by (simp add: sorted_entries_def insert_commute)
qed

text \<open>
  C11. A reservation can be lost. \<open>ReserveStock\<close> does not ask why the rows have ended (\<open>rows.Err()\<close>). When reading
  them breaks off, the statement has taken the stock, but the rows that are missing count as nothing taken:
  the order is rejected for want of stock although everything was there, only what was read is given back,
  and the rest belongs to nobody.
\<close>

theorem reservation_lost:
  "stock_ok (table_api (\<lambda>rows. 1)) (\<lambda>tab. tab)
   \<and> (\<forall>sku. amount [''milk'' \<mapsto> 2, ''curd'' \<mapsto> 1] sku \<le> qty demo_table sku)
   \<and> stock_exec (table_api (\<lambda>rows. 1)) (ReserveItems sorted_entries ''o1'' [''milk'' \<mapsto> 2, ''curd'' \<mapsto> 1]) demo_table
     = (Inr \<lparr>rp_order_id = ''o1'', rp_success = False, rp_error_message = ''insufficient stock''\<rparr>, demo_table(''milk'' \<mapsto> dairy_line 3))
   \<and> qty demo_table ''milk'' = 5 \<and> qty (demo_table(''milk'' \<mapsto> dairy_line 3)) ''milk'' = 3"
proof (intro conjI)
  let ?items = "[''milk'' \<mapsto> 2, ''curd'' \<mapsto> 1] :: string \<rightharpoonup> 32 word" and ?api = "table_api (\<lambda>rows. 1)"
  show "stock_ok ?api (\<lambda>tab. tab)" by (rule table_api_ok)
  show "\<forall>sku. amount ?items sku \<le> qty demo_table sku"
    by (simp add: amount_def demo_table_def dairy_line_def qty_def)
  show "qty demo_table ''milk'' = 5" "qty (demo_table(''milk'' \<mapsto> dairy_line 3)) ''milk'' = 3"
    by (simp_all add: demo_table_def dairy_line_def qty_def)
  let ?t1 = "demo_table(''curd'' \<mapsto> dairy_line 2, ''milk'' \<mapsto> dairy_line 3)"
  let ?rejected = "SReturn (Inr \<lparr>rp_order_id = ''o1'', rp_success = False, rp_error_message = ''insufficient stock''\<rparr>) :: (string + reserve_response) stock_task"
  have 1: "db_reserve ?api [(''curd'', 1), (''milk'', 2)] demo_table = (Inr [Inr (''curd'', 1)], ?t1)"
    by (simp add: table_api_def demo_table_def dairy_line_def int4_def)
  have 2: "db_release ?api [(''curd'', 1)] ?t1 = (None, demo_table(''milk'' \<mapsto> dairy_line 3))"
    by (simp add: table_api_def demo_table_def dairy_line_def int4_def fun_upd_twist)
  have 3: "ReserveItems sorted_entries ''o1'' ?items = SReserve [(''curd'', 1), (''milk'', 2)] (\<lambda>r. reserved_next sorted_entries ''o1'' ?items (case r of
      Inl err \<Rightarrow> Inl (''failed to reserve stock: '' @ err) | Inr rows \<Rightarrow> scan_taken rows Map.empty))"
    using ReserveItems_unfold [where rng = sorted_entries and items = ?items and orderId = "''o1''"] by (simp only: cut_items) simp
  have 4: "reserved_next sorted_entries ''o1'' ?items (Inr [''curd'' \<mapsto> 1]) = SRelease [(''curd'', 1)] (\<lambda>_. ?rejected)"
    unfolding reserved_next_def sum.case cut_items sorted_entries_one Let_def by simp
  show "stock_exec ?api (ReserveItems sorted_entries ''o1'' ?items) demo_table
     = (Inr \<lparr>rp_order_id = ''o1'', rp_success = False, rp_error_message = ''insufficient stock''\<rparr>, demo_table(''milk'' \<mapsto> dairy_line 3))"
    unfolding 3 stock_exec.simps 1 fst_conv snd_conv sum.case scan_taken.simps 4 2 ..
qed

text \<open>Nothing stops a negative quantity: the order is granted, and the stock grows.\<close>

lemma negative_reservation:
  "stock_exec (table_api length) (ReserveItems sorted_entries ''o1'' [''milk'' \<mapsto> - 3]) demo_table
     = (Inr \<lparr>rp_order_id = ''o1'', rp_success = True, rp_error_message = ''''\<rparr>, demo_table(''milk'' \<mapsto> dairy_line 8))"
proof -
  let ?items = "[''milk'' \<mapsto> - 3] :: string \<rightharpoonup> 32 word"
  have 1: "ReserveItems sorted_entries ''o1'' ?items = SReserve [(''milk'', - 3)] (\<lambda>r. reserved_next sorted_entries ''o1'' ?items (case r of
      Inl err \<Rightarrow> Inl (''failed to reserve stock: '' @ err) | Inr rows \<Rightarrow> scan_taken rows Map.empty))"
    using ReserveItems_unfold [where rng = sorted_entries and items = ?items and orderId = "''o1''"] by (simp only: sorted_entries_one) simp
  have 2: "db_reserve (table_api length) [(''milk'', - 3)] demo_table = (Inr [Inr (''milk'', - 3)], demo_table(''milk'' \<mapsto> dairy_line 8))"
    by (simp add: table_api_def demo_table_def dairy_line_def int4_def)
  have 3: "reserved_next sorted_entries ''o1'' ?items (Inr [''milk'' \<mapsto> - 3]) =
      SReturn (Inr \<lparr>rp_order_id = ''o1'', rp_success = True, rp_error_message = ''''\<rparr>)"
    unfolding reserved_next_def sum.case sorted_entries_one Let_def by simp
  show ?thesis unfolding 1 stock_exec.simps 2 fst_conv snd_conv sum.case scan_taken.simps 3 ..
qed

end
