(* ===== verification/Spec2Isabelle.thy ===== *)
theory Spec2Isabelle
  imports ZmqPoller ZmqOptions ZmqOptional Ownership RobotWorker Analytics ByteRuntime
    PubSubSafety CppzmqExamples FleetLive Dispatch FinalizedOrders Stock
begin

text \<open>
  The C++ part of the auto_grocery repository, and the handlers of the inventory service behind it.

  The program. Customer and restock orders are broadcast by the inventory service
  (\<open>src/inventory/internal\<close>, in Go) over ZeroMQ as FlatBuffers messages to one
  robot process per aisle (\<open>src/robots/internal/bot/main.cpp\<close>). A robot filters the items of its
  aisle, works on them, and reports every order to the inventory service over gRPC, which counts the
  reports of an order and finalizes it after the fifth (\<open>src/inventory/internal/handler/grpc.go\<close>,
  \<open>src/inventory/internal/store/memory.go\<close>): it has a client's order billed, or puts a restock order into
  the stock, and tells the ordering service. The analytics
  logger (\<open>src/analytics/cmd/analytics/main.cpp\<close>) receives latency metrics in the same way and appends
  them to a CSV file. Both use the header-only library cppzmq (\<open>include/cppzmq/zmq.hpp\<close> and
  \<open>zmq_addon.hpp\<close>; the copies under \<open>src/robots\<close> and \<open>src/analytics\<close> are identical) and the headers that the
  FlatBuffers compiler generated (\<open>fbs/order_generated.h\<close>, \<open>fbs/analytics_generated.h\<close>).

  The theories, from the bottom:
  \<^item> \<open>Prelude\<close>: bytes and strings, failures as values, the state-and-exception monad \<open>comp\<close>, printing.
  \<^item> \<open>ZmqApi\<close>, \<open>ZmqMessage\<close>, \<open>ZmqContext\<close>, \<open>ZmqBuffer\<close>, \<open>ZmqSocket\<close>, \<open>ZmqPoll\<close>, \<open>ZmqMisc\<close>, \<open>ZmqPoller\<close>,
    \<open>ZmqOptional\<close>, \<open>ZmqOptionTable\<close>: the classes and functions of \<open>zmq.hpp\<close> in its order, one definition per
    operation (\<open>message_t\<close>, \<open>context_t\<close>, buffers, \<open>socket_base\<close>, \<open>socket_ref\<close> and \<open>socket_t\<close>, polling and
    \<open>monitor_t\<close>, timers, CURVE and Z85, the draft pollers, the replacement of \<open>std::optional\<close>, the table of
    socket options with the parameters that the typed options take from it). \<open>ZmqPoller\<close> also holds \<open>poller_ref_t\<close> and \<open>active_poller_t\<close> of \<open>zmq_addon.hpp\<close>.
  \<^item> \<open>ZmqCodec\<close> and \<open>ZmqMultipart\<close>: the rest of \<open>zmq_addon.hpp\<close>, that is the multipart encoding, the free
    functions on multipart messages, and \<open>multipart_t\<close>.
  \<^item> \<open>ZmqOptions\<close> and \<open>Ownership\<close>: properties of sockets (typed options, receiving; no leaked handles).
  \<^item> \<open>Flatbuffers\<close>, \<open>OrderFbs\<close>, \<open>AnalyticsFbs\<close>, \<open>ByteRuntime\<close>: the FlatBuffers runtime as a parameter, the
    two generated headers, and a runtime over bytes for the examples.
  \<^item> \<open>DotEnv\<close>, \<open>AnalyticsEnv\<close>, \<open>Programs\<close>, \<open>Dictionary\<close>, \<open>DoubleOut\<close>: configuration loading (over the parts
    of a line for the robot, index by index for the logger, and that both agree), what both programs share
    (subscription, receiving, the trace of what the outside sees), maps, and the printing of doubles.
  \<^item> \<open>RobotWorker\<close> and \<open>Analytics\<close>: the two programs, \<open>main\<close> included.
  \<^item> \<open>PubSubNet\<close>, \<open>PubSubExample\<close>, \<open>PubSubSafety\<close>: an abstract publish-subscribe network that the state of
    libzmq is seen as, the multithreaded example of cppzmq (\<open>examples/pubsub_multithread_inproc.cpp\<close>) as
    threads that take turns on it, and its safety in every interleaving. \<open>CppzmqExamples\<close>: the sequential
    examples and the demo.
  \<^item> \<open>Inventory\<close>: \<open>ReportJobStatus\<close> with its counters, marker and cleanup in Redis, one task per call, and
    the service as a step relation. Its Redis client sends a command again when the reply is lost (the
    default of go-redis, which \<open>NewMemoryStore\<close> keeps); the attempts before the last one are stray commands
    in the state of the service, which Redis executes at any later time or never. \<open>Dispatch\<close>: the other direction, from \<open>ProcessCustomerOrder\<close> and
    \<open>RestockItemsOrder\<close> to the message that the publisher builds with the generated Go code.
    \<open>Finalization\<close>: what follows the last report, \<open>finalizeOrder\<close> with the bill, the stock updates, the
    request to the ordering service and the cleanup, as a goroutine whose operations interleave with the rest;
    \<open>FinalizedOrders\<close>: the service with these goroutines running, that it refines the service of
    \<open>Inventory\<close>, and that an order is completed once.
    \<open>Stock\<close>: the handlers that reserve and release stock, the SQL statements behind them, and calls whose
    statements interleave.
    \<open>ReportBarrier\<close>: the abstract barrier of one order, that the service refines it, and what follows. \<open>Fleet\<close> and \<open>FleetLive\<close>: robots, network and service as one step relation, its
    invariant, and that every run without faults ends with every order finalized.
  \<^item> this theory: what spans components, from the sender of an order to the inventory's report, a fleet
    of robots on one order, and the whole pipeline.

  The interfaces are locales: \<open>codec\<close> (an encoder and a decoder that reads back what was written and
  leaves the rest), interpreted by the network byte order, the object representations of integers and
  the frames of the multipart encoding; \<open>part_deque\<close>, interpreted by the operations of \<open>multipart_t\<close>;
  \<open>owner\<close> (operations that move handles between objects without losing or doubling one), interpreted by
  \<open>context_t\<close> and \<open>socket_t\<close>; \<open>dictionary\<close> (insert or assign), interpreted by \<open>std::map\<close> and the map of a
  protobuf message; \<open>guarded\<close> (what holds of a thread and what the others may do to its sockets),
  interpreted by the publisher and the subscribers; \<open>measured\<close> (steps that leave less work, so runs end),
  interpreted by the fleet.

  State and effects. libzmq and the FlatBuffers, Protobuf and gRPC runtimes are not in the repository:
  their functions (for gRPC, the call that the generated stub makes through them) are fields of the records \<open>zmq_base\<close> to \<open>poller_api\<close>, \<open>fb_runtime\<close> and \<open>robot_env\<close>, which
  every definition takes as an argument; \<open>'w\<close> is the state behind them (the network, \<open>errno\<close>). An operation
  is a function from the state to a result or an exception and the new state; a method also carries its
  object, so what it did before it threw is visible. The documented behaviour that a property needs is a
  named hypothesis (\<open>msg_api_ok\<close>, \<open>transport\<close>, \<open>inbound\<close>, \<open>recv_lib\<close>, \<open>socket_lib\<close>, \<open>poller_lib\<close>, \<open>verifier_ok\<close>,
  \<open>builder_ok\<close>, \<open>finish_ok\<close>, \<open>pubsub_lib\<close>, \<open>redis_ok\<close>, \<open>redis_up\<close>, \<open>fleet_lib\<close>, \<open>calls_succeed\<close>,
  \<open>go_ok\<close>, \<open>range_ok\<close>, \<open>fin_range_ok\<close>, \<open>store_ok\<close>, \<open>stock_ok\<close>, \<open>stock_up\<close>, \<open>go_range_ok\<close>),
  and each such property has an example over an implementation by lists (of Redis, by a map).
  Undefined behaviour (null or out-of-range reads), failing assertions and every exception type are values.
  Machine integers are words where they can wrap (sizes, flags, hashes, buffers, the 32-bit quantity, the
  64-bit timestamp, doubles as patterns); the byte order of the machine is a parameter \<open>le\<close>.

  Loops. Loops over data are structural recursions. \<open>while (true)\<close> loops and loops whose end depends on the
  library are partial functions into \<open>option\<close>, where \<open>None\<close> is "runs for ever"; that they return, or handle
  a message and go on, is proved (\<open>context_close_returns\<close>, which also says when \<open>close\<close> does not return,
  \<open>robot_reports_each_order\<close>,
  \<open>analytics_main_logs\<close>). No fuel is used.

  What the properties show. For the robot: one report per order with exactly the owed content, whatever
  the call returns; a null field (which the verifier admits) stops it before it reports. For a fleet: every
  item is picked and reported by exactly one robot. For the inventory service: with five reports an order is
  finalized at most once and after the fifth, whatever the interleaving and the faults, where a report that
  an INCR sent again has counted once more is one of the five (with a sixth the order can be finalized
  twice; and commands sent again can make it finalized after four, or never: the last section of
  \<open>ReportBarrier\<close>); with the operations of the finalizations interleaved as well, at most
  one request is posted to the ordering service, and exactly one if nothing is lost; what it bills are the items
  that were stored, what it stocks are the items that were delivered. For the stock: a reservation alone is all or nothing, and
  with calls interleaving nothing is sold twice (but stock can be lost when rows are not read). For the pipeline of five robots and the service: a finalized order has
  exactly the owed report from every robot, under every schedule and with losses, if every order is published
  once and no INCR for it was executed again; and a run without
  faults ends, within 31 steps per order, with every order finalized once and its keys removed. For the
  sender: a robot reads what the Go code wrote, item by item, and an item with an aisle that no robot serves
  is picked by nobody, though its order is completed. For the logger: one row per metric, one header whatever
  the restarts, and a file that can be read back. For the generated headers: what is built reads back, and
  a verified buffer can be read. For cppzmq: round trips and exact behaviour of the codec on all inputs,
  multipart sending and receiving, options, ownership of sockets, memory safety of the active poller's
  handlers, the callback for each event of a monitor, the exact end of \<open>close\<close>, and the places where the code does not do what it means to. For the threads of the
  example: no assertion fails and only the announced lines are printed, whatever the schedule.

  Conventions. libzmq is at least 4.3 and the draft interface is compiled in where the header has it;
  \<open>NDEBUG\<close> is not defined, so assertions are checked; implicit destructor calls of message values and
  temporaries are not sequenced into the computations (their only effect is \<open>zmq_msg_close\<close>); the two
  programs have one thread each; in the pipeline a robot does not wait for the task of its call, which allows
  more interleavings than the program has; in the example with several, a step is one library call or one received
  message, and a receiving thread is blocked until a whole message waits at its socket. A message's bytes
  reach the FlatBuffers accessors as a list.

  Not modelled: the Protobuf and gRPC code generated for the inventory interface (\<open>robots/proto\<close>; the
  request is a record, the call a parameter), the cppzmq tests, the sources CMake
  generates to identify the compiler, and the parts of the system not written in C++ (the frontends and the Go
  services, but for the inventory's handlers: stock, orders to the robots, their reports, finalization; its
  \<open>main\<close> is wiring).
\<close>

section \<open>From the broadcast to the report\<close>

text \<open>The message of an order, as a sender makes it with the generated \<open>Create...Direct\<close> functions.\<close>

definition broadcast_of :: "(byte list, 'v, 'f) fb_runtime \<Rightarrow> 'f \<Rightarrow> order \<Rightarrow> byte list" where
  "broadcast_of rt f = (\<lambda>(oid, ty, items).
     send_order rt (Some oid) (Some ty) (map (\<lambda>(s, q, a). (Some s, q, Some a)) items) f)"

text \<open>The strings of an order have no NUL character, at which the C string functions would stop.\<close>

definition plain_order :: "order \<Rightarrow> bool" where
  "plain_order = (\<lambda>(oid, ty, items). CHR 0x00 \<notin> set oid \<and> CHR 0x00 \<notin> set ty
     \<and> list_all (\<lambda>(s, q, a). CHR 0x00 \<notin> set s \<and> CHR 0x00 \<notin> set a) items)"

lemma broadcast_read:
  assumes "builder_ok rt g" "finish_ok rt g" "plain_order ord"
  shows "order_read rt (broadcast_of rt f ord) = Inr (order_content ord)"
proof -
  obtain oid ty items where ord: "ord = (oid, ty, items)" by (cases ord)
  have "list_all (\<lambda>(s, q, a). CHR 0x00 \<notin> set s \<and> CHR 0x00 \<notin> set a) items"
    using assms(3) by (simp add: plain_order_def ord)
  then have items: "map seen_item (map (\<lambda>(s, q, a). (Some s, q, Some a)) items) =
      map (\<lambda>(s, q, a). (Some s, q, Some a)) items"
    by (induction items) (auto simp: seen_item_def c_string_id)
  have "c_string oid = oid" "c_string ty = ty"
    using assms(3) by (simp_all add: plain_order_def ord c_string_id)
  with order_read_send [OF assms(1,2), of "Some oid" "Some ty" "map (\<lambda>(s, q, a). (Some s, q, Some a)) items" f] items
  show ?thesis by (simp add: ord broadcast_of_def order_content_def)
qed

text \<open>
  C17. From the sender to the inventory. When orders are built with the generated functions into messages
  and these messages arrive at a robot's socket in order, the loop of \<open>Run\<close> handles all of them without an
  exception, takes them off the queue, and makes exactly one report per order, in order, with exactly
  the order's identifier and type, the status, and the quantities of the items of the robot's aisle.
\<close>

theorem broadcasts_reach_inventory:
  assumes "builder_ok (re_rt env) g" "finish_ok (re_rt env) g"
    and "inbound (re_api env) (sb_handle sub) inq" "msg_api_ok (re_api env)"
    and "\<And>r w. inq (snd (re_rpc env (stub robot) r w)) = inq w"
    and "list_all plain_order orders"
    and "inq w = map (\<lambda>ord. (broadcast_of (re_rt env) f ord, False)) orders @ rest"
  shows "\<exists>tr' w'. robot_loop env robot sub (tr, w) = robot_loop env robot sub (tr @ tr', w')
    \<and> inq w' = rest \<and> rpcs tr' = map (owed_report robot) orders"
proof -
  let ?msgs = "map (\<lambda>ord. (broadcast_of (re_rt env) f ord, ord)) orders"
  have rd: "order_read (re_rt env) bs = Inr (order_content ord)" if "(bs, ord) \<in> set ?msgs" for bs ord
    using that assms(6) broadcast_read [OF assms(1,2)] by (auto simp: list_all_iff)
  have q: "inq w = map (\<lambda>(bs, ord). (bs, False)) ?msgs @ rest"
    using assms(7) by (simp add: comp_def)
  from robot_iters_messages [OF assms(3,4,5) rd q, of tr] show ?thesis by (auto simp: comp_def)
qed

definition byte_env :: "(lmsg, lib_state, unit, list_builder) robot_env" where
  "byte_env = \<lparr>re_api = list_sock_api, re_rt = byte_runtime,
     re_rpc = (\<lambda>addr rq w. (\<lparr>st_ok = True, st_code = 0, st_message = []\<rparr>, w))\<rparr>"

theorem broadcasts_reach_inventory_witness:
  "\<exists>tr' w'. robot_loop byte_env demo_robot \<lparr>sb_handle = 1, sb_ctxptr = 1\<rparr>
        ([], lib_start\<lparr>lib_in := [(broadcast_of byte_runtime lb_start demo_order, False)]\<rparr>) =
      robot_loop byte_env demo_robot \<lparr>sb_handle = 1, sb_ctxptr = 1\<rparr> (tr', w')
    \<and> lib_in w' = [] \<and> rpcs tr' = [owed_report demo_robot demo_order]"
proof -
  let ?s = "\<lparr>sb_handle = 1, sb_ctxptr = 1\<rparr> :: socket_t"
  have env: "re_api byte_env = list_sock_api" "re_rt byte_env = byte_runtime" by (simp_all add: byte_env_def)
  have a: "builder_ok (re_rt byte_env) (list_ghost byte_view)" "finish_ok (re_rt byte_env) (list_ghost byte_view)"
    "inbound (re_api byte_env) (sb_handle ?s) lib_in" "msg_api_ok (re_api byte_env)"
    unfolding env by (rule byte_runtime_ok list_inbound list_sock_msg_ok)+
  have r: "\<And>r w. lib_in (snd (re_rpc byte_env (stub demo_robot) r w)) = lib_in w" by (simp add: byte_env_def)
  have p: "list_all plain_order [demo_order]" by (simp add: plain_order_def demo_order_def)
  from broadcasts_reach_inventory [OF a r p, of "lib_start\<lparr>lib_in := [(broadcast_of byte_runtime lb_start demo_order, False)]\<rparr>"
      lb_start "[]" "[]"] show ?thesis by (simp add: env)
qed

section \<open>A fleet of robots\<close>

text \<open>
  A fleet picks every item once. Let robots of different aisles handle the same broadcast, and let
  every aisle of the order have a robot. Then every robot reports exactly once (so the inventory service
  can count reports), all with the order's identifier; and if no sku is repeated, each item of the order
  is in the report of exactly one robot, with its quantity.
\<close>

theorem fleet_picks_every_item_once:
  assumes "order_read (re_rt env) buf = Inr (order_content (oid, ty, items))"
    and "distinct (map aisle_type robots)" "\<forall>(s, q, a) \<in> set items. a \<in> set (map aisle_type robots)"
    and "distinct (map fst items)"
  shows "\<exists>reports. list_all2 (\<lambda>robot rq. \<exists>tr' w'. handle_broadcast env robot buf (tr, w) = (Inr (), (tr @ tr', w'))
        \<and> rpcs tr' = [rq]) robots reports
    \<and> (\<forall>rq \<in> set reports. rq_order_id rq = oid)
    \<and> (\<forall>(s, q, a) \<in> set items. \<exists>!i. i < length robots \<and> rq_processed_items (reports ! i) s = Some q)"
proof -
  let ?reports = "map (\<lambda>robot. owed_report robot (oid, ty, items)) robots"
  have "list_all2 (\<lambda>robot rq. \<exists>tr' w'. handle_broadcast env robot buf (tr, w) = (Inr (), (tr @ tr', w'))
      \<and> rpcs tr' = [rq]) robots ?reports"
    using handle_broadcast_run [OF assms(1), of _ tr w] by (fastforce simp: list_all2_map2 intro: list.rel_refl_strong)
  moreover have "\<forall>rq \<in> set ?reports. rq_order_id rq = oid" by (simp add: owed_report_def)
  moreover have "\<exists>!i. i < length robots \<and> rq_processed_items (?reports ! i) s = Some q"
    if "(s, q, a) \<in> set items" for s q a
  proof -
    have "a \<in> set (map aisle_type robots)" using assms(3) that by blast
    from one_picker [OF assms(2,4) that this, of oid ty] show ?thesis by (simp cong: conj_cong)
  qed
  ultimately show ?thesis by blast
qed

definition demo_fleet :: "robot_worker list" where
  "demo_fleet = map (\<lambda>aisle. RobotWorker_ctor ''localhost:50051'' aisle ''tcp://localhost:5556'') [''dairy'', ''meat'']"

theorem fleet_picks_every_item_once_witness:
  "\<exists>reports. list_all2 (\<lambda>robot rq. \<exists>tr' w'. handle_broadcast byte_env robot
        (broadcast_of byte_runtime lb_start (''o1'', ''CUSTOMER'', [(''milk'', 2, ''dairy''), (''beef'', 1, ''meat'')]))
        ([], lib_start) = (Inr (), (tr', w')) \<and> rpcs tr' = [rq]) demo_fleet reports
    \<and> (\<exists>!i. i < 2 \<and> rq_processed_items (reports ! i) ''beef'' = Some 1)"
proof -
  let ?items = "[(''milk'', 2, ''dairy''), (''beef'', 1, ''meat'')] :: (string \<times> 32 word \<times> string) list"
  have p: "plain_order (''o1'', ''CUSTOMER'', ?items)" by (simp add: plain_order_def)
  have r: "order_read (re_rt byte_env) (broadcast_of byte_runtime lb_start (''o1'', ''CUSTOMER'', ?items)) =
      Inr (order_content (''o1'', ''CUSTOMER'', ?items))"
    using broadcast_read [OF byte_runtime_ok p] by (simp add: byte_env_def)
  have d: "distinct (map aisle_type demo_fleet)"
    "\<forall>(s, q, a) \<in> set ?items. a \<in> set (map aisle_type demo_fleet)" "distinct (map fst ?items)"
    by (simp_all add: demo_fleet_def RobotWorker_ctor_def)
  have l: "length demo_fleet = 2" "(''beef'', 1, ''meat'') \<in> set ?items" by (simp_all add: demo_fleet_def)
  from fleet_picks_every_item_once [OF r d, of "[]" lib_start] obtain reports where
    1: "list_all2 (\<lambda>robot rq. \<exists>tr' w'. handle_broadcast byte_env robot
        (broadcast_of byte_runtime lb_start (''o1'', ''CUSTOMER'', ?items)) ([], lib_start) = (Inr (), ([] @ tr', w'))
        \<and> rpcs tr' = [rq]) demo_fleet reports"
    and 2: "\<forall>(s, q, a) \<in> set ?items. \<exists>!i. i < length demo_fleet \<and> rq_processed_items (reports ! i) s = Some q"
    by (elim exE conjE)
  from bspec [OF 2 l(2)] have "\<exists>!i. i < 2 \<and> rq_processed_items (reports ! i) ''beef'' = Some 1"
    unfolding l(1) prod.case .
  with 1 show ?thesis unfolding append_Nil by blast
qed

section \<open>The fleet and the inventory service\<close>

text \<open>
  C1. The pipeline is safe under every schedule. Five robots of different aisles and the inventory service
  run concurrently on orders that are published once each (no two messages have the same order id and
  database): messages arrive at each robot when they like or get lost, robots work at their own pace, gRPC
  calls and Redis commands fail or not, the Redis client sends commands again, keys expire, finalizations
  end at any time. Then no robot ever stops. And of each order for which no INCR that was sent again has
  been executed again: it is not finalized twice, and when it has been finalized, the service has received
  exactly one report on it from each robot, the one that the robot owes; so (if no sku is repeated) each
  item in an aisle that a robot serves has been reported with its quantity by exactly one.
\<close>

theorem fleet_safe:
  assumes "fleet_lib E" "redis_ok (fe_redis E) (fe_view E)" "orders_ok E msgs"
    and "length (fe_robots E) = 5" "distinct (map aisle_type (map fst (fe_robots E)))"
    and "fleet_start E msgs s0" "(fleet_step E faults)\<^sup>*\<^sup>* s0 s"
  shows "fl_down s = {}
    \<and> (\<forall>k. count_key k \<notin> set (sv_again (fl_server s)) \<longrightarrow> count_list (sv_finals (fl_server s)) k \<le> 1)
    \<and> (\<forall>k \<in> set (sv_finals (fl_server s)). count_key k \<notin> set (sv_again (fl_server s)) \<longrightarrow>
         (\<exists>bs oid ty items. (bs, (oid, ty, items)) \<in> set msgs
         \<and> k = (oid, ty = ''RESTOCK'')
         \<and> (\<forall>i < 5. reported E s k i = [owed_report (fst (fe_robots E ! i)) (oid, ty, items)])
         \<and> (distinct (map fst items) \<longrightarrow> (\<forall>(sku, q, a) \<in> set items. a \<in> set (map aisle_type (map fst (fe_robots E))) \<longrightarrow>
              (\<exists>!i. i < 5 \<and> (\<exists>rq \<in> set (reported E s k i). rq_processed_items rq sku = Some q))))))"
proof -
  have inv: "fleet_inv E msgs False s" by (rule fleet_inv_run [OF assms(1-3) _ assms(6,7)]) simp
  have "\<exists>bs oid ty items. (bs, (oid, ty, items)) \<in> set msgs \<and> k = (oid, ty = ''RESTOCK'')
      \<and> (\<forall>i < 5. reported E s k i = [owed_report (fst (fe_robots E ! i)) (oid, ty, items)])
      \<and> (distinct (map fst items) \<longrightarrow> (\<forall>(sku, q, a) \<in> set items. a \<in> set (map aisle_type (map fst (fe_robots E))) \<longrightarrow>
           (\<exists>!i. i < 5 \<and> (\<exists>rq \<in> set (reported E s k i). rq_processed_items rq sku = Some q))))"
    if k: "count_key k \<notin> set (sv_again (fl_server s))" "k \<in> set (sv_finals (fl_server s))" for k
  proof -
    obtain bs ord where o: "(bs, ord) \<in> set msgs" "k = key_of_order ord"
      and r: "\<And>i. i < 5 \<Longrightarrow> reported E s k i = [owed_report (fst (fe_robots E ! i)) ord]"
      using fleet_final_reports [OF assms(3) inv assms(4) k(1,2)] by blast
    obtain oid ty items where ord: "ord = (oid, ty, items)" by (cases ord)
    have "\<exists>!i. i < 5 \<and> (\<exists>rq \<in> set (reported E s k i). rq_processed_items rq sku = Some q)"
      if "distinct (map fst items)" "(sku, q, a) \<in> set items" "a \<in> set (map aisle_type (map fst (fe_robots E)))"
      for sku q a
      using one_picker [OF assms(5) that, of oid ty] assms(4) r ord by (simp cong: conj_cong)
    then have "distinct (map fst items) \<longrightarrow> (\<forall>(sku, q, a) \<in> set items. a \<in> set (map aisle_type (map fst (fe_robots E))) \<longrightarrow>
        (\<exists>!i. i < 5 \<and> (\<exists>rq \<in> set (reported E s k i). rq_processed_items rq sku = Some q)))" by blast
    moreover have "(bs, (oid, ty, items)) \<in> set msgs" "k = (oid, ty = ''RESTOCK'')"
      "\<forall>i < 5. reported E s k i = [owed_report (fst (fe_robots E ! i)) (oid, ty, items)]"
      using o ord r by (simp_all add: key_of_order_def)
    ultimately show ?thesis by blast
  qed
  moreover have "fl_down s = {}" using inv by (simp add: fleet_inv_def)
  ultimately show ?thesis using fleet_finalized(1) [OF assms(3) inv assms(4)] by blast
qed

text \<open>
  C2. The pipeline finishes every order. When nothing is lost, all gRPC calls succeed and Redis answers, then,
  whatever the schedule, a run of five robots and the service takes at most 31 steps per order, and when it
  can go no further, every published order has been finalized exactly once, all finalizations have ended,
  every robot has made exactly the reports it owes, in order, and the counter and the marker of every
  order are gone.
\<close>

theorem fleet_finishes_orders:
  assumes "fleet_ideal E" "orders_ok E msgs" "length (fe_robots E) = 5" "fleet_start E msgs s0"
    and "(fleet_step E False ^^ n) s0 s"
  shows "n \<le> 31 * length msgs \<and> ((\<nexists>s'. fleet_step E False s s') \<longrightarrow>
     distinct (sv_finals (fl_server s)) \<and> set (sv_finals (fl_server s)) = (\<lambda>(bs, ord). key_of_order ord) ` set msgs
     \<and> sv_running (fl_server s) = []
     \<and> (\<forall>i < 5. fe_sent E (snd (fl_procs s ! i)) = map (\<lambda>(bs, ord). owed_report (fst (fe_robots E ! i)) ord) msgs)
     \<and> (\<forall>(bs, ord) \<in> set msgs. fe_view E (sv_redis (fl_server s)) (count_key (key_of_order ord)) = None
          \<and> fe_view E (sv_redis (fl_server s)) (mark_key (key_of_order ord)) = None))"
proof -
  have live: "fleet_live E msgs s" and n: "n \<le> fleet_work E s0"
    using fleet_live_run [OF assms(1,2,5) fleet_live_start [OF assms(4)]] by simp_all
  then have inv: "fleet_inv E msgs True s" by (simp add: fleet_live_def)
  from n have "n \<le> 31 * length msgs" using fleet_work_start [OF assms(4)] assms(3) by simp
  with fleet_end [OF live assms(2,3)] fleet_finals_distinct [OF assms(2) inv assms(3)]
    fleet_stuck_robots [OF inv] assms(3) show ?thesis by auto
qed

section \<open>From the handler to the reports\<close>

text \<open>The messages that the inventory service publishes, with the orders they stand for.\<close>

definition commands ::
  "('g, byte list) go_builder \<Rightarrow> (string \<times> string \<times> (string \<times> item_details) list) list \<Rightarrow> (byte list \<times> order) list" where
  "commands gb cmds = map (\<lambda>(oid, ty, its). (command_payload gb oid ty its, command_order oid ty its)) cmds"

lemma commands_ok:
  assumes "go_ok gb (re_rt (fe_env E)) g vec" "distinct (map (\<lambda>(oid, ty, its). (oid, ty = ''RESTOCK'')) cmds)"
  shows "orders_ok E (commands gb cmds)"
proof -
  have "map (\<lambda>(bs, ord). key_of_order ord) (commands gb cmds) = map (\<lambda>(oid, ty, its). (oid, ty = ''RESTOCK'')) cmds"
    by (simp add: commands_def key_of_order_def command_order_def comp_def case_prod_unfold)
  moreover have "order_read (re_rt (fe_env E)) bs = Inr (order_content ord)" if "(bs, ord) \<in> set (commands gb cmds)" for bs ord
    using that command_read [OF assms(1)] by (auto simp: commands_def)
  ultimately show ?thesis using assms(2) unfolding orders_ok_def by auto
qed

lemma owed_absent:
  assumes "distinct (map fst items)" "(sku, q, a) \<in> set items" "a \<noteq> aisle_type robot"
  shows "rq_processed_items (owed_report robot (oid, ty, items)) sku = None"
proof (rule ccontr)
  assume "rq_processed_items (owed_report robot (oid, ty, items)) sku \<noteq> None"
  then obtain p where "(sku, p, aisle_type robot) \<in> set items" using owed_quantity [OF assms(1)] by auto
  with assms show False by (metis eq_key_imp_eq_value prod.inject)
qed

text \<open>
  C3. From the command to the finalization. Let the messages be the ones that \<open>SendRobotCommand\<close> builds in Go,
  for orders with different keys, and let the five C++ robots and the service run as before, with any faults.
  When an order for which no INCR that was sent again has been executed again has been finalized, each of its entries has been reported with its quantity by exactly one
  robot if some robot serves its aisle; and otherwise (an aisle \<open>Unknown\<close>, say) all five have reported on the
  order and no report has the entry: the order is completed although nobody picked the item.
\<close>

theorem commanded_items_reported:
  assumes "fleet_lib E" "redis_ok (fe_redis E) (fe_view E)" "go_ok gb (re_rt (fe_env E)) g vec"
    and "length (fe_robots E) = 5" "distinct (map aisle_type (map fst (fe_robots E)))"
    and "distinct (map (\<lambda>(oid, ty, its). (oid, ty = ''RESTOCK'')) cmds)"
    and "fleet_start E (commands gb cmds) s0" "(fleet_step E faults)\<^sup>*\<^sup>* s0 s"
    and "(oid, ty, its) \<in> set cmds" "distinct (map fst its)" "(oid, ty = ''RESTOCK'') \<in> set (sv_finals (fl_server s))"
    and "count_key (oid, ty = ''RESTOCK'') \<notin> set (sv_again (fl_server s))" "(sku, d) \<in> set its"
  shows "if Aisle d \<in> set (map aisle_type (map fst (fe_robots E)))
    then \<exists>!i. i < 5 \<and> (\<exists>rq \<in> set (reported E s (oid, ty = ''RESTOCK'') i). rq_processed_items rq sku = Some (Quantity d))
    else \<forall>i < 5. \<exists>rq. reported E s (oid, ty = ''RESTOCK'') i = [rq] \<and> rq_processed_items rq sku = None"
proof -
  note ok = commands_ok [OF assms(3,6)]
  have inv: "fleet_inv E (commands gb cmds) False s" by (rule fleet_inv_run [OF assms(1,2) ok _ assms(7,8)]) simp
  obtain items where items: "items = map (\<lambda>(sku, d). (sku, Quantity d, Aisle d)) its" by blast
  obtain bs ord where o: "(bs, ord) \<in> set (commands gb cmds)" "(oid, ty = ''RESTOCK'') = key_of_order ord"
    and r: "\<And>i. i < 5 \<Longrightarrow> reported E s (oid, ty = ''RESTOCK'') i = [owed_report (fst (fe_robots E ! i)) ord]"
    using fleet_final_reports [OF ok inv assms(4,12,11)] by blast
  have mem: "(command_payload gb oid ty its, (oid, ty, items)) \<in> set (commands gb cmds)"
    using assms(9) by (force simp: commands_def command_order_def items)
  have inj: "inj_on (\<lambda>(bs, ord). key_of_order ord) (set (commands gb cmds))"
    using ok unfolding orders_ok_def distinct_map by blast
  have "(bs, ord) = (command_payload gb oid ty its, (oid, ty, items))"
    by (rule inj_onD [OF inj _ o(1) mem]) (simp add: o(2) [symmetric], simp add: key_of_order_def)
  then have ord: "ord = (oid, ty, items)" by blast
  have d: "distinct (map fst items)" using assms(10) by (simp add: items comp_def case_prod_unfold)
  have i: "(sku, Quantity d, Aisle d) \<in> set items" using assms(13) by (force simp: items)
  show ?thesis
  proof (cases "Aisle d \<in> set (map aisle_type (map fst (fe_robots E)))")
    case True
    from one_picker [OF assms(5) d i True, of oid ty] assms(4) r ord
    have "\<exists>!i. i < 5 \<and> (\<exists>rq \<in> set (reported E s (oid, ty = ''RESTOCK'') i). rq_processed_items rq sku = Some (Quantity d))"
      by (simp cong: conj_cong)
    then show ?thesis unfolding if_P [OF True] .
  next
    case False
    then have "Aisle d \<noteq> aisle_type (fst (fe_robots E ! i))" if "i < 5" for i using assms(4) that by auto
    with owed_absent [OF d i] r ord show ?thesis unfolding if_not_P [OF False] by blast
  qed
qed

section \<open>An example\<close>

text \<open>The library over lists, with a channel that keeps the calls, and the five robots of the README.\<close>

record robot_lib = lib_state +
  rb_sent :: "report_request list"

definition demo_call :: "string \<Rightarrow> report_request \<Rightarrow> robot_lib \<Rightarrow> rpc_status \<times> robot_lib" where
  "demo_call addr rq w = (\<lparr>st_ok = True, st_code = 0, st_message = []\<rparr>, w\<lparr>rb_sent := rb_sent w @ [rq]\<rparr>)"

definition demo_system :: "(lmsg, robot_lib, unit, list_builder, redis_db) fleet_env" where
  "demo_system = \<lparr>fe_env = \<lparr>re_api = list_sock_api, re_rt = byte_runtime, re_rpc = demo_call\<rparr>,
     fe_robots = map (\<lambda>aisle. (RobotWorker_ctor ''localhost:50051'' aisle ''tcp://localhost:5556'',
                              \<lparr>sb_handle = 1, sb_ctxptr = 1\<rparr>)) [''bread'', ''meat'', ''produce'', ''dairy'', ''party''],
     fe_inq = lib_in, fe_sent = rb_sent, fe_deliver = (\<lambda>m w. w\<lparr>lib_in := lib_in w @ [(m, False)]\<rparr>),
     fe_redis = map_redis, fe_view = (\<lambda>db. db)\<rparr>"

definition demo_orders :: "(byte list \<times> order) list" where
  "demo_orders = map (\<lambda>ord. (broadcast_of byte_runtime lb_start ord, ord))
     [(''o1'', ''CUSTOMER'', [(''milk'', 2, ''dairy''), (''beef'', 1, ''meat'')]), (''o1'', ''RESTOCK'', [(''beef'', 9, ''meat'')])]"

definition demo_system_start :: "(robot_lib, redis_db) fleet" where
  "demo_system_start = \<lparr>fl_todo = map fst demo_orders, fl_net = replicate 5 [],
     fl_procs = replicate 5 ([], lib_state.extend lib_start \<lparr>rb_sent = []\<rparr>),
     fl_down = {}, fl_server = server_start Map.empty\<rparr>"

lemma demo_system_ideal: "fleet_ideal demo_system"
proof -
  let ?api = "list_sock_api :: (lmsg, robot_lib) sock_api"
  have api: "re_api (fe_env demo_system) = ?api" "fe_inq demo_system = lib_in" "fe_sent demo_system = rb_sent"
    "fe_deliver demo_system = (\<lambda>m w. w\<lparr>lib_in := lib_in w @ [(m, False)]\<rparr>)"
    "re_rpc (fe_env demo_system) = demo_call" by (simp_all add: demo_system_def)
  have sent: "rb_sent (snd (zmq_msg_init ?api w)) = rb_sent w" "rb_sent (snd (zmq_msg_recv ?api h m fl w)) = rb_sent w"
    for h m fl w
    by (simp_all add: list_sock_api_simps lib_recv_def split: list.split)
  have "fleet_lib demo_system"
    unfolding fleet_lib_def Let_def api by (auto simp: sent demo_call_def list_sock_msg_ok intro: list_inbound)
  moreover have "fe_redis demo_system = map_redis" "fe_view demo_system = (\<lambda>db. db)" by (simp_all add: demo_system_def)
  ultimately show ?thesis
    by (simp add: fleet_ideal_def calls_succeed_def api demo_call_def map_redis_ok map_redis_up case_prod_unfold)
qed

lemma demo_system_orders: "orders_ok demo_system demo_orders"
proof -
  have "plain_order (''o1'', ''CUSTOMER'', [(''milk'', 2, ''dairy''), (''beef'', 1, ''meat'')])"
    "plain_order (''o1'', ''RESTOCK'', [(''beef'', 9, ''meat'')])" by (simp_all add: plain_order_def)
  with broadcast_read [OF byte_runtime_ok] show ?thesis
    by (simp add: orders_ok_def demo_system_def demo_orders_def key_of_order_def)
qed

lemma demo_system_begins: "fleet_start demo_system demo_orders demo_system_start"
  by (auto simp: fleet_start_def demo_system_start_def demo_system_def lib_start_def lib_state.defs eval_nat_numeral
      intro!: exI [of _ Map.empty])

lemma demo_system_robots:
  "length (fe_robots demo_system) = 5" "distinct (map aisle_type (map fst (fe_robots demo_system)))"
  by (simp_all add: demo_system_def RobotWorker_ctor_def)

theorem fleet_finishes_orders_witness:
  "\<exists>n s. (fleet_step demo_system False ^^ n) demo_system_start s \<and> n \<le> 62
    \<and> distinct (sv_finals (fl_server s)) \<and> set (sv_finals (fl_server s)) = {(''o1'', False), (''o1'', True)}"
proof -
  obtain n s where s: "(fleet_step demo_system False ^^ n) demo_system_start s" "\<nexists>s'. fleet_step demo_system False s s'"
    using fleet_ends [OF demo_system_ideal demo_system_orders fleet_live_start [OF demo_system_begins]] by blast
  have "length demo_orders = 2" "(\<lambda>(bs, ord). key_of_order ord) ` set demo_orders = {(''o1'', False), (''o1'', True)}"
    by (simp_all add: demo_orders_def key_of_order_def)
  with fleet_finishes_orders [OF demo_system_ideal demo_system_orders demo_system_robots(1) demo_system_begins s(1)] s
  show ?thesis by (intro exI [of _ n] exI [of _ s]) simp
qed

text \<open>A run to the end, in which one robot has reported the beef of the customer's order.\<close>

theorem fleet_safe_witness:
  "\<exists>s. (fleet_step demo_system False)\<^sup>*\<^sup>* demo_system_start s \<and> (''o1'', False) \<in> set (sv_finals (fl_server s))
    \<and> fl_down s = {} \<and> (\<exists>!i. i < 5 \<and> (\<exists>rq \<in> set (reported demo_system s (''o1'', False) i).
         rq_processed_items rq ''beef'' = Some 1))"
proof -
  obtain n s where s: "(fleet_step demo_system False ^^ n) demo_system_start s" "\<nexists>s'. fleet_step demo_system False s s'"
    using fleet_ends [OF demo_system_ideal demo_system_orders fleet_live_start [OF demo_system_begins]] by blast
  have "fleet_live demo_system demo_orders s"
    using fleet_live_run [OF demo_system_ideal demo_system_orders s(1) fleet_live_start [OF demo_system_begins]] by blast
  note live = this
  then have a: "count_key (''o1'', False) \<notin> set (sv_again (fl_server s))" by (simp add: fleet_live_def fleet_inv_def)
  from fleet_end(2) [OF live demo_system_orders demo_system_robots(1) s(2)]
  have f: "(''o1'', False) \<in> set (sv_finals (fl_server s))"
    by (simp add: demo_orders_def key_of_order_def)
  have run: "(fleet_step demo_system False)\<^sup>*\<^sup>* demo_system_start s" using s(1) by (rule relpowp_imp_rtranclp)
  have lib: "fleet_lib demo_system" "redis_ok (fe_redis demo_system) (fe_view demo_system)"
    using demo_system_ideal by (simp_all add: fleet_ideal_def)
  note safe = fleet_safe [OF lib demo_system_orders demo_system_robots demo_system_begins run]
  from mp [OF bspec [OF conjunct2 [OF conjunct2 [OF safe]] f] a] obtain bs oid ty items where o: "(bs, (oid, ty, items)) \<in> set demo_orders" "(''o1'', False) = (oid, ty = ''RESTOCK'')"
    and i: "distinct (map fst items) \<longrightarrow> (\<forall>(sku, q, a) \<in> set items.
        a \<in> set (map aisle_type (map fst (fe_robots demo_system))) \<longrightarrow>
        (\<exists>!i. i < 5 \<and> (\<exists>rq \<in> set (reported demo_system s (''o1'', False) i). rq_processed_items rq sku = Some q)))"
    by (elim exE conjE)
  from o have items: "items = [(''milk'', 2, ''dairy''), (''beef'', 1, ''meat'')]" by (auto simp: demo_orders_def)
  have "''meat'' \<in> set (map aisle_type (map fst (fe_robots demo_system)))"
    by (simp add: demo_system_def RobotWorker_ctor_def)
  moreover have "distinct (map fst items)" "(''beef'', 1, ''meat'') \<in> set items" by (simp_all add: items)
  ultimately have "\<exists>!i. i < 5 \<and> (\<exists>rq \<in> set (reported demo_system s (''o1'', False) i). rq_processed_items rq ''beef'' = Some 1)"
    using i by blast
  with f run conjunct1 [OF safe] show ?thesis by (intro exI [of _ s] conjI)
qed

text \<open>The same with an order that the Go handler has sent: its figs have no aisle.\<close>

definition demo_commands :: "(string \<times> string \<times> (string \<times> item_details) list) list" where
  "demo_commands = [(''o2'', ''CUSTOMER'', [(''milk'', \<lparr>Quantity = 2, Aisle = ''dairy''\<rparr>), (''figs'', \<lparr>Quantity = 1, Aisle = ''Unknown''\<rparr>)])]"

definition demo_commands_start :: "(robot_lib, redis_db) fleet" where
  "demo_commands_start = demo_system_start\<lparr>fl_todo := map fst (commands list_go demo_commands)\<rparr>"

theorem commanded_items_reported_witness:
  "\<exists>s. (fleet_step demo_system False)\<^sup>*\<^sup>* demo_commands_start s \<and> (''o2'', False) \<in> set (sv_finals (fl_server s))
    \<and> (\<forall>i < 5. \<exists>rq. reported demo_system s (''o2'', False) i = [rq] \<and> rq_processed_items rq ''figs'' = None)"
proof -
  have rt: "re_rt (fe_env demo_system) = byte_runtime" by (simp add: demo_system_def)
  note go = list_go_ok [folded rt]
  have d: "distinct (map (\<lambda>(oid, ty, its). (oid, ty = ''RESTOCK'')) demo_commands)" by (simp add: demo_commands_def)
  note ok = commands_ok [OF go d]
  have start: "fleet_start demo_system (commands list_go demo_commands) demo_commands_start"
    using demo_system_begins by (simp add: fleet_start_def demo_commands_start_def)
  obtain n s where s: "(fleet_step demo_system False ^^ n) demo_commands_start s" "\<nexists>s'. fleet_step demo_system False s s'"
    using fleet_ends [OF demo_system_ideal ok fleet_live_start [OF start]] by blast
  have "fleet_live demo_system (commands list_go demo_commands) s"
    using fleet_live_run [OF demo_system_ideal ok s(1) fleet_live_start [OF start]] by blast
  note live = this
  then have ag: "count_key (''o2'', ''CUSTOMER'' = ''RESTOCK'') \<notin> set (sv_again (fl_server s))"
    by (simp add: fleet_live_def fleet_inv_def)
  from fleet_end(2) [OF live ok demo_system_robots(1) s(2)]
  have f: "(''o2'', ''CUSTOMER'' = ''RESTOCK'') \<in> set (sv_finals (fl_server s))"
    by (simp add: commands_def demo_commands_def command_order_def key_of_order_def)
  have run: "(fleet_step demo_system False)\<^sup>*\<^sup>* demo_commands_start s" using s(1) by (rule relpowp_imp_rtranclp)
  have lib: "fleet_lib demo_system" "redis_ok (fe_redis demo_system) (fe_view demo_system)"
    using demo_system_ideal by (simp_all add: fleet_ideal_def)
  let ?its = "[(''milk'', \<lparr>Quantity = 2, Aisle = ''dairy''\<rparr>), (''figs'', \<lparr>Quantity = 1, Aisle = ''Unknown''\<rparr>)] :: (string \<times> item_details) list"
  have c: "(''o2'', ''CUSTOMER'', ?its) \<in> set demo_commands" "distinct (map fst ?its)"
    "(''figs'', \<lparr>Quantity = 1, Aisle = ''Unknown''\<rparr>) \<in> set ?its" by (simp_all add: demo_commands_def)
  have a: "Aisle \<lparr>Quantity = 1, Aisle = ''Unknown''\<rparr> \<notin> set (map aisle_type (map fst (fe_robots demo_system)))"
    by (simp add: demo_system_def RobotWorker_ctor_def)
  from commanded_items_reported [OF lib go demo_system_robots d start run c(1,2) f ag c(3)]
  have "\<forall>i < 5. \<exists>rq. reported demo_system s (''o2'', ''CUSTOMER'' = ''RESTOCK'') i = [rq] \<and> rq_processed_items rq ''figs'' = None"
    unfolding if_not_P [OF a] .
  with f run show ?thesis by (intro exI [of _ s]) simp
qed

end
